(* ===== verification/X6_Prelude.thy ===== *)
theory X6_Prelude
  imports Main "HOL-Library.Word" "HOL-Library.Signed_Division"
begin

unbundle bit_operations_syntax

text \<open>
  Shared vocabulary of the development: the machine types of the source, the result type
  of operations that can fail (an assertion, a C++ exception, undefined behaviour of memory
  accesses, a call that never returns), sequencing of such operations, byte-level reading
  and writing of little-endian words, and writes into a byte buffer.
\<close>

section \<open>Machine types\<close>

type_synonym byte = "8 word"
type_synonym u16 = "16 word"
type_synonym u32 = "32 word"
type_synonym u64 = "64 word"

named_theorems layout_simps \<open>byte layout of packets\<close>
named_theorems op_defs \<open>definitions of operations\<close>
named_theorems wf_intros \<open>preservation of the invariant\<close>

section \<open>Faults and results\<close>

text \<open>
  \<open>Assert\<close>: a failed \<^verbatim>\<open>assert\<close> (the process aborts); \<open>Throw\<close>: a C++ exception, with its
  string; \<open>MemErr\<close>: an access outside a live object, which C++ leaves undefined;
  \<open>Diverge\<close>: the call never returns.
\<close>

datatype fault = Assert string | Throw string | MemErr string | Diverge

type_synonym 'a res = "fault + 'a"

definition bindE :: "'e + 'a \<Rightarrow> ('a \<Rightarrow> 'e + 'b) \<Rightarrow> 'e + 'b" where
  "bindE m f = (case m of Inl e \<Rightarrow> Inl e | Inr x \<Rightarrow> f x)"

lemma bindE_simps [simp]:
  "bindE (Inl e) f = Inl e"
  "bindE (Inr x) f = f x"
  by (simp_all add: bindE_def)

lemma bindE_Inr_iff: "bindE m f = Inr y \<longleftrightarrow> (\<exists>x. m = Inr x \<and> f x = Inr y)"
  by (cases m) simp_all

lemma bindE_InrE [elim!]:
  assumes "bindE m f = Inr y"
  obtains x where "m = Inr x" "f x = Inr y"
  using assms by (auto simp: bindE_Inr_iff)

lemma bindE_assoc: "bindE (bindE m f) g = bindE m (\<lambda>x. bindE (f x) g)"
  by (cases m) simp_all

text \<open>An \<^verbatim>\<open>assert\<close> of the source.\<close>

definition assertE :: "string \<Rightarrow> bool \<Rightarrow> unit res" where
  "assertE msg b = (if b then Inr () else Inl (Assert msg))"

lemma assertE_simps [simp]:
  "assertE msg True = Inr ()"
  "assertE msg False = Inl (Assert msg)"
  by (simp_all add: assertE_def)

lemma assertE_Inr [simp]: "assertE msg b = Inr u \<longleftrightarrow> b"
  by (simp add: assertE_def)

section \<open>Little-endian words and bytes\<close>

definition le_bytes :: "nat \<Rightarrow> 'a::len word \<Rightarrow> byte list" where
  "le_bytes n w = map (\<lambda>i. ucast (drop_bit (8 * i) w)) [0..<n]"

fun of_le_bytes :: "byte list \<Rightarrow> 'a::len word" where
  "of_le_bytes [] = 0"
| "of_le_bytes (b # bs) = ucast b OR push_bit 8 (of_le_bytes bs)"

lemma length_le_bytes [simp, layout_simps]: "length (le_bytes n w) = n"
  by (simp add: le_bytes_def)

lemma le_bytes_nth: "i < n \<Longrightarrow> le_bytes n w ! i = ucast (drop_bit (8 * i) w)"
  by (simp add: le_bytes_def)

lemma bit_of_le_bytes:
  "bit (of_le_bytes bs :: 'a::len word) j \<longleftrightarrow>
     j < LENGTH('a) \<and> j < 8 * length bs \<and> bit (bs ! (j div 8)) (j mod 8)"
proof (induction bs arbitrary: j)
  case Nil
  then show ?case by simp
next
  case (Cons b bs)
  show ?case
  proof (cases "j < 8")
    case True
    then show ?thesis by (auto simp: bit_simps dest: bit_imp_le_length)
  next
    case False
    then have "j div 8 = Suc ((j - 8) div 8)" "j mod 8 = (j - 8) mod 8"
      by (simp_all add: le_div_geq le_mod_geq)
    with False show ?thesis
      by (auto simp: bit_simps Cons.IH dest: bit_imp_le_length)
  qed
qed

lemma of_le_bytes_le_bytes [simp]:
  assumes "LENGTH('a::len) = 8 * n"
  shows "of_le_bytes (le_bytes n (w :: 'a word)) = w"
proof (rule bit_word_eqI)
  fix j
  assume j: "j < LENGTH('a)"
  then have "j div 8 < n" using assms by auto
  then show "bit (of_le_bytes (le_bytes n w) :: 'a word) j \<longleftrightarrow> bit w j"
    using j assms by (simp add: bit_of_le_bytes le_bytes_nth bit_simps)
qed

lemma le_bytes_of_le_bytes:
  assumes "LENGTH('a::len) = 8 * n" and "length bs = n"
  shows "le_bytes n (of_le_bytes bs :: 'a word) = bs"
proof (rule nth_equalityI)
  show "length (le_bytes n (of_le_bytes bs :: 'a word)) = length bs"
    using assms by simp
next
  fix i
  assume "i < length (le_bytes n (of_le_bytes bs :: 'a word))"
  then have i: "i < n" by simp
  have "8 * i + m < 8 * n" if "m < 8" for m
    using i that by simp
  then have "ucast (drop_bit (8 * i) (of_le_bytes bs :: 'a word)) = (bs ! i :: byte)"
    using assms i by (intro bit_word_eqI) (auto simp: bit_simps bit_of_le_bytes add.commute)
  with i show "le_bytes n (of_le_bytes bs :: 'a word) ! i = bs ! i"
    by (simp add: le_bytes_nth)
qed

section \<open>Writing into a buffer\<close>

text \<open>Overwrite the bytes of a buffer from an offset on.\<close>

definition put :: "nat \<Rightarrow> byte list \<Rightarrow> byte list \<Rightarrow> byte list" where
  "put off bs buf = take off buf @ bs @ drop (off + length bs) buf"

definition get :: "nat \<Rightarrow> nat \<Rightarrow> byte list \<Rightarrow> byte list" where
  "get off n buf = take n (drop off buf)"

lemma length_put [simp]: "off + length bs \<le> length buf \<Longrightarrow> length (put off bs buf) = length buf"
  by (simp add: put_def)

lemma get_put_same: "off + length bs \<le> length buf \<Longrightarrow> get off (length bs) (put off bs buf) = bs"
  by (simp add: get_def put_def)

lemma get_put_before: "off + n \<le> j \<Longrightarrow> j \<le> length buf \<Longrightarrow> get off n (put j bs buf) = get off n buf"
  by (simp add: get_def put_def take_drop min_def)

lemma get_put_after:
  assumes "j + length bs \<le> off" and "j + length bs \<le> length buf"
  shows "get off n (put j bs buf) = get off n buf"
proof -
  have "drop off (put j bs buf) = drop off buf"
    using assms by (simp add: put_def add.commute)
  then show ?thesis by (simp add: get_def)
qed

lemma put_put_same: "length bs = length cs \<Longrightarrow> off + length bs \<le> length buf \<Longrightarrow>
    put off bs (put off cs buf) = put off bs buf"
  by (simp add: put_def)

lemma put_get_same: "put off (get off n buf) buf = buf"
proof -
  have "length (get off n buf) = min n (length buf - off)" by (simp add: get_def)
  then show ?thesis
    by (simp add: put_def get_def min_def)
       (metis append_take_drop_id drop_drop add.commute)
qed

end
