(* ===== verification/Wire.thy ===== *)
theory Wire
  imports X6_Prelude
begin

text \<open>
  The wire format of \<^verbatim>\<open>src/src/x6losim_interface.h\<close>: constants, message types, and the
  packed structures exchanged with a node. A structure is a record of its fields \<^emph>\<open>as they
  lie in memory\<close> (after \<^verbatim>\<open>htons\<close> and friends); \<open>mem_*\<close> gives its bytes on a little-endian
  host and \<open>*_of\<close> reads them back, as the casts of a \<^verbatim>\<open>char *\<close> buffer do.
\<close>

section \<open>Byte order\<close>

definition bswap :: "nat \<Rightarrow> 'a::len word \<Rightarrow> 'a word" where
  "bswap n w = of_le_bytes (rev (le_bytes n w))"

definition htons :: "u16 \<Rightarrow> u16" where "htons w = bswap 2 w"
definition htonl :: "u32 \<Rightarrow> u32" where "htonl w = bswap 4 w"
definition ntohll :: "u64 \<Rightarrow> u64" where "ntohll x = bswap 8 x"

abbreviation "ntohs \<equiv> htons"
abbreviation "ntohl \<equiv> htonl"
abbreviation "htonll \<equiv> ntohll"

lemma le_bytes_bswap:
  "LENGTH('a::len) = 8 * n \<Longrightarrow> le_bytes n (bswap n (w :: 'a word)) = rev (le_bytes n w)"
  by (simp add: bswap_def le_bytes_of_le_bytes)

lemma bswap_bswap: "LENGTH('a::len) = 8 * n \<Longrightarrow> bswap n (bswap n (w :: 'a word)) = w"
  by (subst bswap_def) (simp add: le_bytes_bswap)

lemma byte_order_involutive [simp]:
  "htons (htons a) = a" "htonl (htonl b) = b" "ntohll (ntohll c) = c"
  by (simp_all add: htons_def htonl_def ntohll_def bswap_bswap)

lemma byte_order_inject [simp]:
  "htons a = htons a' \<longleftrightarrow> a = a'" "htonl b = htonl b' \<longleftrightarrow> b = b'" "ntohll c = ntohll c' \<longleftrightarrow> c = c'"
  by (metis byte_order_involutive)+

lemma big_endian_on_wire [layout_simps]:
  "le_bytes 2 (htons a) = rev (le_bytes 2 a)"
  "le_bytes 4 (htonl b) = rev (le_bytes 4 b)"
  "le_bytes 8 (ntohll c) = rev (le_bytes 8 c)"
  by (simp_all add: htons_def htonl_def ntohll_def le_bytes_bswap)

lemma of_le_bytes_words [simp]:
  "of_le_bytes (le_bytes 2 (a :: u16)) = a"
  "of_le_bytes (le_bytes 4 (b :: u32)) = b"
  "of_le_bytes (le_bytes 8 (c :: u64)) = c"
  by simp_all

section \<open>Constants and message types\<close>

definition NETSIM_PKT_MAX_SZ :: nat where "NETSIM_PKT_MAX_SZ = 256"
definition NETSIM_INTERFACE_VERSION :: u32 where "NETSIM_INTERFACE_VERSION = 1"
definition HANADU_NODE_PORT :: int where "HANADU_NODE_PORT = 11555"
definition WIRELESS_NODE_PORT :: int where "WIRELESS_NODE_PORT = 11556"
definition HANADU_MCAST_TX_PORT :: int where "HANADU_MCAST_TX_PORT = 22411"
definition WIRELESS_MCAST_TX_PORT :: int where "WIRELESS_MCAST_TX_PORT = 22412"

datatype msg_type =
    MSG_TYPE_REG_REQ | MSG_TYPE_REG_CON | MSG_TYPE_DEREG_REQ | MSG_TYPE_DEREG_CON
  | MSG_TYPE_CCA_REQ | MSG_TYPE_CCA_CON | MSG_TYPE_TX_DATA_IND | MSG_TYPE_TX_DONE_IND

fun msg_type_val :: "msg_type \<Rightarrow> u16" where
  "msg_type_val MSG_TYPE_REG_REQ = 0"
| "msg_type_val MSG_TYPE_REG_CON = 1"
| "msg_type_val MSG_TYPE_DEREG_REQ = 2"
| "msg_type_val MSG_TYPE_DEREG_CON = 3"
| "msg_type_val MSG_TYPE_CCA_REQ = 4"
| "msg_type_val MSG_TYPE_CCA_CON = 5"
| "msg_type_val MSG_TYPE_TX_DATA_IND = 6"
| "msg_type_val MSG_TYPE_TX_DONE_IND = 7"

lemma msg_type_val_inject [simp]: "msg_type_val a = msg_type_val b \<longleftrightarrow> a = b"
  by (cases a; cases b) simp_all

definition TX_DONE_OK :: int where "TX_DONE_OK = 0"
definition TX_DONE_COLLIDED :: int where "TX_DONE_COLLIDED = 1"
definition TX_DONE_FAILURE :: int where "TX_DONE_FAILURE = 2"

lemmas tx_done_defs = TX_DONE_OK_def TX_DONE_COLLIDED_def TX_DONE_FAILURE_def

section \<open>Packet structures\<close>

record netsim_pkt_hdr =
  hdr_len :: u16
  hdr_msg_type :: u16
  hdr_interface_version :: u32
  hdr_node_id :: u64
  hdr_cksum :: u16

text \<open>The structures that hold a header and nothing else have its layout.\<close>

type_synonym netsim_to_node_registration_req_pkt = netsim_pkt_hdr
type_synonym node_to_netsim_cca_req_pkt = netsim_pkt_hdr
type_synonym node_to_netsim_deregistration_req_pkt = netsim_pkt_hdr
type_synonym netsim_to_node_deregistration_con_pkt = netsim_pkt_hdr

record node_to_netsim_registration_con_pkt =
  rc_hdr :: netsim_pkt_hdr
  rc_os :: "byte list"
  rc_os_version :: "byte list"

record netsim_to_node_cca_con_pkt =
  cc_hdr :: netsim_pkt_hdr
  cc_result :: byte

record netsim_to_node_tx_done_ind_pkt =
  td_hdr :: netsim_pkt_hdr
  td_result :: byte

record netsim_data_ind_pkt =
  di_hdr :: netsim_pkt_hdr
  di_source_addr :: u64
  di_psdu_len :: u16
  di_extra_hdr :: u16
  di_rep_code :: byte
  di_tx_power :: byte
  di_cca_mode :: byte
  di_rssi :: byte
  di_pktData :: "byte list"

definition mem_hdr :: "netsim_pkt_hdr \<Rightarrow> byte list" where
  "mem_hdr h = le_bytes 2 (hdr_len h) @ le_bytes 2 (hdr_msg_type h)
     @ le_bytes 4 (hdr_interface_version h) @ le_bytes 8 (hdr_node_id h)
     @ le_bytes 2 (hdr_cksum h)"

definition hdr_of :: "byte list \<Rightarrow> netsim_pkt_hdr" where
  "hdr_of buf = \<lparr> hdr_len = of_le_bytes (get 0 2 buf), hdr_msg_type = of_le_bytes (get 2 2 buf),
     hdr_interface_version = of_le_bytes (get 4 4 buf), hdr_node_id = of_le_bytes (get 8 8 buf),
     hdr_cksum = of_le_bytes (get 16 2 buf) \<rparr>"

definition mem_registration_con :: "node_to_netsim_registration_con_pkt \<Rightarrow> byte list" where
  "mem_registration_con p = mem_hdr (rc_hdr p) @ rc_os p @ rc_os_version p"

definition mem_cca_con :: "netsim_to_node_cca_con_pkt \<Rightarrow> byte list" where
  "mem_cca_con p = mem_hdr (cc_hdr p) @ [cc_result p]"

definition mem_tx_done_ind :: "netsim_to_node_tx_done_ind_pkt \<Rightarrow> byte list" where
  "mem_tx_done_ind p = mem_hdr (td_hdr p) @ [td_result p]"

definition mem_data_ind :: "netsim_data_ind_pkt \<Rightarrow> byte list" where
  "mem_data_ind p = mem_hdr (di_hdr p) @ le_bytes 8 (di_source_addr p) @ le_bytes 2 (di_psdu_len p)
     @ le_bytes 2 (di_extra_hdr p)
     @ [di_rep_code p, di_tx_power p, di_cca_mode p, di_rssi p] @ di_pktData p"

text \<open>\<^verbatim>\<open>sizeof\<close> of the packed structures; \<open>RSSI_OFF\<close> and \<open>PKTDATA_OFF\<close> are member offsets.\<close>

definition HDR_SZ :: nat where "HDR_SZ = 18"
definition CKSUM_OFF :: nat where "CKSUM_OFF = 16"
definition REG_CON_SZ :: nat where "REG_CON_SZ = 82"
definition RESULT_PKT_SZ :: nat where "RESULT_PKT_SZ = 19"
definition DATA_IND_SZ :: nat where "DATA_IND_SZ = 35"
definition PSDU_LEN_OFF :: nat where "PSDU_LEN_OFF = 26"
definition RSSI_OFF :: nat where "RSSI_OFF = 33"
definition PKTDATA_OFF :: nat where "PKTDATA_OFF = 34"

lemmas size_defs = HDR_SZ_def CKSUM_OFF_def REG_CON_SZ_def RESULT_PKT_SZ_def DATA_IND_SZ_def
  PSDU_LEN_OFF_def RSSI_OFF_def PKTDATA_OFF_def

lemma length_mem_hdr [simp, layout_simps]: "length (mem_hdr h) = 18"
  by (simp add: mem_hdr_def)

lemma hdr_of_mem_hdr: "hdr_of (mem_hdr h @ rest) = h"
  by (simp add: hdr_of_def mem_hdr_def get_def)

lemma mem_hdr_hdr_of:
  assumes "18 \<le> length buf"
  shows "mem_hdr (hdr_of buf) = take 18 buf"
proof -
  have t: "take (a + b) xs = take a xs @ get a b xs" for a b and xs :: "byte list"
    by (simp add: get_def take_add)
  have "take 18 buf = get 0 2 buf @ get 2 2 buf @ get 4 4 buf @ get 8 8 buf @ get 16 2 buf"
    using t [of 16 2 buf] t [of 8 8 buf] t [of 4 4 buf] t [of 2 2 buf] by (simp add: get_def)
  moreover have "length (get 0 2 buf) = 2" "length (get 2 2 buf) = 2" "length (get 4 4 buf) = 4"
    "length (get 8 8 buf) = 8" "length (get 16 2 buf) = 2"
    using assms by (simp_all add: get_def)
  ultimately show ?thesis
    by (simp add: mem_hdr_def hdr_of_def le_bytes_of_le_bytes)
qed

lemma put_cksum_mem_hdr:
  "put 16 (le_bytes 2 c) (mem_hdr h @ rest) = mem_hdr (h\<lparr>hdr_cksum := c\<rparr>) @ rest"
  by (simp add: put_def mem_hdr_def)

lemma put_len_mem_hdr:
  "put 0 (le_bytes 2 n) (mem_hdr h @ rest) = mem_hdr (h\<lparr>hdr_len := n\<rparr>) @ rest"
  by (simp add: put_def mem_hdr_def)

end
