(* ===== verification/Checksum.thy ===== *)
theory Checksum
  imports Wire
begin

text \<open>
  \<^verbatim>\<open>generate_checksum\<close> of \<^verbatim>\<open>src/src/sim/DeviceNode.cpp\<close> (and its copy in
  \<^verbatim>\<open>src/test/nodesim/common.cpp\<close>), with its accumulator at the 32 bits of the C++ \<^verbatim>\<open>int\<close>, its
  agreement with a one's-complement sum over the natural numbers, and what a change of the
  message does to it. The message is the list of the \<^verbatim>\<open>msglen\<close> bytes at \<^verbatim>\<open>msg\<close>.
\<close>

section \<open>The code\<close>

fun cksum_loop :: "u32 \<Rightarrow> byte list \<Rightarrow> u32" where
  "cksum_loop c (a # b # bs) = cksum_loop (c + ucast (of_le_bytes [a, b] :: u16)) bs"
| "cksum_loop c [a] = c + ucast (htons (push_bit 8 (ucast a)))"
| "cksum_loop c [] = c"

definition cksum_fold :: "u32 \<Rightarrow> u16" where
  "cksum_fold c =
     (let c1 = signed_drop_bit 16 c + (c AND 0xffff);
          c2 = c1 + signed_drop_bit 16 c1
      in NOT (ucast c2))"

definition generate_checksum :: "byte list \<Rightarrow> u16" where
  "generate_checksum msg = cksum_fold (cksum_loop 0 msg)"

section \<open>Reference: a one's-complement sum\<close>

fun word_sum :: "byte list \<Rightarrow> nat" where
  "word_sum (a # b # bs) = unat a + 256 * unat b + word_sum bs"
| "word_sum [a] = unat a"
| "word_sum [] = 0"

definition ones_comp :: "nat \<Rightarrow> nat" where
  "ones_comp s = (if s = 0 then 0 else Suc ((s - 1) mod 65535))"

section \<open>Arithmetic of the accumulator\<close>

lemma unat_byte_less: "unat (b :: byte) < 256"
  using unsigned_less [of b] by simp

lemma unat_ucast_byte [simp]: "unat (ucast (b :: byte) :: u16) = unat b"
  by (simp add: unsigned_ucast_eq take_bit_nat_eq_self order.strict_trans [OF unsigned_less])

lemma unat_ucast_u16 [simp]: "unat (ucast (w :: u16) :: u32) = unat w"
  by (simp add: unsigned_ucast_eq take_bit_nat_eq_self order.strict_trans [OF unsigned_less])

lemma unat_le_word: "unat (of_le_bytes [a, b] :: u16) = unat a + 256 * unat b"
proof -
  have "(ucast a :: u16) AND push_bit 8 (ucast b) = 0"
    by (rule bit_word_eqI) (auto simp: bit_simps dest: bit_imp_le_length)
  then have "(ucast a :: u16) OR push_bit 8 (ucast b) = ucast a + 256 * ucast b"
    using word_plus_and_or [of "ucast a :: u16" "push_bit 8 (ucast b)"]
    by (simp add: push_bit_eq_mult)
  with unat_byte_less [of a] unat_byte_less [of b] show ?thesis
    by (simp add: unat_word_ariths)
qed

lemma htons_high_byte: "htons (push_bit 8 (ucast (a :: byte))) = ucast a"
proof -
  have "ucast (drop_bit 8 (push_bit 8 (ucast a :: u16))) = a"
    by (rule bit_word_eqI) (auto simp: bit_simps)
  moreover have "(ucast (push_bit 8 (ucast a :: u16)) :: byte) = 0"
    by (rule bit_word_eqI) (auto simp: bit_simps)
  ultimately show ?thesis
    by (simp add: htons_def bswap_def le_bytes_def upt_rec)
qed

lemma unat_cksum_loop:
  "unat c + word_sum msg < 2 ^ 32 \<Longrightarrow> unat (cksum_loop c msg) = unat c + word_sum msg"
proof (induction c msg rule: cksum_loop.induct)
  case (1 c a b bs)
  have step: "unat (c + ucast (of_le_bytes [a, b] :: u16)) = unat c + (unat a + 256 * unat b)"
    using "1.prems" by (simp add: unat_word_ariths unat_le_word del: of_le_bytes.simps)
  show ?case
    using "1.IH" "1.prems" by (simp add: step del: of_le_bytes.simps)
next
  case (2 c a)
  then show ?case
    by (simp add: htons_high_byte unat_word_ariths)
qed simp

lemma word_sum_bound: "word_sum msg \<le> 65535 * (length msg div 2) + 255 * (length msg mod 2)"
proof (induction msg rule: word_sum.induct)
  case (1 a b bs)
  have "unat a + 256 * unat b \<le> 65535"
    using unat_byte_less [of a] unat_byte_less [of b] by linarith
  with 1 show ?case by simp
next
  case (2 a)
  show ?case using unat_byte_less [of a] by simp
qed simp

text \<open>The length field has 16 bits, so the signed 32-bit accumulator never overflows.\<close>

lemma word_sum_no_overflow:
  assumes "length msg \<le> 65535"
  shows "word_sum msg < 2 ^ 31"
proof -
  have "length msg div 2 \<le> 32767" "length msg mod 2 \<le> 1" using assms by simp_all
  then have "65535 * (length msg div 2) + 255 * (length msg mod 2) \<le> 65535 * 32767 + 255"
    by (intro add_mono) simp_all
  with word_sum_bound [of msg] show ?thesis by simp
qed

lemma signed_drop_bit_nonneg:
  assumes "unat (c :: u32) < 2 ^ 31"
  shows "signed_drop_bit n c = drop_bit n c"
proof -
  have "\<not> bit (unat c) 31" using assms by (simp add: bit_iff_odd)
  then have "\<not> bit c 31" by (simp add: bit_simps)
  then show ?thesis
    by (intro bit_word_eqI) (auto simp: bit_simps dest: bit_imp_le_length)
qed

lemma unat_low16: "unat ((c :: u32) AND 0xffff) = unat c mod 65536"
proof -
  have "c AND 0xffff = take_bit 16 c" by (simp add: take_bit_eq_mask mask_eq_exp_minus_1)
  then show ?thesis by (simp add: unsigned_take_bit_eq) (simp add: take_bit_eq_mod)
qed

lemma unat_not16: "unat (NOT (x :: u16)) = 65535 - unat x"
proof -
  have "NOT x = - 1 - x" by (simp add: not_eq_complement)
  moreover have "unat (- 1 :: u16) = 65535"
    by (simp add: unsigned_minus_1_eq_mask mask_eq_exp_minus_1)
  ultimately show ?thesis by (simp only: unat_sub word_order.extremum)
qed

lemma ones_comp_fold:
  assumes "s < 2 ^ 31" and "f = s div 65536 + s mod 65536"
  shows "(f + f div 65536) mod 65536 = ones_comp s"
proof (cases "s = 0")
  case True
  then show ?thesis using assms by (simp add: ones_comp_def)
next
  case False
  have s: "s = 65535 * (s div 65536) + f" using assms(2) by simp
  have "s div 65536 < 32768" using assms(1) by simp
  then have f: "0 < f" "f < 98304" using assms(2) False by auto
  have "s - 1 = 65535 * (s div 65536) + (f - 1)" using s f by linarith
  then have "(s - 1) mod 65535 = (f - 1) mod 65535" by (simp only: mod_mult_self4)
  then have oc: "ones_comp s = Suc ((f - 1) mod 65535)"
    using False by (simp add: ones_comp_def)
  show ?thesis
  proof (cases "f < 65536")
    case True
    with f oc show ?thesis by simp
  next
    case False
    then have "f div 65536 = 1" "(f - 1) mod 65535 = f - 65536"
      using f by (auto simp: le_mod_geq le_div_geq)
    with f False oc show ?thesis by (simp add: le_mod_geq)
  qed
qed

lemma unat_cksum_fold:
  assumes "unat c < 2 ^ 31"
  shows "unat (cksum_fold c) = 65535 - ones_comp (unat c)"
proof -
  define f where "f = unat c div 65536 + unat c mod 65536"
  define c1 where "c1 = signed_drop_bit 16 c + (c AND 0xffff)"
  have "unat c div 65536 < 32768" "unat c mod 65536 < 65536" using assms by simp_all
  then have f: "f < 98304" by (simp add: f_def)
  have c1: "unat c1 = f"
    using f by (simp add: c1_def f_def signed_drop_bit_nonneg [OF assms] unat_word_ariths
        unat_drop_bit_eq unat_low16 drop_bit_eq_div)
  have "unat (c1 + signed_drop_bit 16 c1) = f + f div 65536"
    using f c1 by (simp add: signed_drop_bit_nonneg unat_word_ariths unat_drop_bit_eq drop_bit_eq_div)
  then have "unat (ucast (c1 + signed_drop_bit 16 c1) :: u16) = (f + f div 65536) mod 65536"
    by (simp add: unsigned_ucast_eq take_bit_eq_mod)
  then show ?thesis
    using ones_comp_fold [OF assms, of f] by (simp add: cksum_fold_def Let_def unat_not16 flip: c1_def f_def)
qed

section \<open>What the checksum computes and detects\<close>

lemma checksum_eq:
  assumes "length msg \<le> 65535"
  shows "unat (generate_checksum msg) = 65535 - ones_comp (word_sum msg)"
proof -
  have b: "word_sum msg < 2 ^ 31" using assms by (rule word_sum_no_overflow)
  then have "unat (cksum_loop 0 msg) = word_sum msg" by (simp add: unat_cksum_loop)
  with b show ?thesis by (simp add: generate_checksum_def unat_cksum_fold)
qed

lemma ones_comp_le: "ones_comp s \<le> 65535"
proof -
  have "(s - 1) mod 65535 < 65535" by simp
  then show ?thesis by (simp only: ones_comp_def Suc_le_eq split: if_splits) simp
qed

lemma ones_comp_eq_iff:
  "ones_comp s = ones_comp t \<longleftrightarrow> (s = 0 \<and> t = 0) \<or> (0 < s \<and> 0 < t \<and> s mod 65535 = t mod 65535)"
proof (cases "s = 0 \<or> t = 0")
  case True
  then show ?thesis by (auto simp: ones_comp_def)
next
  case False
  then obtain a b where "s = Suc a" "t = Suc b" by (meson not0_implies_Suc)
  then show ?thesis by (simp add: ones_comp_def mod_Suc)
qed

lemma word_sum_append: "even (length xs) \<Longrightarrow> word_sum (xs @ ys) = word_sum xs + word_sum ys"
  by (induction xs rule: word_sum.induct) simp_all

lemma checksum_eq_iff:
  assumes "length m \<le> 65535" and "length m' \<le> 65535"
  shows "generate_checksum m = generate_checksum m' \<longleftrightarrow>
    ones_comp (word_sum m) = ones_comp (word_sum m')"
  using checksum_eq [OF assms(1)] checksum_eq [OF assms(2)]
    ones_comp_le [of "word_sum m"] ones_comp_le [of "word_sum m'"]
  by (auto simp: word_unat_eq_iff)

lemma mod_65535_shift:
  assumes "a \<le> 65535" and "b \<le> (65535 :: nat)"
  shows "(s + a) mod 65535 = (s + b) mod 65535 \<longleftrightarrow> a = b \<or> {a, b} = {0, 65535}"
proof -
  have dvd: "x mod 65535 = y mod 65535 \<longleftrightarrow> (65535 :: int) dvd int x - int y" for x y :: nat
  proof -
    have "x mod 65535 = y mod 65535 \<longleftrightarrow> int x mod 65535 = int y mod 65535"
      using of_nat_eq_iff [of "x mod 65535" "y mod 65535", where 'a = int]
      by (simp only: of_nat_mod of_nat_numeral)
    then show ?thesis by (simp only: mod_eq_dvd_iff)
  qed
  have "(s + a) mod 65535 = (s + b) mod 65535 \<longleftrightarrow> a mod 65535 = b mod 65535"
    by (simp add: dvd)
  also have "\<dots> \<longleftrightarrow> a = b \<or> {a, b} = {0, 65535}"
    using assms by (cases "a = 65535"; cases "b = 65535") (auto simp: doubleton_eq_iff)
  finally show ?thesis .
qed

text \<open>
  C27: the checksum of a message that fits the 16-bit length field is the complement of the
  one's-complement sum of its 16-bit words (an odd last byte counts as the low byte of a word):
  the 32-bit accumulator and the two folds lose nothing.
\<close>

theorem generate_checksum_ones_complement:
  assumes "length msg \<le> 65535"
  shows "unat (generate_checksum msg) = 65535 - ones_comp (word_sum msg)
    \<and> sint (cksum_loop 0 msg) = int (word_sum msg)"
proof
  show "unat (generate_checksum msg) = 65535 - ones_comp (word_sum msg)"
    using assms by (rule checksum_eq)
  have b: "word_sum msg < 2 ^ 31" using assms by (rule word_sum_no_overflow)
  then have u: "unat (cksum_loop 0 msg) = word_sum msg" by (simp add: unat_cksum_loop)
  have "sint (cksum_loop 0 msg) = signed_take_bit 31 (int (unat (cksum_loop 0 msg)))"
    by (simp add: sint_uint)
  also have "\<dots> = int (word_sum msg)"
    unfolding u by (rule signed_take_bit_int_eq_self) (use b in simp_all)
  finally show "sint (cksum_loop 0 msg) = int (word_sum msg)" .
qed

theorem generate_checksum_ones_complement_witness:
  "unat (generate_checksum [1, 2, 3]) = 65535 - ones_comp (word_sum [1, 2, 3])
    \<and> sint (cksum_loop 0 [1, 2, 3]) = int (word_sum [1, 2, 3])"
  by (rule generate_checksum_ones_complement) simp

text \<open>
  C28: two messages that differ in one aligned 16-bit word have different checksums, except
  when the word changes between 0x0000 and 0xffff while the rest of the message is not all zero.
\<close>

theorem generate_checksum_detects_word:
  assumes "even (length xs)" and "length xs + 2 + length ys \<le> 65535"
    and "w = (of_le_bytes [a, b] :: u16)" and "w' = (of_le_bytes [a', b'] :: u16)"
  shows "generate_checksum (xs @ [a, b] @ ys) = generate_checksum (xs @ [a', b'] @ ys) \<longleftrightarrow>
    w = w' \<or> ({w, w'} = {0, 0xffff} \<and> word_sum (xs @ ys) \<noteq> 0)"
proof -
  define S where "S = word_sum xs + word_sum ys"
  have sum: "word_sum (xs @ [c, d] @ ys) = S + unat (of_le_bytes [c, d] :: u16)" for c d
    unfolding S_def unat_le_word using assms(1) by (simp add: word_sum_append)
  have S: "word_sum (xs @ ys) = S" using assms(1) by (simp add: S_def word_sum_append)
  have le: "unat (v :: u16) \<le> 65535" for v
  proof -
    have "unat v < 2 ^ LENGTH(16)" by (rule unsigned_less)
    then show ?thesis by simp
  qed
  have set: "{unat w, unat w'} = {0, 65535} \<longleftrightarrow> {w, w'} = {0, 0xffff}"
    by (simp add: doubleton_eq_iff word_unat_eq_iff)
  have "generate_checksum (xs @ [a, b] @ ys) = generate_checksum (xs @ [a', b'] @ ys) \<longleftrightarrow>
      ones_comp (S + unat w) = ones_comp (S + unat w')"
    using assms(2) by (subst checksum_eq_iff) (simp_all only: sum assms(3,4), simp_all)
  also have "\<dots> \<longleftrightarrow> unat w = unat w' \<or> ({unat w, unat w'} = {0, 65535} \<and> S \<noteq> 0)"
    using mod_65535_shift [OF le le, of S w w'] by (auto simp: ones_comp_eq_iff doubleton_eq_iff)
  finally show ?thesis by (simp add: set S word_unat_eq_iff [of w w'])
qed

theorem generate_checksum_detects_word_witness:
  "generate_checksum ([7, 8] @ [1, 2] @ [9]) \<noteq> generate_checksum ([7, 8] @ [1, 3] @ [9])"
  using generate_checksum_detects_word [of "[7, 8]" "[9]" _ 1 2 _ 1 3, OF _ _ refl refl]
  by (simp add: doubleton_eq_iff)

end
