(* ===== verification/Packets.thy ===== *)
theory Packets
  imports Checksum
begin

text \<open>
  Building and checking packets. \<open>seal\<close> is the idiom of every sender in the source (blank the
  checksum field, then store the checksum of the whole structure); \<open>rx_cksum\<close> and
  \<open>clear_cksum\<close> are the receiving side's reads and writes. The locale \<open>packet_layout\<close> states
  what a packed structure promises (header first, then a body that header updates leave alone)
  and proves once that a sealed structure is accepted; it is interpreted on every structure of
  the interface. Then \<^verbatim>\<open>NetSimPacket\<close> of \<^verbatim>\<open>src/src/sim/Simulator.hpp\<close>.
\<close>

section \<open>Sealing and checking\<close>

definition seal :: "('p \<Rightarrow> byte list) \<Rightarrow> ((netsim_pkt_hdr \<Rightarrow> netsim_pkt_hdr) \<Rightarrow> 'p \<Rightarrow> 'p) \<Rightarrow> 'p \<Rightarrow> 'p" where
  "seal mem upd p =
     (let p0 = upd (hdr_cksum_update (\<lambda>_. 0)) p
      in upd (hdr_cksum_update (\<lambda>_. htons (generate_checksum (mem p0)))) p0)"

definition rx_cksum :: "byte list \<Rightarrow> u16" where
  "rx_cksum buf = ntohs (of_le_bytes (get CKSUM_OFF 2 buf))"

definition clear_cksum :: "byte list \<Rightarrow> byte list" where
  "clear_cksum buf = put CKSUM_OFF (le_bytes 2 (0 :: u16)) buf"

text \<open>What a receiver that follows the interface accepts as a message of a type for a node.\<close>

definition valid_frame :: "u64 \<Rightarrow> msg_type \<Rightarrow> byte list \<Rightarrow> bool" where
  "valid_frame nid t m \<longleftrightarrow>
     HDR_SZ \<le> length m \<and> length m \<le> 65535
     \<and> unat (ntohs (hdr_len (hdr_of m))) = length m
     \<and> rx_cksum m = generate_checksum (clear_cksum m)
     \<and> ntohs (hdr_msg_type (hdr_of m)) = msg_type_val t
     \<and> ntohl (hdr_interface_version (hdr_of m)) = NETSIM_INTERFACE_VERSION
     \<and> ntohll (hdr_node_id (hdr_of m)) = nid"

locale packet_layout =
  fixes mem :: "'p \<Rightarrow> byte list"
    and hdr :: "'p \<Rightarrow> netsim_pkt_hdr"
    and upd :: "(netsim_pkt_hdr \<Rightarrow> netsim_pkt_hdr) \<Rightarrow> 'p \<Rightarrow> 'p"
    and body :: "'p \<Rightarrow> byte list"
  assumes mem_eq: "mem p = mem_hdr (hdr p) @ body p"
    and hdr_upd: "hdr (upd f p) = f (hdr p)"
    and body_upd: "body (upd f p) = body p"
begin

lemma mem_seal:
  "mem (seal mem upd p) =
     mem_hdr ((hdr p)\<lparr>hdr_cksum := htons (generate_checksum (mem_hdr ((hdr p)\<lparr>hdr_cksum := 0\<rparr>) @ body p))\<rparr>)
       @ body p"
  by (simp add: seal_def Let_def mem_eq hdr_upd body_upd)

lemma length_mem: "length (mem p) = 18 + length (body p)"
  by (simp add: mem_eq)

lemma hdr_of_mem: "hdr_of (mem p) = hdr p"
  by (simp add: mem_eq hdr_of_mem_hdr)

lemma clear_cksum_mem: "clear_cksum (mem p) = mem_hdr ((hdr p)\<lparr>hdr_cksum := 0\<rparr>) @ body p"
  by (simp add: clear_cksum_def mem_eq size_defs put_cksum_mem_hdr)

lemma rx_cksum_mem: "rx_cksum (mem p) = ntohs (hdr_cksum (hdr p))"
  using hdr_of_mem [of p] by (simp add: rx_cksum_def size_defs hdr_of_def)
    (metis netsim_pkt_hdr.select_convs(5))

lemma hdr_seal:
  "hdr (seal mem upd p) =
    (hdr p)\<lparr>hdr_cksum := htons (generate_checksum (mem_hdr ((hdr p)\<lparr>hdr_cksum := 0\<rparr>) @ body p))\<rparr>"
  by (simp add: seal_def Let_def mem_eq hdr_upd body_upd)

lemma body_seal: "body (seal mem upd p) = body p"
  by (simp add: seal_def Let_def body_upd)

lemma seal_verifies:
  "rx_cksum (mem (seal mem upd p)) = generate_checksum (clear_cksum (mem (seal mem upd p)))"
  by (simp add: rx_cksum_mem clear_cksum_mem hdr_seal body_seal)

lemma seal_valid:
  assumes "18 + length (body p) \<le> 65535"
    and "hdr_len (hdr p) = htons (of_nat (18 + length (body p)))"
    and "hdr_msg_type (hdr p) = htons (msg_type_val t)"
    and "hdr_interface_version (hdr p) = htonl NETSIM_INTERFACE_VERSION"
    and "hdr_node_id (hdr p) = htonll nid"
  shows "valid_frame nid t (mem (seal mem upd p))"
proof -
  have "unat (of_nat (18 + length (body p)) :: u16) = 18 + length (body p)"
    using assms(1) by (simp add: unat_of_nat take_bit_nat_eq_self del: of_nat_add)
  then show ?thesis
    using assms seal_verifies [of p]
    by (simp add: valid_frame_def hdr_of_mem hdr_seal size_defs length_mem body_seal
        del: of_nat_add)
qed

end

interpretation hdr_only: packet_layout mem_hdr id "\<lambda>f. f" "\<lambda>_. []"
  by unfold_locales simp_all

interpretation reg_con: packet_layout mem_registration_con rc_hdr rc_hdr_update
    "\<lambda>p. rc_os p @ rc_os_version p"
  by unfold_locales (simp_all add: mem_registration_con_def)

interpretation cca_con: packet_layout mem_cca_con cc_hdr cc_hdr_update "\<lambda>p. [cc_result p]"
  by unfold_locales (simp_all add: mem_cca_con_def)

interpretation tx_done: packet_layout mem_tx_done_ind td_hdr td_hdr_update "\<lambda>p. [td_result p]"
  by unfold_locales (simp_all add: mem_tx_done_ind_def)

interpretation data_ind: packet_layout mem_data_ind di_hdr di_hdr_update
    "\<lambda>p. le_bytes 8 (di_source_addr p) @ le_bytes 2 (di_psdu_len p) @ le_bytes 2 (di_extra_hdr p)
       @ [di_rep_code p, di_tx_power p, di_cca_mode p, di_rssi p] @ di_pktData p"
  by unfold_locales (simp_all add: mem_data_ind_def)

section \<open>Messages the simulator sends\<close>

text \<open>The header every sender fills in; the checksum field is set by \<open>seal\<close>.\<close>

definition new_hdr :: "nat \<Rightarrow> msg_type \<Rightarrow> u64 \<Rightarrow> netsim_pkt_hdr" where
  "new_hdr sz t socket =
     \<lparr> hdr_len = htons (of_nat sz), hdr_msg_type = htons (msg_type_val t),
       hdr_interface_version = htonl NETSIM_INTERFACE_VERSION, hdr_node_id = htonll socket,
       hdr_cksum = 0 \<rparr>"

definition registration_req_msg :: "u64 \<Rightarrow> byte list" where
  "registration_req_msg socket = mem_hdr (seal mem_hdr (\<lambda>f. f) (new_hdr HDR_SZ MSG_TYPE_REG_REQ socket))"

definition deregistration_con_msg :: "u64 \<Rightarrow> byte list" where
  "deregistration_con_msg socket = mem_hdr (seal mem_hdr (\<lambda>f. f) (new_hdr HDR_SZ MSG_TYPE_DEREG_CON socket))"

definition cca_con_msg :: "u64 \<Rightarrow> bool \<Rightarrow> byte list" where
  "cca_con_msg socket result =
     mem_cca_con (seal mem_cca_con cc_hdr_update
       \<lparr> cc_hdr = new_hdr RESULT_PKT_SZ MSG_TYPE_CCA_CON socket,
         cc_result = (if result then 1 else 0) \<rparr>)"

definition tx_done_ind_msg :: "u64 \<Rightarrow> int \<Rightarrow> byte list" where
  "tx_done_ind_msg socket result =
     mem_tx_done_ind (seal mem_tx_done_ind td_hdr_update
       \<lparr> td_hdr = new_hdr RESULT_PKT_SZ MSG_TYPE_TX_DONE_IND socket,
         td_result = word_of_int result \<rparr>)"

lemma length_msgs [simp]:
  "length (registration_req_msg i) = HDR_SZ" "length (deregistration_con_msg i) = HDR_SZ"
  "length (cca_con_msg i r) = RESULT_PKT_SZ" "length (tx_done_ind_msg i n) = RESULT_PKT_SZ"
  by (simp_all add: registration_req_msg_def deregistration_con_msg_def cca_con_msg_def
      tx_done_ind_msg_def size_defs cca_con.length_mem tx_done.length_mem)

text \<open>
  Every message the simulator sends to a node is one the node can accept: its length field is the number of bytes
  sent, its checksum verifies, and it carries the message type, the interface version and the node id of its
  addressee; the two result bytes carry the answer.
\<close>

lemma sent_msgs_valid:
  "valid_frame i MSG_TYPE_REG_REQ (registration_req_msg i)" "valid_frame i MSG_TYPE_DEREG_CON (deregistration_con_msg i)"
  "valid_frame i MSG_TYPE_CCA_CON (cca_con_msg i r)" "valid_frame i MSG_TYPE_TX_DONE_IND (tx_done_ind_msg i n)"
  unfolding registration_req_msg_def deregistration_con_msg_def cca_con_msg_def tx_done_ind_msg_def
  by (rule hdr_only.seal_valid cca_con.seal_valid tx_done.seal_valid; simp add: new_hdr_def size_defs)+

lemma sent_msgs_result:
  "cca_con_msg i r ! 18 = (if r then 1 else 0)" "tx_done_ind_msg i n ! 18 = word_of_int n"
  "last (cca_con_msg i r) = (if r then 1 else 0)" "last (tx_done_ind_msg i n) = word_of_int n"
  by (simp_all add: cca_con_msg_def tx_done_ind_msg_def cca_con.mem_seal tx_done.mem_seal nth_append)

section \<open>NetSimPacket\<close>

text \<open>Addresses of \<^verbatim>\<open>DeviceNode\<close> objects.\<close>

type_synonym nptr = u64

record NetSimPacket =
  pktBufferLen :: nat
  pktBuffer :: "byte list"
  fromNode :: nptr
  collision :: bool
  txDoneResult :: int

text \<open>
  The constructor copies \<open>ntohs(hdr.len)\<close> bytes from the caller's buffer; copying more than the
  buffer holds is a read out of bounds. \<^verbatim>\<open>txDoneResult = false\<close> stores 0.
\<close>

definition NetSimPacket_new :: "byte list \<Rightarrow> nptr \<Rightarrow> NetSimPacket res" where
  "NetSimPacket_new dataInd from =
     (let n = unat (ntohs (of_le_bytes (get 0 2 dataInd)))
      in if length dataInd < 2 \<or> length dataInd < n then Inl (MemErr ''NetSimPacket: read past dataInd'')
         else Inr \<lparr> pktBufferLen = n, pktBuffer = take n dataInd, fromNode = from,
                    collision = False, txDoneResult = 0 \<rparr>)"

definition pktbufSize :: "NetSimPacket \<Rightarrow> nat res" where
  "pktbufSize pkt =
     (if pktBufferLen pkt < PSDU_LEN_OFF + 2 then Inl (MemErr ''psdu_len: read past pktBuffer'')
      else Inr (unat (ntohs (of_le_bytes (get PSDU_LEN_OFF 2 (pktBuffer pkt))))))"

text \<open>The \<open>pktbufSize\<close> bytes at \<^verbatim>\<open>pktbuf()\<close>, as its readers take them.\<close>

definition pktbuf_bytes :: "NetSimPacket \<Rightarrow> byte list res" where
  "pktbuf_bytes pkt =
     bindE (pktbufSize pkt) (\<lambda>n.
       if PKTDATA_OFF + n \<le> pktBufferLen pkt then Inr (get PKTDATA_OFF n (pktBuffer pkt))
       else Inl (MemErr ''pktbuf: read past pktBuffer''))"

definition getTimeOnWire :: "NetSimPacket \<Rightarrow> int" where
  "getTimeOnWire pkt = 4"

definition isAck :: "NetSimPacket \<Rightarrow> bool res" where
  "isAck pkt =
     (if pktBufferLen pkt = 0 then Inl (MemErr ''isAck: read past pktBuffer'')
      else let frameType = (pktBuffer pkt ! 0) AND 0x07 in Inr (frameType = 0x02))"

definition setCollided :: "bool \<Rightarrow> NetSimPacket \<Rightarrow> NetSimPacket" where
  "setCollided val pkt = pkt\<lparr>collision := val\<rparr>"

definition setTxDoneResult :: "int \<Rightarrow> NetSimPacket \<Rightarrow> NetSimPacket" where
  "setTxDoneResult result pkt = pkt\<lparr>txDoneResult := result\<rparr>"

definition setRSSI :: "byte \<Rightarrow> NetSimPacket \<Rightarrow> NetSimPacket res" where
  "setRSSI rssi pkt =
     (if pktBufferLen pkt < RSSI_OFF + 1 then Inl (MemErr ''setRSSI: write past pktBuffer'')
      else Inr (pkt\<lparr>pktBuffer := put RSSI_OFF [rssi] (pktBuffer pkt)\<rparr>))"

definition generateChecksum :: "NetSimPacket \<Rightarrow> NetSimPacket res" where
  "generateChecksum pkt =
     (let cksum = generate_checksum (pktBuffer pkt)
      in if pktBufferLen pkt < CKSUM_OFF + 2 then Inl (MemErr ''cksum: write past pktBuffer'')
         else Inr (pkt\<lparr>pktBuffer := put CKSUM_OFF (le_bytes 2 (htons cksum)) (pktBuffer pkt)\<rparr>))"

lemmas packet_op_defs = NetSimPacket_new_def pktbufSize_def pktbuf_bytes_def getTimeOnWire_def isAck_def
  setCollided_def setTxDoneResult_def setRSSI_def generateChecksum_def

text \<open>A packet object as the constructor makes it: the buffer has the recorded length.\<close>

definition wf_packet :: "NetSimPacket \<Rightarrow> bool" where
  "wf_packet pkt \<longleftrightarrow> length (pktBuffer pkt) = pktBufferLen pkt \<and> pktBufferLen pkt \<le> 65535"

lemma NetSimPacket_new_wf: "NetSimPacket_new m p = Inr pkt \<Longrightarrow> wf_packet pkt"
proof -
  have "unat (x :: u16) \<le> 65535" for x
  proof -
    have "unat x < 2 ^ LENGTH(16)" by (rule unsigned_less)
    then show ?thesis by simp
  qed
  then show "NetSimPacket_new m p = Inr pkt \<Longrightarrow> wf_packet pkt"
    by (auto simp: NetSimPacket_new_def wf_packet_def Let_def split: if_splits)
qed

lemma len_field_high_byte:
  "unat (ntohs (of_le_bytes [a, b])) = 256 * unat a + unat b"
proof -
  have "le_bytes 2 (of_le_bytes [a, b] :: u16) = [a, b]"
    by (rule le_bytes_of_le_bytes) simp_all
  then have "ntohs (of_le_bytes [a, b]) = (of_le_bytes [b, a] :: u16)"
    by (simp only: htons_def bswap_def rev.simps append.simps)
  then show ?thesis by (simp only: unat_le_word)
qed

text \<open>
  C37: \<^verbatim>\<open>isAck\<close> tests the first byte of the packet buffer, which is the high byte of the length
  field and not the 802.15.4 frame: the packet counts as an acknowledgement exactly when its
  total length is in a block of 256 lengths from 512 (modulo 2048), whatever the frame says. No packet of
  up to \<open>NETSIM_PKT_MAX_SZ\<close> bytes is ever an acknowledgement.
\<close>

theorem isAck_depends_on_length_only:
  assumes "NetSimPacket_new m p = Inr pkt" and "0 < pktBufferLen pkt"
  shows "isAck pkt = Inr ((pktBufferLen pkt div 256) mod 8 = 2)
    \<and> (pktBufferLen pkt \<le> NETSIM_PKT_MAX_SZ \<longrightarrow> isAck pkt = Inr False)"
proof -
  obtain a b rest where m: "m = a # b # rest"
    using assms(1) by (cases m; cases "tl m") (auto simp: NetSimPacket_new_def Let_def split: if_splits)
  have n: "pktBufferLen pkt = 256 * unat a + unat b"
    using assms(1) by (auto simp: NetSimPacket_new_def Let_def m get_def len_field_high_byte
        simp del: of_le_bytes.simps split: if_splits)
  then have hi: "pktBufferLen pkt div 256 = unat a"
    using unat_byte_less [of b] by simp
  have "pktBuffer pkt ! 0 = a"
    using assms by (auto simp: NetSimPacket_new_def Let_def m split: if_splits)
  moreover have "a AND 7 = 2 \<longleftrightarrow> unat a mod 8 = 2"
  proof -
    have "a AND 7 = take_bit 3 a" by (simp add: take_bit_eq_mask mask_eq_exp_minus_1)
    then have "unat (a AND 7) = unat a mod 8"
      by (simp add: unsigned_take_bit_eq) (simp add: take_bit_eq_mod)
    then show ?thesis by (simp add: word_unat_eq_iff)
  qed
  ultimately have "isAck pkt = Inr (unat a mod 8 = 2)"
    using assms(2) by (simp add: isAck_def)
  moreover have "unat a \<le> 1" if "pktBufferLen pkt \<le> NETSIM_PKT_MAX_SZ"
    using that n by (simp add: NETSIM_PKT_MAX_SZ_def)
  ultimately show ?thesis by (auto simp: hi)
qed

theorem isAck_depends_on_length_only_witness:
  "isAck \<lparr>pktBufferLen = 2, pktBuffer = [0, 2], fromNode = 0, collision = False, txDoneResult = 0\<rparr>
     = Inr False"
proof -
  have "NetSimPacket_new [0, 2] 0 =
      Inr \<lparr>pktBufferLen = 2, pktBuffer = [0, 2], fromNode = 0, collision = False, txDoneResult = 0\<rparr>"
    by code_simp
  from isAck_depends_on_length_only [OF this] show ?thesis
    by (simp add: NETSIM_PKT_MAX_SZ_def)
qed

text \<open>The image of a packet that \<^verbatim>\<open>txPacket\<close> multicasts: RSSI set, then the checksum regenerated.\<close>

definition tx_image :: "byte list \<Rightarrow> byte list" where
  "tx_image buf = (let b = put RSSI_OFF [127] buf
     in put CKSUM_OFF (le_bytes 2 (htons (generate_checksum b))) b)"

lemma tx_image_ops:
  assumes "wf_packet pkt" and "RSSI_OFF < pktBufferLen pkt"
  shows "bindE (setRSSI 127 pkt) generateChecksum = Inr (pkt\<lparr>pktBuffer := tx_image (pktBuffer pkt)\<rparr>)"
  using assms by (simp add: setRSSI_def generateChecksum_def wf_packet_def tx_image_def Let_def size_defs)

lemma length_tx_image: "RSSI_OFF < length buf \<Longrightarrow> length (tx_image buf) = length buf"
  by (simp add: tx_image_def Let_def size_defs)

end
