(* ===== verification/Time_Utils.thy ===== *)
theory Time_Utils
  imports X6_Prelude
begin

text \<open>
  \<^verbatim>\<open>src/src/utils/time.cpp\<close>: choice of the clock, and arithmetic on \<^verbatim>\<open>struct timespec\<close>. A
  timespec is ordered as \<^verbatim>\<open>compare_timespecs\<close> orders it, so it is made an instance of
  \<^verbatim>\<open>linorder\<close>. \<^verbatim>\<open>long\<close> and \<^verbatim>\<open>time_t\<close> have 64 bits, \<^verbatim>\<open>int\<close> has 32; where the code converts
  between them the wrap is written out with \<open>s32\<close> and \<open>s64\<close>, and C's division is \<open>sdiv\<close>.
\<close>

definition s32 :: "int \<Rightarrow> int" where "s32 x = signed_take_bit 31 x"
definition s64 :: "int \<Rightarrow> int" where "s64 x = signed_take_bit 63 x"

lemma s32_id: "- (2 ^ 31) \<le> x \<Longrightarrow> x < 2 ^ 31 \<Longrightarrow> s32 x = x"
  unfolding s32_def by (rule signed_take_bit_int_eq_self) simp_all

lemma s64_id: "- (2 ^ 63) \<le> x \<Longrightarrow> x < 2 ^ 63 \<Longrightarrow> s64 x = x"
  unfolding s64_def by (rule signed_take_bit_int_eq_self) simp_all

lemma sdiv_nonneg: "0 \<le> a \<Longrightarrow> 0 < b \<Longrightarrow> a sdiv b = a div (b :: int)"
  by (simp add: signed_divide_int_def sgn_if)

lemma smod_nonneg: "0 \<le> a \<Longrightarrow> 0 < b \<Longrightarrow> a smod b = a mod (b :: int)"
  by (cases "a = 0") (simp_all add: signed_modulo_int_def sgn_if)

section \<open>The code\<close>

datatype timespec = Timespec (tv_sec: int) (tv_nsec: int)

definition CLOCK_REALTIME :: int where "CLOCK_REALTIME = 0"
definition CLOCK_MONOTONIC :: int where "CLOCK_MONOTONIC = 1"
definition CLOCK_PROCESS_CPUTIME_ID :: int where "CLOCK_PROCESS_CPUTIME_ID = 2"

definition resolution :: "timespec \<Rightarrow> int" where
  "resolution res = tv_sec res * 1000000000 + tv_nsec res"

text \<open>\<open>getres\<close> is the outcome of \<^verbatim>\<open>clock_getres\<close> for a clock, \<open>None\<close> when it returns -1.\<close>

definition get_highres_clock :: "(int \<Rightarrow> timespec option) \<Rightarrow> int" where
  "get_highres_clock getres =
     (let one = (\<lambda>c. case getres c of None \<Rightarrow> False | Some res \<Rightarrow> resolution res = 1)
      in if one CLOCK_REALTIME then CLOCK_REALTIME
         else if one CLOCK_MONOTONIC then CLOCK_MONOTONIC
         else if one CLOCK_PROCESS_CPUTIME_ID then CLOCK_PROCESS_CPUTIME_ID
         else - 1)"

definition compare_timespecs :: "timespec \<Rightarrow> timespec \<Rightarrow> int" where
  "compare_timespecs t1 t2 =
     (if tv_sec t1 < tv_sec t2 then - 1
      else if tv_sec t1 = tv_sec t2 then
        (if tv_nsec t1 < tv_nsec t2 then - 1 else if tv_nsec t1 = tv_nsec t2 then 0 else 1)
      else 1)"

text \<open>Returns the result of the call, \<^verbatim>\<open>*result\<close> and the updated \<^verbatim>\<open>*y\<close>.\<close>

definition timespec_subtract :: "timespec \<Rightarrow> timespec \<Rightarrow> int \<times> timespec \<times> timespec" where
  "timespec_subtract x y =
     (let y1 = (if tv_nsec x < tv_nsec y
                then let nsec = s32 ((tv_nsec y - tv_nsec x) sdiv 1000000000 + 1)
                     in Timespec (tv_sec y + nsec) (tv_nsec y - s32 (1000000000 * nsec))
                else y);
          y2 = (if tv_nsec x - tv_nsec y1 > 1000000000
                then let nsec = s32 ((tv_nsec x - tv_nsec y1) sdiv 1000000000)
                     in Timespec (tv_sec y1 - nsec) (tv_nsec y1 + s32 (1000000000 * nsec))
                else y1)
      in (if tv_sec x < tv_sec y2 then 1 else 0,
          Timespec (tv_sec x - tv_sec y2) (tv_nsec x - tv_nsec y2), y2))"

text \<open>\<open>ms\<close> is the \<^verbatim>\<open>unsigned long\<close> argument; the sum is formed modulo \<open>2 ^ 64\<close> and stored in a \<^verbatim>\<open>long\<close>.\<close>

definition timespec_add_ms :: "timespec \<Rightarrow> int \<Rightarrow> timespec" where
  "timespec_add_ms x ms =
     (let nsec = s64 ((tv_nsec x + (ms * 1000000) mod 2 ^ 64) mod 2 ^ 64)
      in if nsec \<ge> 1000000000
         then Timespec (tv_sec x + nsec sdiv 1000000000) (nsec smod 1000000000)
         else Timespec (tv_sec x) nsec)"

section \<open>Reference: nanoseconds and the order of timespecs\<close>

definition to_ns :: "timespec \<Rightarrow> int" where
  "to_ns t = tv_sec t * 1000000000 + tv_nsec t"

definition normalised :: "timespec \<Rightarrow> bool" where
  "normalised t \<longleftrightarrow> 0 \<le> tv_nsec t \<and> tv_nsec t < 1000000000"

instantiation timespec :: linorder
begin

definition less_eq_timespec :: "timespec \<Rightarrow> timespec \<Rightarrow> bool" where
  "s \<le> t \<longleftrightarrow> tv_sec s < tv_sec t \<or> (tv_sec s = tv_sec t \<and> tv_nsec s \<le> tv_nsec t)"

definition less_timespec :: "timespec \<Rightarrow> timespec \<Rightarrow> bool" where
  "s < t \<longleftrightarrow> tv_sec s < tv_sec t \<or> (tv_sec s = tv_sec t \<and> tv_nsec s < tv_nsec t)"

instance
  by standard (auto simp: less_eq_timespec_def less_timespec_def timespec.expand)

end

lemma to_ns_less: "normalised s \<Longrightarrow> normalised t \<Longrightarrow> to_ns s < to_ns t \<longleftrightarrow> s < t"
  by (auto simp: to_ns_def normalised_def less_timespec_def)

lemma to_ns_eq: "normalised s \<Longrightarrow> normalised t \<Longrightarrow> to_ns s = to_ns t \<longleftrightarrow> s = t"
  using to_ns_less [of s t] to_ns_less [of t s] by (metis less_irrefl neqE)

text \<open>
  \<^verbatim>\<open>compare_timespecs\<close> is the three-way comparison of the linear order of timespecs, and on
  normalised timespecs it is the sign of the difference in nanoseconds.
\<close>

theorem compare_timespecs_order:
  "compare_timespecs s t = (if s < t then - 1 else if s = t then 0 else 1)
   \<and> (normalised s \<and> normalised t \<longrightarrow> compare_timespecs s t = sgn (to_ns s - to_ns t))"
proof
  show c: "compare_timespecs s t = (if s < t then - 1 else if s = t then 0 else 1)"
    by (auto simp: compare_timespecs_def less_timespec_def timespec.expand)
  show "normalised s \<and> normalised t \<longrightarrow> compare_timespecs s t = sgn (to_ns s - to_ns t)"
  proof
    assume n: "normalised s \<and> normalised t"
    then have "to_ns s < to_ns t \<longleftrightarrow> s < t" "to_ns s = to_ns t \<longleftrightarrow> s = t"
      using to_ns_less to_ns_eq by blast+
    then show "compare_timespecs s t = sgn (to_ns s - to_ns t)"
      by (auto simp: c sgn_if)
  qed
qed

theorem compare_timespecs_order_witness:
  "compare_timespecs (Timespec 1 5) (Timespec 1 7) = sgn (to_ns (Timespec 1 5) - to_ns (Timespec 1 7))"
  using compare_timespecs_order [of "Timespec 1 5" "Timespec 1 7"] by (simp add: normalised_def)

text \<open>
  On normalised timespecs \<^verbatim>\<open>timespec_subtract\<close> stores the normalised difference, returns 1
  exactly when the difference is negative, and only re-expresses \<^verbatim>\<open>*y\<close> (same instant).
\<close>

theorem timespec_subtract_correct:
  assumes "normalised x" and "normalised y"
    and "timespec_subtract x y = (neg, result, y')"
  shows "to_ns result = to_ns x - to_ns y \<and> normalised result
    \<and> (neg = 1 \<longleftrightarrow> to_ns x < to_ns y) \<and> (neg = 0 \<or> neg = 1) \<and> to_ns y' = to_ns y"
proof (cases "tv_nsec x < tv_nsec y")
  case True
  then have q: "s32 ((tv_nsec y - tv_nsec x) sdiv 1000000000 + 1) = 1"
    using assms(1,2) by (simp add: sdiv_nonneg normalised_def s32_id)
  have b: "\<not> tv_nsec x - (tv_nsec y - 1000000000) > 1000000000" using True by simp
  show ?thesis
    using assms True b
    by (auto simp: timespec_subtract_def Let_def q s32_id to_ns_def normalised_def split: if_splits)
next
  case False
  then have b: "\<not> tv_nsec x - tv_nsec y > 1000000000"
    using assms(1,2) by (simp add: normalised_def)
  show ?thesis
    using assms False b
    by (auto simp: timespec_subtract_def Let_def to_ns_def normalised_def split: if_splits)
qed

theorem timespec_subtract_correct_witness:
  "timespec_subtract (Timespec 3 5) (Timespec 1 7) = (0, Timespec 1 999999998, Timespec 2 (- 999999993))
   \<and> to_ns (Timespec 1 999999998) = to_ns (Timespec 3 5) - to_ns (Timespec 1 7)"
proof -
  have e: "timespec_subtract (Timespec 3 5) (Timespec 1 7) = (0, Timespec 1 999999998, Timespec 2 (- 999999993))"
    by (simp add: timespec_subtract_def Let_def sdiv_nonneg s32_id)
  show ?thesis
    using e timespec_subtract_correct [OF _ _ e] by (simp add: normalised_def)
qed

text \<open>
  C40: adding milliseconds to a normalised timespec moves it by exactly that many milliseconds
  and keeps it normalised, as long as the nanosecond sum fits a \<^verbatim>\<open>long\<close>.
\<close>

theorem timespec_add_ms_correct:
  assumes "normalised x" and "0 \<le> ms" and "tv_nsec x + ms * 1000000 < 2 ^ 63"
  shows "to_ns (timespec_add_ms x ms) = to_ns x + ms * 1000000 \<and> normalised (timespec_add_ms x ms)"
proof -
  define n where "n = tv_nsec x + ms * 1000000"
  have n: "0 \<le> n" "n < 2 ^ 63" using assms by (auto simp: n_def normalised_def)
  then have "(tv_nsec x + (ms * 1000000) mod 2 ^ 64) mod 2 ^ 64 = n"
    by (simp add: n_def mod_add_right_eq)
  then have "s64 ((tv_nsec x + (ms * 1000000) mod 2 ^ 64) mod 2 ^ 64) = n"
    using n by (simp add: s64_id)
  then have r: "timespec_add_ms x ms =
      (if n \<ge> 1000000000 then Timespec (tv_sec x + n div 1000000000) (n mod 1000000000)
       else Timespec (tv_sec x) n)"
    using n by (simp add: timespec_add_ms_def sdiv_nonneg smod_nonneg)
  show ?thesis
    using n by (auto simp: r to_ns_def normalised_def n_def algebra_simps)
qed

theorem timespec_add_ms_correct_witness:
  "timespec_add_ms (Timespec 7 999000000) 1000 = Timespec 8 999000000
   \<and> to_ns (Timespec 8 999000000) = to_ns (Timespec 7 999000000) + 1000 * 1000000"
proof -
  have e: "timespec_add_ms (Timespec 7 999000000) 1000 = Timespec 8 999000000"
    by (simp add: timespec_add_ms_def Let_def s64_id sdiv_nonneg smod_nonneg)
  show ?thesis
    using e timespec_add_ms_correct [of "Timespec 7 999000000" 1000]
    by (simp add: normalised_def)
qed

text \<open>
  The clock chosen for the simulator is the first of realtime, monotonic and process time
  that reports a resolution of one nanosecond, and -1 exactly when none of the three does.
\<close>

theorem get_highres_clock_first:
  "(get_highres_clock getres = - 1 \<longleftrightarrow>
      (\<forall>c \<in> {0, 1, 2}. \<forall>res. getres c = Some res \<longrightarrow> to_ns res \<noteq> 1))
   \<and> (get_highres_clock getres \<noteq> - 1 \<longrightarrow>
        (\<exists>res. getres (get_highres_clock getres) = Some res \<and> to_ns res = 1)
        \<and> (\<forall>c. 0 \<le> c \<and> c < get_highres_clock getres \<longrightarrow>
              (\<forall>res. getres c = Some res \<longrightarrow> to_ns res \<noteq> 1)))"
proof -
  have small: "0 \<le> c \<and> c < (1 :: int) \<longleftrightarrow> c = 0" "0 \<le> c \<and> c < (2 :: int) \<longleftrightarrow> c = 0 \<or> c = 1" for c
    by auto
  show ?thesis
    by (simp add: get_highres_clock_def Let_def resolution_def to_ns_def small
        CLOCK_REALTIME_def CLOCK_MONOTONIC_def CLOCK_PROCESS_CPUTIME_ID_def split: option.splits)
      auto
qed

theorem get_highres_clock_first_witness:
  "get_highres_clock (\<lambda>c. if c = 0 then Some (Timespec 0 4000000) else Some (Timespec 0 1)) = 1"
proof -
  let ?g = "\<lambda>c :: int. if c = 0 then Some (Timespec 0 4000000) else Some (Timespec 0 1)"
  have "get_highres_clock ?g = 1"
    by (simp add: get_highres_clock_def resolution_def CLOCK_REALTIME_def CLOCK_MONOTONIC_def)
  then show ?thesis using get_highres_clock_first [of ?g] by simp
qed

end
