(* ===== verification/Kernel.thy ===== *)
theory Kernel
  imports Packets Time_Utils
begin

text \<open>
  The operating system, pcap and the allocator are not part of the repository: they enter the
  model as a parameter, the record \<open>kernel\<close>, whose fields give the outcome of each kind of
  call. The first argument of every field is the number of calls made so far, kept in the
  \<open>io\<close> state, so that no two calls are forced to have the same outcome. \<open>io_out\<close> is the log of
  what the program did to the outside world, in order.
\<close>

datatype fcntl_cmd = F_GETFL | F_SETFL int | F_GETFD | F_SETFD int

datatype recv_res = RecvErr int | RecvData "byte list"

datatype select_res = SelErr int | SelReady int "int list"

text \<open>The pointer \<^verbatim>\<open>epoll_event.data.ptr\<close> is the unblocker, a node or NULL.\<close>

datatype ep_target = EpUnblocker | EpNode nptr | EpNull

record epoll_event =
  ev_rdhup :: bool
  ev_in :: bool
  ev_ptr :: ep_target

datatype epoll_res = EpollErr int | EpollEvents "epoll_event list"

datatype io_event =
    SockData int "byte list" | CloseFd int | FcntlSet int fcntl_cmd | PipeWrite int "byte list"
  | McastTx "byte list" | PcapDump "byte list"

record io =
  io_tick :: nat
  io_out :: "io_event list"

record kernel =
  k_send :: "nat \<Rightarrow> int \<Rightarrow> byte list \<Rightarrow> int"
  k_recv :: "nat \<Rightarrow> int \<Rightarrow> int \<Rightarrow> recv_res"
  k_malloc :: "nat \<Rightarrow> nat \<Rightarrow> byte list"
  k_fcntl :: "nat \<Rightarrow> int \<Rightarrow> fcntl_cmd \<Rightarrow> int"
  k_pipe :: "nat \<Rightarrow> (int \<times> int) option"
  k_write :: "nat \<Rightarrow> int \<Rightarrow> int"
  k_read :: "nat \<Rightarrow> int \<Rightarrow> int"
  k_close :: "nat \<Rightarrow> int \<Rightarrow> int"
  k_socket :: "nat \<Rightarrow> int"
  k_setsockopt :: "nat \<Rightarrow> int \<Rightarrow> int \<Rightarrow> int"
  k_bind :: "nat \<Rightarrow> int \<Rightarrow> u16 \<Rightarrow> int"
  k_listen :: "nat \<Rightarrow> int \<Rightarrow> int \<Rightarrow> int"
  k_accept :: "nat \<Rightarrow> int \<Rightarrow> int"
  k_select :: "nat \<Rightarrow> int list \<Rightarrow> (int \<times> int) option \<Rightarrow> select_res"
  k_timer_create :: "nat \<Rightarrow> int"
  k_timer_settime :: "nat \<Rightarrow> timespec \<Rightarrow> int"
  k_timer_gettime :: "nat \<Rightarrow> timespec option"
  k_epoll_create :: "nat \<Rightarrow> int"
  k_epoll_ctl :: "nat \<Rightarrow> int \<Rightarrow> int"
  k_epoll_wait :: "nat \<Rightarrow> epoll_res"
  k_clock_gettime :: "nat \<Rightarrow> timespec option"
  k_pthread_create :: "nat \<Rightarrow> int"
  k_pcap_open :: "nat \<Rightarrow> bool"
  k_new :: "nat \<Rightarrow> u64"

definition tick :: "io \<Rightarrow> io" where
  "tick w = w\<lparr>io_tick := Suc (io_tick w)\<rparr>"

definition emit :: "io_event \<Rightarrow> io \<Rightarrow> io" where
  "emit e w = w\<lparr>io_out := io_out w @ [e]\<rparr>"

lemma io_step_simps [simp]:
  "io_out (tick w) = io_out w" "io_tick (tick w) = Suc (io_tick w)"
  "io_out (emit e w) = io_out w @ [e]" "io_tick (emit e w) = io_tick w"
  by (simp_all add: tick_def emit_def)

definition EINTR :: int where "EINTR = 4"
definition EAGAIN :: int where "EAGAIN = 11"
definition EEXIST :: int where "EEXIST = 17"

text \<open>
  Documented behaviour of the calls, as named hypotheses. \<open>send_spec\<close>: \<^verbatim>\<open>send\<close> never reports more
  bytes than it was given and a blocking \<^verbatim>\<open>send\<close> of a non-empty buffer does not return 0.
  \<open>recv_spec\<close>: \<^verbatim>\<open>recv\<close> delivers at most the number of bytes asked for. \<open>malloc_spec\<close>: a block has
  the size asked for.
\<close>

definition send_spec :: "kernel \<Rightarrow> bool" where
  "send_spec k \<longleftrightarrow> (\<forall>t fd m. k_send k t fd m \<le> int (length m) \<and> (m \<noteq> [] \<longrightarrow> k_send k t fd m \<noteq> 0))"

definition recv_spec :: "kernel \<Rightarrow> bool" where
  "recv_spec k \<longleftrightarrow> (\<forall>t fd n bs. k_recv k t fd n = RecvData bs \<longrightarrow> int (length bs) \<le> n)"

definition malloc_spec :: "kernel \<Rightarrow> bool" where
  "malloc_spec k \<longleftrightarrow> (\<forall>t n. length (k_malloc k t n) = n)"

text \<open>A kernel on which every call succeeds at once; the examples vary it.\<close>

definition ok_kernel :: kernel where
  "ok_kernel = \<lparr> k_send = (\<lambda>t fd m. int (length m)), k_recv = (\<lambda>t fd n. RecvData []),
     k_malloc = (\<lambda>t n. replicate n 0), k_fcntl = (\<lambda>t fd c. 0), k_pipe = (\<lambda>t. Some (3, 4)),
     k_write = (\<lambda>t fd. 1), k_read = (\<lambda>t fd. 1), k_close = (\<lambda>t fd. 0), k_socket = (\<lambda>t. 5),
     k_setsockopt = (\<lambda>t fd v. 0), k_bind = (\<lambda>t fd p. 0), k_listen = (\<lambda>t fd b. 0),
     k_accept = (\<lambda>t fd. 6), k_select = (\<lambda>t fds tmo. SelReady 0 []),
     k_timer_create = (\<lambda>t. 0), k_timer_settime = (\<lambda>t v. 0),
     k_timer_gettime = (\<lambda>t. Some (Timespec 0 0)), k_epoll_create = (\<lambda>t. 8),
     k_epoll_ctl = (\<lambda>t fd. 0), k_epoll_wait = (\<lambda>t. EpollEvents []),
     k_clock_gettime = (\<lambda>t. Some (Timespec 0 0)), k_pthread_create = (\<lambda>t. 0),
     k_pcap_open = (\<lambda>t. True), k_new = (\<lambda>t. 0x10000 + 16 * of_nat t) \<rparr>"

lemma ok_kernel_specs: "send_spec ok_kernel" "malloc_spec ok_kernel"
  by (simp_all add: send_spec_def malloc_spec_def ok_kernel_def)

end
