(* ===== verification/Sockets.thy ===== *)
theory Sockets
  imports Kernel
begin

text \<open>
  \<^verbatim>\<open>src/src/socket/Socket.cpp\<close>: the unblocking pipe, sending with partial writes, waiting for a
  reply with \<^verbatim>\<open>select\<close>, socket options, and server sockets. Each operation takes the kernel and
  the \<open>io\<close> state and returns its result with the new \<open>io\<close> state; logging has no effect on it.
\<close>

section \<open>SocketUnblocker\<close>

record SocketUnblocker =
  ubp_read :: int
  ubp_write :: int

definition SocketUnblocker_impl :: SocketUnblocker where
  "SocketUnblocker_impl = \<lparr> ubp_read = - 1, ubp_write = - 1 \<rparr>"

definition O_NONBLOCK :: int where "O_NONBLOCK = 2048"
definition FD_CLOEXEC :: int where "FD_CLOEXEC = 1"

text \<open>One get/or/set block of \<^verbatim>\<open>openPipes\<close>: both calls throw on failure.\<close>

definition pipe_flag :: "kernel \<Rightarrow> int \<Rightarrow> fcntl_cmd \<Rightarrow> (int \<Rightarrow> fcntl_cmd) \<Rightarrow> int \<Rightarrow> io \<Rightarrow> io res" where
  "pipe_flag k fd getc setc flag w =
     (let flags = k_fcntl k (io_tick w) fd getc; w1 = tick w
      in if flags = - 1 then Inl (Throw ''ERROR: SocketUnblocker'')
         else let c = setc (flags OR flag); ret = k_fcntl k (io_tick w1) fd c; w2 = tick w1
              in if ret = - 1 then Inl (Throw ''ERROR: SocketUnblocker'')
                 else Inr (emit (FcntlSet fd c) w2))"

definition openPipes :: "kernel \<Rightarrow> SocketUnblocker \<Rightarrow> io \<Rightarrow> (SocketUnblocker \<times> io) res" where
  "openPipes k u w =
     (case k_pipe k (io_tick w) of
        None \<Rightarrow> Inl (Throw ''ERROR: SocketUnblocker'')
      | Some (r, wr) \<Rightarrow>
          bindE (pipe_flag k wr F_GETFL F_SETFL O_NONBLOCK (tick w)) (\<lambda>w1.
          bindE (pipe_flag k wr F_GETFD F_SETFD FD_CLOEXEC w1) (\<lambda>w2.
          bindE (pipe_flag k r F_GETFL F_SETFL O_NONBLOCK w2) (\<lambda>w3.
          bindE (pipe_flag k r F_GETFD F_SETFD FD_CLOEXEC w3) (\<lambda>w4.
          Inr (\<lparr> ubp_read = r, ubp_write = wr \<rparr>, w4))))))"

definition SocketUnblocker_new :: "kernel \<Rightarrow> io \<Rightarrow> (SocketUnblocker \<times> io) res" where
  "SocketUnblocker_new k w = openPipes k SocketUnblocker_impl w"

definition unblock :: "kernel \<Rightarrow> SocketUnblocker \<Rightarrow> io \<Rightarrow> io" where
  "unblock k u w =
     (if ubp_write u \<ge> 0
      then let written = k_write k (io_tick w) (ubp_write u); w1 = tick w
           in if written = 1 then emit (PipeWrite (ubp_write u) [49]) w1 else w1
      else w)"

definition closePipes :: "kernel \<Rightarrow> SocketUnblocker \<Rightarrow> io \<Rightarrow> SocketUnblocker \<times> io" where
  "closePipes k u w =
     (let w1 = emit (CloseFd (ubp_read u)) (tick w);
          u1 = u\<lparr>ubp_read := - 1\<rparr>;
          w2 = emit (CloseFd (ubp_write u1)) (tick w1)
      in (u1\<lparr>ubp_write := - 1\<rparr>, w2))"

definition getReadPipe :: "SocketUnblocker \<Rightarrow> int" where
  "getReadPipe u = ubp_read u"

section \<open>Socket\<close>

record Socket =
  sock_fd :: int
  readFdSet :: "int list"

definition Socket_pimpl :: Socket where
  "Socket_pimpl = \<lparr> sock_fd = - 1, readFdSet = [] \<rparr>"

definition setSockFd :: "int \<Rightarrow> Socket \<Rightarrow> Socket" where
  "setSockFd fd s = s\<lparr>sock_fd := fd\<rparr>"

definition Socket_new :: "int \<Rightarrow> Socket" where
  "Socket_new fd = setSockFd fd Socket_pimpl"

definition Socket_delete :: "'a Socket_scheme \<Rightarrow> io \<Rightarrow> io" where
  "Socket_delete s w = (if sock_fd s \<noteq> - 1 then emit (CloseFd (sock_fd s)) (tick w) else w)"

text \<open>
  The loop of \<^verbatim>\<open>sendMsg\<close>: \<open>m\<close> holds the bytes not sent yet, so \<open>left\<close> is its length. A \<^verbatim>\<open>send\<close> that
  keeps returning 0 makes the loop run forever.
\<close>

partial_function (option) sendMsg_loop :: "kernel \<Rightarrow> int \<Rightarrow> byte list \<Rightarrow> int \<Rightarrow> io \<Rightarrow> (int \<times> io) option" where
  "sendMsg_loop k fd m bytes_sent w =
     (let n = k_send k (io_tick w) fd m; w1 = tick w
      in if n < 0 then Some (n, w1)
         else let w2 = emit (SockData fd (take (nat n) m)) w1
              in if int (length m) - n > 0 then sendMsg_loop k fd (drop (nat n) m) (bytes_sent + n) w2
                 else Some (bytes_sent + n, w2))"

declare sendMsg_loop.simps [code]

definition sendMsg :: "kernel \<Rightarrow> Socket \<Rightarrow> byte list \<Rightarrow> io \<Rightarrow> (int \<times> io) res" where
  "sendMsg k s msg w =
     (case sendMsg_loop k (sock_fd s) msg 0 w of None \<Rightarrow> Inl Diverge | Some r \<Rightarrow> Inr r)"

text \<open>\<^verbatim>\<open>FD_SET\<close> on a descriptor of 1024 or more writes outside the \<^verbatim>\<open>fd_set\<close>.\<close>

definition FD_SET :: "int \<Rightarrow> int list \<Rightarrow> int list res" where
  "FD_SET fd fds = (if fd < 1024 then Inr (fds @ [fd]) else Inl (MemErr ''FD_SET''))"

definition setupReadFdSet :: "Socket \<Rightarrow> SocketUnblocker option \<Rightarrow> (int \<times> Socket) res" where
  "setupReadFdSet s unblocker =
     (let fd = sock_fd s
      in if fd < 0 then Inl (Throw ''Invalid Socket'')
         else bindE (FD_SET fd []) (\<lambda>fds.
           case unblocker of
             None \<Rightarrow> Inr (fd, s\<lparr>readFdSet := fds\<rparr>)
           | Some u \<Rightarrow>
               let ufd = getReadPipe u
               in if ufd < 0 then Inl (Throw ''Invalid Unblocker'')
                  else bindE (FD_SET ufd fds) (\<lambda>fds'.
                    Inr (if ufd > fd then ufd else fd, s\<lparr>readFdSet := fds'\<rparr>))))"

datatype SocketReadStatus = SOCK_READ_CONN_CLOSED | SOCK_READ_UNBLOCKED | SOCK_READ_OK
  | SOCK_READ_TIMEOUT | SOCK_READ_ERROR

text \<open>
  \<^verbatim>\<open>recvReply\<close>; \<open>bytesReadOut = None\<close> is a NULL pointer. The result holds the status, the value
  behind \<^verbatim>\<open>bytesReadOut\<close>, the bytes received, the socket and the \<open>io\<close> state. The \<^verbatim>\<open>continue\<close> after
  EINTR leaves the \<^verbatim>\<open>do ... while(0)\<close>, with the status still \<open>SOCK_READ_OK\<close>.
\<close>

definition select_timeout :: "int \<Rightarrow> (int \<times> int) option" where
  "select_timeout msTimeout =
     (if msTimeout = 0 then None
      else Some (msTimeout sdiv 1000, s32 (msTimeout * 1000) smod 1000000))"

definition recvReply_data ::
  "kernel \<Rightarrow> int \<Rightarrow> int \<Rightarrow> io \<Rightarrow> (SocketReadStatus \<times> int \<times> byte list \<times> io) res" where
  "recvReply_data k fd replyMsgLen w =
     (case k_recv k (io_tick w) fd replyMsgLen of
        RecvErr e \<Rightarrow> bindE (assertE ''*bytesReadOut < replyMsgLen'' (- 1 < replyMsgLen)) (\<lambda>_.
          Inr (SOCK_READ_ERROR, - 1, [], tick w))
      | RecvData bs \<Rightarrow>
          bindE (assertE ''*bytesReadOut < replyMsgLen'' (int (length bs) < replyMsgLen)) (\<lambda>_.
          Inr (if bs = [] then SOCK_READ_CONN_CLOSED else SOCK_READ_OK, int (length bs), bs, tick w)))"

definition recvReply_ready ::
  "kernel \<Rightarrow> Socket \<Rightarrow> int \<Rightarrow> int \<Rightarrow> SocketUnblocker option \<Rightarrow> int \<Rightarrow> int list \<Rightarrow> io
     \<Rightarrow> (SocketReadStatus \<times> int \<times> byte list \<times> io) res" where
  "recvReply_ready k s replyMsgLen out0 unblocker count ready w =
     bindE (if sock_fd s \<in> set ready
            then bindE (recvReply_data k (sock_fd s) replyMsgLen w) (\<lambda>(rv, n, bs, w1).
                   Inr (rv, n, bs, count - 1, w1))
            else Inr (SOCK_READ_OK, out0, [], count, w)) (\<lambda>(rv, n, bs, count1, w1).
       let (rv2, count2, w2) =
             (case unblocker of
                None \<Rightarrow> (rv, count1, w1)
              | Some u \<Rightarrow> if getReadPipe u \<in> set ready then (SOCK_READ_UNBLOCKED, count1 - 1, tick w1)
                          else (rv, count1, w1))
       in Inr (if count2 \<noteq> 0 \<and> rv2 = SOCK_READ_OK then SOCK_READ_ERROR else rv2, n, bs, w2))"

definition recvReply ::
  "kernel \<Rightarrow> Socket \<Rightarrow> int \<Rightarrow> int \<Rightarrow> int option \<Rightarrow> SocketUnblocker option \<Rightarrow> io
     \<Rightarrow> (SocketReadStatus \<times> int \<times> byte list \<times> Socket \<times> io) res" where
  "recvReply k s replyMsgLen msTimeout bytesReadOut unblocker w =
     (case bytesReadOut of
        None \<Rightarrow> Inl (Throw ''recvReply given NULL bytesReadOut'')
      | Some out0 \<Rightarrow>
          bindE (setupReadFdSet s unblocker) (\<lambda>(fdmax, s1).
            if fdmax > 0 then
              (case k_select k (io_tick w) (readFdSet s1) (select_timeout msTimeout) of
                 SelErr errno \<Rightarrow>
                   if errno = EINTR then Inr (SOCK_READ_OK, out0, [], s1, tick w)
                   else Inr (SOCK_READ_ERROR, out0, [], s1, tick w)
               | SelReady count ready \<Rightarrow>
                   if count = 0 then Inr (SOCK_READ_TIMEOUT, out0, [], s1, tick w)
                   else bindE (recvReply_ready k s1 replyMsgLen out0 unblocker count ready (tick w))
                          (\<lambda>(rv, n, bs, w1). Inr (rv, n, bs, s1, w1)))
            else Inr (SOCK_READ_ERROR, out0, [], s1, w)))"

definition setBlocking :: "kernel \<Rightarrow> 'a Socket_scheme \<Rightarrow> bool \<Rightarrow> io \<Rightarrow> int \<times> io" where
  "setBlocking k s blocking w =
     (if sock_fd s < 0 then (- 1, w)
      else let flags = k_fcntl k (io_tick w) (sock_fd s) F_GETFL; w1 = tick w
           in if flags = - 1 then (- 1, w1)
              else let c = F_SETFL (if blocking then flags AND NOT O_NONBLOCK else flags OR O_NONBLOCK);
                       rv = k_fcntl k (io_tick w1) (sock_fd s) c;
                       w2 = tick w1
                   in if rv = - 1 then (- 1, w2) else (0, emit (FcntlSet (sock_fd s) c) w2))"

definition setCloseOnExec :: "kernel \<Rightarrow> 'a Socket_scheme \<Rightarrow> bool \<Rightarrow> io \<Rightarrow> int \<times> io" where
  "setCloseOnExec k s closeOnExec w =
     (if sock_fd s < 0 then (- 1, w)
      else let flags = k_fcntl k (io_tick w) (sock_fd s) F_GETFD; w1 = tick w
           in if flags = - 1 then (- 1, w1)
              else let c = F_SETFD (if closeOnExec then flags OR FD_CLOEXEC else flags AND NOT FD_CLOEXEC);
                       rv = k_fcntl k (io_tick w1) (sock_fd s) c;
                       w2 = tick w1
                   in if rv = - 1 then (- 1, w2) else (0, emit (FcntlSet (sock_fd s) c) w2))"

definition setReuseAddress :: "kernel \<Rightarrow> 'a Socket_scheme \<Rightarrow> bool \<Rightarrow> io \<Rightarrow> (int \<times> io) res" where
  "setReuseAddress k s reuse w =
     (if sock_fd s < 0 then Inl (Throw ''setReuseAddress: Invalid socket fd'')
      else let tr = (if reuse then 1 else 0)
           in Inr (k_setsockopt k (io_tick w) (sock_fd s) tr, tick w))"

section \<open>ServerSocket\<close>

record ServerSocket = Socket +
  srv_port :: int

definition ServerSocket_new :: "kernel \<Rightarrow> int \<Rightarrow> io \<Rightarrow> (ServerSocket \<times> io) res" where
  "ServerSocket_new k port w =
     (let fd = k_socket k (io_tick w)
      in if fd = - 1 then Inl (Throw ''ERROR opening socket'')
         else Inr (\<lparr> sock_fd = fd, readFdSet = [], srv_port = port \<rparr>, tick w))"

definition bindAnyAddress :: "kernel \<Rightarrow> ServerSocket \<Rightarrow> io \<Rightarrow> io res" where
  "bindAnyAddress k s w =
     (let rc = k_bind k (io_tick w) (sock_fd s) (htons (word_of_int (srv_port s)))
      in if rc < 0 then Inl (Throw ''ERROR on binding'') else Inr (tick w))"

definition setPassive :: "kernel \<Rightarrow> ServerSocket \<Rightarrow> int \<Rightarrow> io \<Rightarrow> io res" where
  "setPassive k s backlog w =
     (if k_listen k (io_tick w) (sock_fd s) backlog \<noteq> 0 then Inl (Throw ''ERROR on listen'')
      else Inr (tick w))"

section \<open>Sending\<close>

text \<open>The data a sequence of sends put on a descriptor.\<close>

definition sent_chunks :: "io \<Rightarrow> io \<Rightarrow> int \<Rightarrow> byte list list \<Rightarrow> bool" where
  "sent_chunks w w' fd ps \<longleftrightarrow> io_out w' = io_out w @ map (SockData fd) ps"

lemma sendMsg_loop_unfold:
  assumes "n = k_send k (io_tick w) fd m" and "w2 = emit (SockData fd (take (nat n) m)) (tick w)"
  shows "sendMsg_loop k fd m b w =
    (if n < 0 then Some (n, tick w)
     else if int (length m) - n > 0 then sendMsg_loop k fd (drop (nat n) m) (b + n) w2
     else Some (b + n, w2))"
  unfolding assms by (subst sendMsg_loop.simps) (simp add: Let_def)

lemma sendMsg_loop_returns:
  assumes "send_spec k"
  shows "\<exists>r w' ps rest. sendMsg_loop k fd m b w = Some (r, w') \<and> sent_chunks w w' fd ps
    \<and> m = concat ps @ rest \<and> (r < 0 \<or> (r = b + int (length m) \<and> rest = []))"
proof (induction "length m" arbitrary: m b w rule: less_induct)
  case less
  define n where "n = k_send k (io_tick w) fd m"
  define w2 where "w2 = emit (SockData fd (take (nat n) m)) (tick w)"
  have n: "n \<le> int (length m)" "m \<noteq> [] \<Longrightarrow> n \<noteq> 0"
    using assms by (simp_all add: send_spec_def n_def)
  note unfold = sendMsg_loop_unfold [OF n_def w2_def, of b]
  consider (err) "n < 0" | (more) "0 \<le> n" "int (length m) - n > 0" | (last) "0 \<le> n" "n = int (length m)"
    using n(1) by linarith
  then show ?case
  proof cases
    case err
    then show ?thesis
      by (intro exI [of _ n] exI [of _ "tick w"] exI [of _ "[]"] exI [of _ m])
        (simp add: unfold sent_chunks_def)
  next
    case more
    then have "m \<noteq> []" by auto
    with n(2) more have "0 < n" by simp
    with more have len: "length (drop (nat n) m) < length m" by simp
    obtain r w' ps rest where IH: "sendMsg_loop k fd (drop (nat n) m) (b + n) w2 = Some (r, w')"
        "sent_chunks w2 w' fd ps" "drop (nat n) m = concat ps @ rest"
        "r < 0 \<or> (r = b + n + int (length (drop (nat n) m)) \<and> rest = [])"
      using less [OF len, of "b + n" w2] by blast
    have "m = concat (take (nat n) m # ps) @ rest"
      using IH(3) by (metis append_take_drop_id append_assoc concat.simps(2))
    moreover have "sent_chunks w w' fd (take (nat n) m # ps)"
      using IH(2) by (simp add: sent_chunks_def w2_def)
    moreover have "r < 0 \<or> (r = b + int (length m) \<and> rest = [])"
      using IH(4) more by auto
    moreover have "sendMsg_loop k fd m b w = Some (r, w')"
      using IH(1) more by (simp add: unfold)
    ultimately show ?thesis by blast
  next
    case last
    then show ?thesis
      by (intro exI [of _ "b + n"] exI [of _ w2] exI [of _ "[m]"] exI [of _ "[]"])
        (simp add: unfold sent_chunks_def w2_def)
  qed
qed

text \<open>Sends that never fail, and the bytes that reached one descriptor.\<close>

definition send_ok :: "kernel \<Rightarrow> bool" where
  "send_ok k \<longleftrightarrow> send_spec k \<and> (\<forall>t fd m. 0 \<le> k_send k t fd m)"

fun stream_of :: "int \<Rightarrow> io_event \<Rightarrow> byte list" where
  "stream_of fd (SockData f bs) = (if f = fd then bs else [])"
| "stream_of fd e = []"

definition stream :: "int \<Rightarrow> io_event list \<Rightarrow> byte list" where
  "stream fd es = concat (map (stream_of fd) es)"

lemma stream_simps [simp]:
  "stream fd [] = []" "stream fd (e # es) = stream_of fd e @ stream fd es"
  "stream fd (xs @ ys) = stream fd xs @ stream fd ys"
  by (simp_all add: stream_def)

lemma stream_chunks: "stream fd (map (SockData f) ps) = (if f = fd then concat ps else [])"
  by (induction ps) auto

lemma sendMsg_loop_nonneg:
  assumes "send_ok k"
  shows "sendMsg_loop k fd m b w = Some (r, w') \<Longrightarrow> 0 \<le> b \<Longrightarrow> 0 \<le> r"
proof (induction "length m" arbitrary: m b w rule: less_induct)
  case less
  define n where "n = k_send k (io_tick w) fd m"
  have n: "0 \<le> n" "m \<noteq> [] \<Longrightarrow> n \<noteq> 0"
    using assms by (simp_all add: send_ok_def send_spec_def n_def)
  note unfold = sendMsg_loop_unfold [OF n_def refl, of b]
  show ?case
  proof (cases "int (length m) - n > 0")
    case True
    then have "length (drop (nat n) m) < length m" using n by fastforce
    from less(1) [OF this] show ?thesis using less(2,3) True n(1) by (simp add: unfold)
  next
    case False
    then show ?thesis using less(2,3) n(1) by (simp add: unfold)
  qed
qed

text \<open>
  C29: over a kernel whose \<^verbatim>\<open>send\<close> makes progress, \<^verbatim>\<open>sendMsg\<close> returns; it returns either the message
  length, having put exactly the bytes of the message on the socket in order however they were
  split, or a negative error after a prefix of them.
\<close>

theorem sendMsg_delivers:
  assumes "send_spec k"
  shows "\<exists>r w' ps. sendMsg k s msg w = Inr (r, w') \<and> sent_chunks w w' (sock_fd s) ps
    \<and> (r < 0 \<or> r = int (length msg) \<and> concat ps = msg)
    \<and> concat ps = take (length (concat ps)) msg"
proof -
  obtain r w' ps rest where L: "sendMsg_loop k (sock_fd s) msg 0 w = Some (r, w')"
      "sent_chunks w w' (sock_fd s) ps" "msg = concat ps @ rest"
      "r < 0 \<or> (r = 0 + int (length msg) \<and> rest = [])"
    using sendMsg_loop_returns [OF assms] by blast
  from L(3) have "concat ps = take (length (concat ps)) msg" by simp
  with L show ?thesis
    by (intro exI [of _ r] exI [of _ w'] exI [of _ ps]) (auto simp: sendMsg_def)
qed

text \<open>A kernel that accepts at most two bytes per call.\<close>

definition two_byte_kernel :: kernel where
  "two_byte_kernel = ok_kernel\<lparr>k_send := \<lambda>t fd m. int (min 2 (length m))\<rparr>"

theorem sendMsg_delivers_witness:
  "send_spec two_byte_kernel
   \<and> (\<exists>ps. sendMsg two_byte_kernel (Socket_new 9) [1, 2, 3] \<lparr>io_tick = 0, io_out = []\<rparr>
        = Inr (3, \<lparr>io_tick = 2, io_out = [SockData 9 [1, 2], SockData 9 [3]]\<rparr>) \<and> concat ps = [1, 2, 3 :: byte])"
proof -
  have spec: "send_spec two_byte_kernel"
    by (auto simp: send_spec_def two_byte_kernel_def)
  have run: "sendMsg two_byte_kernel (Socket_new 9) [1, 2, 3] \<lparr>io_tick = 0, io_out = []\<rparr>
        = Inr (3, \<lparr>io_tick = 2, io_out = [SockData 9 [1, 2], SockData 9 [3]]\<rparr>)"
    by code_simp
  from sendMsg_delivers [OF spec, of "Socket_new 9" "[1, 2, 3]" "\<lparr>io_tick = 0, io_out = []\<rparr>"]
  obtain ps :: "byte list list" where "concat ps = [1, 2, 3]"
    unfolding run by auto
  with spec run show ?thesis by blast
qed

section \<open>Waiting for a reply\<close>

lemma setupReadFdSet_ok:
  assumes "0 \<le> sock_fd s" "sock_fd s < 1024" "unblocker = Some u" "0 \<le> getReadPipe u" "getReadPipe u < 1024"
  shows "setupReadFdSet s unblocker =
    Inr (max (sock_fd s) (getReadPipe u), s\<lparr>readFdSet := [sock_fd s, getReadPipe u]\<rparr>)"
  using assms by (simp add: setupReadFdSet_def FD_SET_def Let_def max_def)

text \<open>
  The statuses of \<^verbatim>\<open>recvReply\<close> on a valid socket and unblocker. An interrupted \<^verbatim>\<open>select\<close> is not
  restarted: the call returns \<open>SOCK_READ_OK\<close> with no data and \<^verbatim>\<open>*bytesReadOut\<close> not written. A time out
  and any other failure of \<^verbatim>\<open>select\<close> are reported as such. When the unblocking pipe is ready, alone
  or together with the socket, the status is \<open>SOCK_READ_UNBLOCKED\<close>.
\<close>

theorem recvReply_statuses:
  assumes "0 \<le> sock_fd s" "sock_fd s < 1024" "0 < getReadPipe u" "getReadPipe u < 1024"
    and "sel = k_select k (io_tick w) [sock_fd s, getReadPipe u] (select_timeout ms)"
    and "s1 = s\<lparr>readFdSet := [sock_fd s, getReadPipe u]\<rparr>"
  shows "(sel = SelErr EINTR \<longrightarrow>
        recvReply k s n ms (Some out0) (Some u) w = Inr (SOCK_READ_OK, out0, [], s1, tick w))
    \<and> (\<forall>e. sel = SelErr e \<and> e \<noteq> EINTR \<longrightarrow>
        recvReply k s n ms (Some out0) (Some u) w = Inr (SOCK_READ_ERROR, out0, [], s1, tick w))
    \<and> (\<forall>ready. sel = SelReady 0 ready \<longrightarrow>
        recvReply k s n ms (Some out0) (Some u) w = Inr (SOCK_READ_TIMEOUT, out0, [], s1, tick w))
    \<and> (\<forall>c ready rv got bs s' w'. sel = SelReady c ready \<and> c \<noteq> 0 \<and> getReadPipe u \<in> set ready
        \<and> recvReply k s n ms (Some out0) (Some u) w = Inr (rv, got, bs, s', w') \<longrightarrow> rv = SOCK_READ_UNBLOCKED)"
proof -
  have st: "setupReadFdSet s (Some u) = Inr (max (sock_fd s) (getReadPipe u), s1)"
    using assms(1-4,6) by (simp add: setupReadFdSet_ok)
  have fds: "readFdSet s1 = [sock_fd s, getReadPipe u]" using assms(6) by simp
  have pos: "max (sock_fd s) (getReadPipe u) > 0" using assms(3) by simp
  note unf = recvReply_def st fds pos assms(5) [symmetric]
  show ?thesis
    by (auto simp: unf recvReply_ready_def Let_def split: if_splits)
qed

theorem recvReply_statuses_witness:
  "recvReply (ok_kernel\<lparr>k_select := \<lambda>t fds tmo. SelErr EINTR\<rparr>) (Socket_new 9) 128 0 (Some 77)
     (Some \<lparr>ubp_read = 3, ubp_write = 4\<rparr>) \<lparr>io_tick = 0, io_out = []\<rparr>
   = Inr (SOCK_READ_OK, 77, [], \<lparr>sock_fd = 9, readFdSet = [9, 3]\<rparr>, \<lparr>io_tick = 1, io_out = []\<rparr>)"
  using recvReply_statuses [of "Socket_new 9" "\<lparr>ubp_read = 3, ubp_write = 4\<rparr>" "SelErr EINTR"
      "ok_kernel\<lparr>k_select := \<lambda>t fds tmo. SelErr EINTR\<rparr>" "\<lparr>io_tick = 0, io_out = []\<rparr>" 0 _ 128 77]
  by (simp add: Socket_new_def setSockFd_def Socket_pimpl_def getReadPipe_def tick_def)

end
