(* ===== verification/Device_Timer.thy ===== *)
theory Device_Timer
  imports Kernel
begin

text \<open>
  \<^verbatim>\<open>DeviceNodeTimer\<close> of \<^verbatim>\<open>src/src/sim/DeviceNode.cpp\<close>: a POSIX timer that is created when started
  and deleted when stopped. The \<^verbatim>\<open>sigevent\<close> asks for no notification, so the timer is only polled.
\<close>

record DeviceNodeTimer =
  it_interval :: timespec
  it_value :: timespec
  tmr_started :: bool

definition DeviceNodeTimer_new :: "int \<Rightarrow> int \<Rightarrow> int \<Rightarrow> int \<Rightarrow> DeviceNodeTimer" where
  "DeviceNodeTimer_new iSec iNSec tSec tNSec =
     \<lparr> it_interval = Timespec iSec iNSec, it_value = Timespec tSec tNSec, tmr_started = False \<rparr>"

text \<open>The common end of both \<^verbatim>\<open>start\<close> functions: create, arm, mark as started.\<close>

definition timer_arm :: "kernel \<Rightarrow> DeviceNodeTimer \<Rightarrow> io \<Rightarrow> (DeviceNodeTimer \<times> io) res" where
  "timer_arm k t w =
     (if k_timer_create k (io_tick w) = - 1
      then Inl (Throw ''DeviceNodeTimer::start: failed to create timer'')
      else if k_timer_settime k (io_tick (tick w)) (it_value t) = - 1
      then Inl (Throw ''DeviceNodeTimer::start: failed to arm timer'')
      else Inr (t\<lparr>tmr_started := True\<rparr>, tick (tick w)))"

definition timer_start :: "kernel \<Rightarrow> DeviceNodeTimer \<Rightarrow> io \<Rightarrow> (DeviceNodeTimer \<times> io) res" where
  "timer_start k t w = bindE (assertE ''!started'' (\<not> tmr_started t)) (\<lambda>_. timer_arm k t w)"

definition timer_start_ms :: "kernel \<Rightarrow> int \<Rightarrow> DeviceNodeTimer \<Rightarrow> io \<Rightarrow> (DeviceNodeTimer \<times> io) res" where
  "timer_start_ms k ms t w =
     bindE (assertE ''!started'' (\<not> tmr_started t)) (\<lambda>_.
       let v = (if ms = 0 then Timespec 0 1
                else Timespec (ms sdiv 1000) (s32 ((ms smod 1000) * 1000000)))
       in timer_arm k (t\<lparr>it_value := v\<rparr>) w)"

definition timer_stop :: "DeviceNodeTimer \<Rightarrow> io \<Rightarrow> DeviceNodeTimer \<times> io" where
  "timer_stop t w = (if tmr_started t then (t\<lparr>tmr_started := False\<rparr>, tick w) else (t, w))"

definition timer_expired :: "kernel \<Rightarrow> DeviceNodeTimer \<Rightarrow> io \<Rightarrow> (bool \<times> io) res" where
  "timer_expired k t w =
     bindE (assertE ''started'' (tmr_started t)) (\<lambda>_.
       case k_timer_gettime k (io_tick w) of
         None \<Rightarrow> Inl (Throw ''DeviceNodeTimer: failed to get time'')
       | Some left \<Rightarrow> Inr (tv_sec left = 0 \<and> tv_nsec left = 0, tick w))"

lemmas timer_defs = timer_start_def timer_start_ms_def timer_stop_def timer_expired_def timer_arm_def

definition timers_ok :: "kernel \<Rightarrow> bool" where
  "timers_ok k \<longleftrightarrow> (\<forall>t. k_timer_create k t \<noteq> - 1) \<and> (\<forall>t v. k_timer_settime k t v \<noteq> - 1)
     \<and> (\<forall>t. k_timer_gettime k t \<noteq> None)"

lemma ok_kernel_timers: "timers_ok ok_kernel"
  by (simp add: timers_ok_def ok_kernel_def)

text \<open>
  Starting a stopped timer for \<open>ms\<close> milliseconds arms it with a valid, non-zero relative
  time: exactly \<open>ms\<close> milliseconds, or one nanosecond for \<open>ms = 0\<close> (a zero time would disarm it).
\<close>

theorem timer_start_ms_arms:
  assumes "\<not> tmr_started t" and "0 \<le> ms" and "timers_ok k"
  shows "\<exists>t' w'. timer_start_ms k ms t w = Inr (t', w') \<and> tmr_started t' \<and> normalised (it_value t')
    \<and> to_ns (it_value t') = (if ms = 0 then 1 else ms * 1000000) \<and> 0 < to_ns (it_value t')"
proof (cases "ms = 0")
  case True
  with assms show ?thesis
    by (simp add: timer_start_ms_def timer_arm_def timers_ok_def normalised_def to_ns_def)
next
  case False
  have m: "0 \<le> ms mod 1000" "ms mod 1000 < 1000" by simp_all
  have v: "s32 ((ms smod 1000) * 1000000) = (ms mod 1000) * 1000000"
    using assms(2) m by (simp add: smod_nonneg s32_id)
  have q: "ms sdiv 1000 = ms div 1000" using assms(2) by (simp add: sdiv_nonneg)
  have ns: "ms div 1000 * 1000000000 + ms mod 1000 * 1000000 = ms * 1000000"
    using div_mult_mod_eq [of ms 1000] by linarith
  show ?thesis
    using assms False m ns
    by (auto simp: timer_start_ms_def timer_arm_def timers_ok_def normalised_def to_ns_def v q)
qed

theorem timer_start_ms_arms_witness:
  "\<exists>t' w'. timer_start_ms ok_kernel 4 (DeviceNodeTimer_new 0 0 0 0) \<lparr>io_tick = 0, io_out = []\<rparr> = Inr (t', w')
     \<and> to_ns (it_value t') = 4000000"
  using timer_start_ms_arms [of "DeviceNodeTimer_new 0 0 0 0" 4 ok_kernel "\<lparr>io_tick = 0, io_out = []\<rparr>"]
  by (auto simp: DeviceNodeTimer_new_def ok_kernel_timers)

end
