(* ===== verification/Node_Table.thy ===== *)
theory Node_Table
  imports X6_Prelude
begin

text \<open>
  The two \<^verbatim>\<open>std::unordered_map<uint64_t, DeviceNode *>\<close> of a medium. A table is the list of its
  entries in iteration order; the standard leaves that order open, so nothing below depends on
  where an insertion goes. The interface the medium relies on is the locale \<open>node_table\<close>; it is
  interpreted on the list operations. \<open>transfer_*\<close> is what registration does: an entry leaves one
  table and enters another.
\<close>

definition um_insert :: "'k \<Rightarrow> 'v \<Rightarrow> ('k \<times> 'v) list \<Rightarrow> ('k \<times> 'v) list" where
  "um_insert key v m = (if key \<in> fst ` set m then m else m @ [(key, v)])"

definition um_erase :: "'k \<Rightarrow> ('k \<times> 'v) list \<Rightarrow> int \<times> ('k \<times> 'v) list" where
  "um_erase key m = (if key \<in> fst ` set m then 1 else 0, filter (\<lambda>e. fst e \<noteq> key) m)"

definition um_wf :: "('k \<times> 'v) list \<Rightarrow> bool" where
  "um_wf m \<longleftrightarrow> distinct (map fst m)"

locale node_table =
  fixes ins :: "'k \<Rightarrow> 'v \<Rightarrow> 't \<Rightarrow> 't"
    and era :: "'k \<Rightarrow> 't \<Rightarrow> int \<times> 't"
    and look :: "'t \<Rightarrow> 'k \<Rightarrow> 'v option"
    and wf :: "'t \<Rightarrow> bool"
  assumes wf_ins: "wf m \<Longrightarrow> wf (ins key v m)"
    and wf_era: "wf m \<Longrightarrow> wf (snd (era key m))"
    and look_ins: "wf m \<Longrightarrow> look (ins key v m) = (look m)(key := Some (case look m key of None \<Rightarrow> v | Some u \<Rightarrow> u))"
    and look_era: "wf m \<Longrightarrow> look (snd (era key m)) = (look m)(key := None)"
    and era_count: "wf m \<Longrightarrow> fst (era key m) = (if look m key = None then 0 else 1)"
begin

lemma look_ins_new: "wf m \<Longrightarrow> look m key = None \<Longrightarrow> look (ins key v m) = (look m)(key \<mapsto> v)"
  by (simp add: look_ins)

lemma era_count_one: "wf m \<Longrightarrow> fst (era key m) = 1 \<longleftrightarrow> look m key \<noteq> None"
  by (simp add: era_count)

lemma erase_inserted:
  assumes "wf m" and "look m key = None"
  shows "look (snd (era key (ins key v m))) = look m \<and> fst (era key (ins key v m)) = 1"
  using assms by (simp add: look_era era_count look_ins_new wf_ins fun_upd_idem)

lemma transfer_lookup:
  assumes "wf a" and "wf b" and "dom (look a) \<inter> dom (look b) = {}" and "look a key = Some v"
  shows "look (ins key v b) = (look b)(key \<mapsto> v)"
    and "look (snd (era key a)) = (look a)(key := None)"
    and "dom (look (snd (era key a))) \<inter> dom (look (ins key v b)) = {}"
proof -
  from assms(3,4) have "look b key = None" by auto
  with assms show "look (ins key v b) = (look b)(key \<mapsto> v)" by (simp add: look_ins_new)
  moreover show "look (snd (era key a)) = (look a)(key := None)" using assms(1) by (simp add: look_era)
  ultimately show "dom (look (snd (era key a))) \<inter> dom (look (ins key v b)) = {}"
    using assms(3) by auto
qed

end

lemma map_of_filter_key: "map_of (filter (\<lambda>e. fst e \<noteq> key) m) = (map_of m)(key := None)"
  by (induction m) (auto simp: fun_eq_iff)

interpretation um: node_table um_insert um_erase map_of um_wf
proof (unfold_locales, goal_cases)
  case (1 m key v) then show ?case by (auto simp: um_wf_def um_insert_def)
next
  case (2 m key) then show ?case by (simp add: um_wf_def um_erase_def distinct_map_filter)
next
  case (3 m key v)
  show ?case
  proof (cases "key \<in> fst ` set m")
    case True
    then obtain u where "map_of m key = Some u" by (metis map_of_eq_None_iff not_None_eq)
    with True show ?thesis by (simp add: um_insert_def fun_upd_idem)
  next
    case False
    then have "map_of m key = None" by (simp add: map_of_eq_None_iff)
    with False show ?thesis by (auto simp: um_insert_def map_add_def fun_eq_iff split: option.splits)
  qed
next
  case (4 m key) then show ?case by (simp add: um_erase_def map_of_filter_key)
next
  case (5 m key) then show ?case by (simp add: um_erase_def map_of_eq_None_iff)
qed

lemma um_entries: "um_wf m \<Longrightarrow> (key, v) \<in> set m \<longleftrightarrow> map_of m key = Some v"
  by (simp add: um_wf_def)

end
