(* ===== verification/Device_Nodes.thy ===== *)
theory Device_Nodes
  imports Sockets Device_Timer Node_Table
begin

text \<open>
  The objects of one medium. \<open>DeviceNode\<close> is \<^verbatim>\<open>DeviceNode\<close> with its \<^verbatim>\<open>DeviceNode_pimpl\<close>
  (\<^verbatim>\<open>src/src/sim/DeviceNode.cpp\<close>); the node's id is the address of its \<^verbatim>\<open>Socket\<close>. \<open>sys\<close> is the state
  that the thread of a medium works on: \<^verbatim>\<open>PhysicalMedium_pimpl\<close> (\<^verbatim>\<open>src/src/sim/PhysicalMedium.cpp\<close>),
  the heap of live nodes by address, and the outside world. Reading or writing through the
  address of a deleted node is the fault \<open>MemErr\<close>. Then the operations that neither the state
  classes nor the medium's loop are needed for: messages to the node, timers, the constructor and
  the destructor, and the medium's lists and tables.
\<close>

section \<open>State\<close>

datatype node_state = RegisteringState | ActiveState | TxState

record DeviceNode =
  dn_medium :: bool
  sockfd :: int
  socket_ptr :: u64
  dn_socket :: Socket
  os :: "byte list"
  osVersion :: "byte list"
  curState :: "node_state option"
  regTimer :: DeviceNodeTimer
  txTimer :: DeviceNodeTimer
  txPkt :: "NetSimPacket option"
  failedReads :: int

datatype PhysicalMediumState = STOPPED | IDLE | TX_802514_FRAME | STOPPING

record sys =
  heap :: "nptr \<rightharpoonup> DeviceNode"
  sio :: io
  pm_state :: PhysicalMediumState
  curTime :: timespec
  nodeHashMap :: "(u64 \<times> nptr) list"
  regListMap :: "(u64 \<times> nptr) list"
  ccaList :: "nptr list"
  txList :: "nptr list"
  tx_pkts_ok :: int
  tx_pkts_collided :: int
  tx_pkts_failed :: int

definition REGISTRATION_TIME :: int where "REGISTRATION_TIME = 120"

section \<open>Access to nodes\<close>

definition node :: "nptr \<Rightarrow> sys \<Rightarrow> DeviceNode res" where
  "node p s = (case heap s p of None \<Rightarrow> Inl (MemErr ''use of a deleted node'') | Some n \<Rightarrow> Inr n)"

definition set_node :: "nptr \<Rightarrow> DeviceNode \<Rightarrow> sys \<Rightarrow> sys" where
  "set_node p n s = s\<lparr>heap := (heap s)(p \<mapsto> n)\<rparr>"

lemma node_simps [simp]:
  "heap s p = Some n \<Longrightarrow> node p s = Inr n"
  "heap s p = None \<Longrightarrow> node p s = Inl (MemErr ''use of a deleted node'')"
  by (simp_all add: node_def)

lemma node_Inr [simp]: "node p s = Inr n \<longleftrightarrow> heap s p = Some n"
  by (simp add: node_def split: option.splits)

lemma set_node_simps [simp]:
  "heap (set_node p n s) = (heap s)(p \<mapsto> n)" "sio (set_node p n s) = sio s"
  "pm_state (set_node p n s) = pm_state s" "curTime (set_node p n s) = curTime s"
  "nodeHashMap (set_node p n s) = nodeHashMap s" "regListMap (set_node p n s) = regListMap s"
  "ccaList (set_node p n s) = ccaList s" "txList (set_node p n s) = txList s"
  "tx_pkts_ok (set_node p n s) = tx_pkts_ok s" "tx_pkts_collided (set_node p n s) = tx_pkts_collided s"
  "tx_pkts_failed (set_node p n s) = tx_pkts_failed s"
  by (simp_all add: set_node_def)

definition getNodeId :: "nptr \<Rightarrow> sys \<Rightarrow> u64 res" where
  "getNodeId p s = bindE (node p s) (\<lambda>n. Inr (socket_ptr n))"

definition getSocketFd :: "nptr \<Rightarrow> sys \<Rightarrow> int res" where
  "getSocketFd p s = bindE (node p s) (\<lambda>n. Inr (sockfd n))"

definition setMedium :: "nptr \<Rightarrow> sys \<Rightarrow> sys res" where
  "setMedium p s = bindE (node p s) (\<lambda>n. Inr (set_node p (n\<lparr>dn_medium := True\<rparr>) s))"

definition getTxPacket :: "nptr \<Rightarrow> sys \<Rightarrow> NetSimPacket option res" where
  "getTxPacket p s = bindE (node p s) (\<lambda>n. Inr (txPkt n))"

definition setTxPacket :: "nptr \<Rightarrow> NetSimPacket option \<Rightarrow> sys \<Rightarrow> sys res" where
  "setTxPacket p pkt s = bindE (node p s) (\<lambda>n. Inr (set_node p (n\<lparr>txPkt := pkt\<rparr>) s))"

text \<open>A virtual call through \<^verbatim>\<open>pimpl->medium\<close>; NULL until \<^verbatim>\<open>setMedium\<close>.\<close>

definition getMedium :: "nptr \<Rightarrow> sys \<Rightarrow> unit res" where
  "getMedium p s = bindE (node p s) (\<lambda>n.
     if dn_medium n then Inr () else Inl (MemErr ''medium is NULL''))"

section \<open>Messages to the node\<close>

definition node_send :: "kernel \<Rightarrow> nptr \<Rightarrow> (u64 \<Rightarrow> byte list) \<Rightarrow> sys \<Rightarrow> (int \<times> sys) res" where
  "node_send k p msg s =
     bindE (node p s) (\<lambda>n.
     bindE (assertE ''pimpl->socket != NULL'' (socket_ptr n \<noteq> 0)) (\<lambda>_.
     bindE (sendMsg k (dn_socket n) (msg (socket_ptr n)) (sio s)) (\<lambda>(rv, w).
     Inr (rv, s\<lparr>sio := w\<rparr>))))"

definition sendRegistrationRequest :: "kernel \<Rightarrow> nptr \<Rightarrow> sys \<Rightarrow> sys res" where
  "sendRegistrationRequest k p s =
     bindE (node_send k p registration_req_msg s) (\<lambda>(rv, s1).
     bindE (assertE ''n == msglen'' (rv = int HDR_SZ)) (\<lambda>_. Inr s1))"

definition sendDeregistrationConfirm :: "kernel \<Rightarrow> nptr \<Rightarrow> sys \<Rightarrow> sys res" where
  "sendDeregistrationConfirm k p s =
     bindE (node_send k p deregistration_con_msg s) (\<lambda>(rv, s1). Inr s1)"

definition sendCcaConfirm :: "kernel \<Rightarrow> nptr \<Rightarrow> bool \<Rightarrow> sys \<Rightarrow> sys res" where
  "sendCcaConfirm k p result s =
     bindE (node_send k p (\<lambda>i. cca_con_msg i result) s) (\<lambda>(rv, s1). Inr s1)"

definition sendTxDoneIndication :: "kernel \<Rightarrow> nptr \<Rightarrow> int \<Rightarrow> sys \<Rightarrow> sys res" where
  "sendTxDoneIndication k p result s =
     bindE (node_send k p (\<lambda>i. tx_done_ind_msg i result) s) (\<lambda>(rv, s1). Inr s1)"

section \<open>Timers of the node\<close>

definition hasRegTimerExpired :: "kernel \<Rightarrow> nptr \<Rightarrow> sys \<Rightarrow> (bool \<times> sys) res" where
  "hasRegTimerExpired k p s =
     bindE (node p s) (\<lambda>n.
     bindE (timer_expired k (regTimer n) (sio s)) (\<lambda>(e, w). Inr (e, s\<lparr>sio := w\<rparr>)))"

definition hasTxTimerExpired :: "kernel \<Rightarrow> nptr \<Rightarrow> sys \<Rightarrow> (bool \<times> sys) res" where
  "hasTxTimerExpired k p s =
     bindE (node p s) (\<lambda>n.
     bindE (timer_expired k (txTimer n) (sio s)) (\<lambda>(e, w). Inr (e, s\<lparr>sio := w\<rparr>)))"

definition startRegistrationTimer :: "kernel \<Rightarrow> nptr \<Rightarrow> sys \<Rightarrow> sys res" where
  "startRegistrationTimer k p s =
     bindE (node p s) (\<lambda>n.
     bindE (timer_start k (regTimer n) (sio s)) (\<lambda>(t, w).
     Inr (set_node p (n\<lparr>regTimer := t\<rparr>) (s\<lparr>sio := w\<rparr>))))"

definition stopRegistrationTimer :: "nptr \<Rightarrow> sys \<Rightarrow> sys res" where
  "stopRegistrationTimer p s =
     bindE (node p s) (\<lambda>n.
     let (t, w) = timer_stop (regTimer n) (sio s)
     in Inr (set_node p (n\<lparr>regTimer := t\<rparr>) (s\<lparr>sio := w\<rparr>)))"

definition startTxTimer :: "kernel \<Rightarrow> nptr \<Rightarrow> int \<Rightarrow> sys \<Rightarrow> sys res" where
  "startTxTimer k p msTimeout s =
     bindE (node p s) (\<lambda>n.
     bindE (timer_start_ms k msTimeout (txTimer n) (sio s)) (\<lambda>(t, w).
     Inr (set_node p (n\<lparr>txTimer := t\<rparr>) (s\<lparr>sio := w\<rparr>))))"

definition stopTxTimer :: "nptr \<Rightarrow> sys \<Rightarrow> sys res" where
  "stopTxTimer p s =
     bindE (node p s) (\<lambda>n.
     let (t, w) = timer_stop (txTimer n) (sio s)
     in Inr (set_node p (n\<lparr>txTimer := t\<rparr>) (s\<lparr>sio := w\<rparr>)))"

section \<open>Construction and destruction\<close>

definition DeviceNode_pimpl :: "int \<Rightarrow> u64 \<Rightarrow> DeviceNode" where
  "DeviceNode_pimpl fd sp =
     \<lparr> dn_medium = False, sockfd = fd, socket_ptr = sp, dn_socket = Socket_new fd,
       os = replicate 32 0, osVersion = replicate 32 0, curState = None,
       regTimer = DeviceNodeTimer_new 0 0 REGISTRATION_TIME 0, txTimer = DeviceNodeTimer_new 0 0 0 0,
       txPkt = None, failedReads = 0 \<rparr>"

text \<open>
  The constructor; \<open>p\<close> and \<open>sp\<close> are the addresses \<^verbatim>\<open>new\<close> gave the node and its socket. Creating the
  \<^verbatim>\<open>RegisteringState\<close> sends the registration request and starts the registration timer.
\<close>

definition DeviceNode_new :: "kernel \<Rightarrow> nptr \<Rightarrow> u64 \<Rightarrow> int \<Rightarrow> sys \<Rightarrow> sys res" where
  "DeviceNode_new k p sp fd s =
     (let s1 = set_node p (DeviceNode_pimpl fd sp) s;
          (rv, w) = setCloseOnExec k (Socket_new fd) True (sio s1);
          s2 = s1\<lparr>sio := w\<rparr>
      in bindE (sendRegistrationRequest k p s2) (\<lambda>s3.
         bindE (startRegistrationTimer k p s3) (\<lambda>s4.
         bindE (node p s4) (\<lambda>n.
         Inr (set_node p (n\<lparr>curState := Some RegisteringState\<rparr>) s4)))))"

text \<open>
  \<^verbatim>\<open>~DeviceNode\<close>: stops the registration timer, then \<^verbatim>\<open>~DeviceNode_pimpl\<close> deletes the socket (which
  closes it) and the state object. The transmission timer and packet are left as they are.
\<close>

definition delete_node :: "nptr \<Rightarrow> sys \<Rightarrow> sys res" where
  "delete_node p s =
     bindE (stopRegistrationTimer p s) (\<lambda>s1.
     bindE (node p s1) (\<lambda>n.
     Inr (s1\<lparr>heap := (heap s1)(p := None), sio := Socket_delete (dn_socket n) (sio s1)\<rparr>)))"

section \<open>The medium's lists and tables\<close>

definition addNodeToCcaList :: "nptr \<Rightarrow> sys \<Rightarrow> sys" where
  "addNodeToCcaList p s = s\<lparr>ccaList := ccaList s @ [p]\<rparr>"

definition addNodeToTxList :: "nptr \<Rightarrow> sys \<Rightarrow> sys res" where
  "addNodeToTxList p s =
     bindE (assertE ''node'' (p \<noteq> 0)) (\<lambda>_.
     bindE (getNodeId p s) (\<lambda>_. Inr (s\<lparr>txList := txList s @ [p]\<rparr>)))"

text \<open>
  The loop of \<^verbatim>\<open>removeNodeFromTxList\<close>: the iterator advances only when an entry is erased, so it
  stays on the first entry that is another node.
\<close>

partial_function (option) removeTx_loop :: "nptr \<Rightarrow> nptr list \<Rightarrow> bool \<Rightarrow> (bool \<times> nptr list) option" where
  "removeTx_loop nodeIn l found =
     (case l of [] \<Rightarrow> Some (found, [])
      | x # xs \<Rightarrow> if x = nodeIn then removeTx_loop nodeIn xs True else removeTx_loop nodeIn l found)"

declare removeTx_loop.simps [code]

definition removeNodeFromTxList :: "nptr \<Rightarrow> sys \<Rightarrow> sys res" where
  "removeNodeFromTxList nodeIn s =
     (case removeTx_loop nodeIn (txList s) False of
        None \<Rightarrow> Inl Diverge
      | Some (found, l) \<Rightarrow>
          bindE (assertE ''pimpl->state == TX_802514_FRAME'' (pm_state s = TX_802514_FRAME)) (\<lambda>_.
          bindE (assertE ''found'' found) (\<lambda>_. Inr (s\<lparr>txList := l\<rparr>))))"

definition registerNode :: "nptr \<Rightarrow> sys \<Rightarrow> sys res" where
  "registerNode p s =
     bindE (getNodeId p s) (\<lambda>i.
     let (n, reg) = um_erase i (regListMap s); s1 = s\<lparr>regListMap := reg\<rparr>
     in bindE (assertE ''n == 1'' (n = 1)) (\<lambda>_.
        Inr (s1\<lparr>nodeHashMap := um_insert i p (nodeHashMap s1)\<rparr>)))"

definition deregisterNode :: "nptr \<Rightarrow> sys \<Rightarrow> sys res" where
  "deregisterNode p s =
     bindE (getNodeId p s) (\<lambda>i.
     let (n, reg) = um_erase i (regListMap s); s1 = s\<lparr>regListMap := reg\<rparr>
     in if n = 1 then delete_node p s1
        else let (n2, hash) = um_erase i (nodeHashMap s1); s2 = s1\<lparr>nodeHashMap := hash\<rparr>
             in bindE (assertE ''n == 1'' (n2 = 1)) (\<lambda>_. delete_node p s2))"

text \<open>
  \<^verbatim>\<open>addNode\<close> runs on the thread of the simulator, in two steps that the thread of the medium can
  come between: the node's socket joins the poller, then the node joins the registration map.
\<close>

definition addNode_poll :: "kernel \<Rightarrow> nptr \<Rightarrow> sys \<Rightarrow> sys res" where
  "addNode_poll k p s =
     bindE (setMedium p s) (\<lambda>s1.
     bindE (getSocketFd p s1) (\<lambda>fd.
     let rv = k_epoll_ctl k (io_tick (sio s1)) fd; s2 = s1\<lparr>sio := tick (sio s1)\<rparr>
     in if rv < 0
        then (if rv = EEXIST then Inl (Throw ''epoll_ctl: Already registered'')
              else Inl (Throw ''epoll_ctl: Error''))
        else Inr s2))"

definition addNode_insert :: "nptr \<Rightarrow> sys \<Rightarrow> sys res" where
  "addNode_insert p s =
     bindE (getNodeId p s) (\<lambda>i. Inr (s\<lparr>regListMap := um_insert i p (regListMap s)\<rparr>))"

definition addNode :: "kernel \<Rightarrow> nptr \<Rightarrow> sys \<Rightarrow> sys res" where
  "addNode k p s = bindE (addNode_poll k p s) (addNode_insert p)"

end
