(* ===== verification/Node_States.thy ===== *)
theory Node_States
  imports Device_Nodes
begin

text \<open>
  The state classes of a node (\<^verbatim>\<open>RegisteringState\<close>, \<^verbatim>\<open>ActiveState\<close>, \<^verbatim>\<open>TxState\<close> in
  \<^verbatim>\<open>src/src/sim/DeviceNode.cpp\<close>), one function per method of the interface \<^verbatim>\<open>IDeviceNodeState\<close> with one
  equation per class; the \<^verbatim>\<open>DeviceNode::handle*\<close> functions that delegate to the current state and
  install the state returned; and \<^verbatim>\<open>DeviceNode::readMsg\<close>. A returned \<open>None\<close> is the NULL that keeps
  the current state.
\<close>

section \<open>The state classes\<close>

fun st_handleRegTimerExpired :: "node_state \<Rightarrow> nptr \<Rightarrow> sys \<Rightarrow> (node_state option \<times> sys) res" where
  "st_handleRegTimerExpired RegisteringState p s = bindE (delete_node p s) (\<lambda>s1. Inr (None, s1))"
| "st_handleRegTimerExpired ActiveState p s = Inl (Throw ''ActiveState: handleCheckRegTimer'')"
| "st_handleRegTimerExpired TxState p s = Inl (Throw ''TxState: handleCheckRegTimer'')"

fun st_handleTxTimerExpired :: "node_state \<Rightarrow> nptr \<Rightarrow> sys \<Rightarrow> (node_state option \<times> sys) res" where
  "st_handleTxTimerExpired RegisteringState p s = Inl (Throw ''RegisteringState: handleTxTimerExpired'')"
| "st_handleTxTimerExpired ActiveState p s = Inl (Throw ''ActiveState: handleTxTimerExpired'')"
| "st_handleTxTimerExpired TxState p s =
     bindE (getTxPacket p s) (\<lambda>pktp.
     case pktp of
       None \<Rightarrow> Inl (Assert ''pkt'')
     | Some pkt \<Rightarrow>
         bindE (setTxPacket p (Some (setTxDoneResult TX_DONE_OK pkt)) s) (\<lambda>s1.
         bindE (stopTxTimer p s1) (\<lambda>s2.
         bindE (if collision pkt
                then setTxPacket p (Some (setTxDoneResult TX_DONE_COLLIDED pkt)) s2
                else Inr s2) (\<lambda>s3.
         Inr (Some ActiveState, s3)))))"

fun st_handleRegistrationConfirm :: "node_state \<Rightarrow> nptr \<Rightarrow> sys \<Rightarrow> (node_state option \<times> sys) res" where
  "st_handleRegistrationConfirm RegisteringState p s =
     bindE (stopRegistrationTimer p s) (\<lambda>s1.
     bindE (getMedium p s1) (\<lambda>_.
     bindE (registerNode p s1) (\<lambda>s2.
     Inr (Some ActiveState, s2))))"
| "st_handleRegistrationConfirm ActiveState p s = Inl (Throw ''ActiveState: handleRegistrationConfirm'')"
| "st_handleRegistrationConfirm TxState p s = Inl (Throw ''TxState: handleRegistrationConfirm'')"

text \<open>All three classes deregister the node, which deletes it.\<close>

definition st_handleDeregistrationRequest :: "node_state \<Rightarrow> nptr \<Rightarrow> sys \<Rightarrow> (node_state option \<times> sys) res" where
  "st_handleDeregistrationRequest st p s =
     bindE (getMedium p s) (\<lambda>_. bindE (deregisterNode p s) (\<lambda>s1. Inr (None, s1)))"

text \<open>
  \<^verbatim>\<open>TxState::handleCcaRequest(DeviceNode &)\<close> has another signature than the virtual function, so it does
  not override it: in \<^verbatim>\<open>TxState\<close> the call reaches the default of \<^verbatim>\<open>IDeviceNodeState\<close>, which returns NULL.
\<close>

fun st_handleCcaRequest :: "node_state \<Rightarrow> nptr \<Rightarrow> sys \<Rightarrow> (node_state option \<times> sys) res" where
  "st_handleCcaRequest RegisteringState p s = Inl (Throw ''RegisteringState: handleCcaRequest'')"
| "st_handleCcaRequest ActiveState p s = Inr (None, s)"
| "st_handleCcaRequest TxState p s = Inr (None, s)"

fun st_handleTxRequest :: "kernel \<Rightarrow> node_state \<Rightarrow> nptr \<Rightarrow> NetSimPacket \<Rightarrow> sys \<Rightarrow> (node_state option \<times> sys) res" where
  "st_handleTxRequest k RegisteringState p dataPkt s = Inl (Throw ''RegisteringState: handleTxRequest'')"
| "st_handleTxRequest k ActiveState p dataPkt s =
     bindE (isAck dataPkt) (\<lambda>ack.
     bindE (startTxTimer k p (if ack then 0 else getTimeOnWire dataPkt) s) (\<lambda>s1.
     bindE (setTxPacket p (Some dataPkt) s1) (\<lambda>s2.
     bindE (getMedium p s2) (\<lambda>_.
     bindE (addNodeToTxList p s2) (\<lambda>s3.
     Inr (Some TxState, s3))))))"
| "st_handleTxRequest k TxState p dataPkt s = Inl (Throw ''TxState: handleCcaRequest'')"

section \<open>Delegation to the current state\<close>

definition state_of :: "nptr \<Rightarrow> sys \<Rightarrow> node_state res" where
  "state_of p s =
     bindE (node p s) (\<lambda>n. case curState n of None \<Rightarrow> Inl (MemErr ''curState is NULL'') | Some st \<Rightarrow> Inr st)"

definition install_state :: "nptr \<Rightarrow> (node_state option \<times> sys) \<Rightarrow> sys res" where
  "install_state p r =
     (case r of (newState, s) \<Rightarrow>
        case newState of
          None \<Rightarrow> Inr s
        | Some st \<Rightarrow> bindE (node p s) (\<lambda>n. Inr (set_node p (n\<lparr>curState := Some st\<rparr>) s)))"

definition handleRegTimerExpired :: "nptr \<Rightarrow> sys \<Rightarrow> sys res" where
  "handleRegTimerExpired p s =
     bindE (state_of p s) (\<lambda>st. bindE (st_handleRegTimerExpired st p s) (install_state p))"

definition handleTxTimerExpired :: "nptr \<Rightarrow> sys \<Rightarrow> sys res" where
  "handleTxTimerExpired p s =
     bindE (state_of p s) (\<lambda>st. bindE (st_handleTxTimerExpired st p s) (install_state p))"

text \<open>
  \<^verbatim>\<open>strncpy(dst, src, n)\<close>: copies up to \<open>n\<close> bytes and pads with NUL after the first NUL. Reading past the
  end of the message is out of bounds.
\<close>

definition strncpy :: "nat \<Rightarrow> byte list \<Rightarrow> byte list res" where
  "strncpy n src =
     (let t = takeWhile (\<lambda>b. b \<noteq> 0) (take n src)
      in if length src < n \<and> 0 \<notin> set src then Inl (MemErr ''strncpy: read past message'')
         else Inr (t @ replicate (n - length t) 0))"

definition handleRegistrationConfirm :: "nptr \<Rightarrow> byte list \<Rightarrow> sys \<Rightarrow> sys res" where
  "handleRegistrationConfirm p regCon s =
     bindE (strncpy 32 (drop 18 regCon)) (\<lambda>o1.
     bindE (strncpy 32 (drop 50 regCon)) (\<lambda>o2.
     bindE (node p s) (\<lambda>n.
     let s1 = set_node p (n\<lparr>os := o1, osVersion := o2\<rparr>) s
     in bindE (state_of p s1) (\<lambda>st. bindE (st_handleRegistrationConfirm st p s1) (install_state p)))))"

definition handleDeregistrationRequest :: "kernel \<Rightarrow> nptr \<Rightarrow> sys \<Rightarrow> sys res" where
  "handleDeregistrationRequest k p s =
     bindE (sendDeregistrationConfirm k p s) (\<lambda>s1.
     bindE (state_of p s1) (\<lambda>st. bindE (st_handleDeregistrationRequest st p s1) (install_state p)))"

definition handleCcaRequest :: "nptr \<Rightarrow> sys \<Rightarrow> sys res" where
  "handleCcaRequest p s =
     bindE (getMedium p s) (\<lambda>_.
     let s1 = addNodeToCcaList p s
     in bindE (state_of p s1) (\<lambda>st. bindE (st_handleCcaRequest st p s1) (install_state p)))"

definition handleDataIndication :: "kernel \<Rightarrow> nptr \<Rightarrow> byte list \<Rightarrow> sys \<Rightarrow> sys res" where
  "handleDataIndication k p dataInd s =
     bindE (NetSimPacket_new dataInd p) (\<lambda>dataPkt.
     bindE (state_of p s) (\<lambda>st. bindE (st_handleTxRequest k st p dataPkt s) (install_state p)))"

section \<open>Reading a message\<close>

text \<open>\<^verbatim>\<open>recv\<close>'s return value.\<close>

fun recv_rv :: "recv_res \<Rightarrow> int" where
  "recv_rv (RecvErr e) = - 1"
| "recv_rv (RecvData bs) = int (length bs)"

fun recv_bytes :: "recv_res \<Rightarrow> byte list" where
  "recv_bytes (RecvErr e) = []"
| "recv_bytes (RecvData bs) = bs"

definition count_failed :: "nptr \<Rightarrow> sys \<Rightarrow> sys res" where
  "count_failed p s = bindE (node p s) (\<lambda>n. Inr (set_node p (n\<lparr>failedReads := failedReads n + 1\<rparr>) s))"

text \<open>The \<^verbatim>\<open>switch\<close> on the message type.\<close>

definition dispatch :: "kernel \<Rightarrow> nptr \<Rightarrow> u16 \<Rightarrow> byte list \<Rightarrow> sys \<Rightarrow> sys res" where
  "dispatch k p msgType msgData s =
     (if msgType = msg_type_val MSG_TYPE_REG_CON then handleRegistrationConfirm p msgData s
      else if msgType = msg_type_val MSG_TYPE_DEREG_REQ then handleDeregistrationRequest k p s
      else if msgType = msg_type_val MSG_TYPE_CCA_REQ then handleCcaRequest p s
      else if msgType = msg_type_val MSG_TYPE_TX_DATA_IND then handleDataIndication k p msgData s
      else Inr s)"

text \<open>
  From the header on: the checksum is taken out and compared, then node id, version and type are
  read. \<open>msgData\<close> is the block of \<open>len\<close> bytes after the second \<^verbatim>\<open>recv\<close>.
\<close>

definition process_msg :: "kernel \<Rightarrow> nptr \<Rightarrow> u16 \<Rightarrow> byte list \<Rightarrow> sys \<Rightarrow> sys res" where
  "process_msg k p len msgData s =
     (if length msgData < HDR_SZ then Inl (MemErr ''header: access past msgData'')
      else let rxCksum = rx_cksum msgData;
               d = put 0 (le_bytes 2 (htons len)) (clear_cksum msgData);
               calculatedCksum = generate_checksum d;
               hdr = hdr_of d
           in if calculatedCksum \<noteq> rxCksum then Inr s
              else bindE (node p s) (\<lambda>n.
                   bindE (assertE ''nodeId == (uint64_t)pimpl->socket''
                            (ntohll (hdr_node_id hdr) = socket_ptr n)) (\<lambda>_.
                   if ntohl (hdr_interface_version hdr) \<noteq> NETSIM_INTERFACE_VERSION then Inr s
                   else dispatch k p (ntohs (hdr_msg_type hdr)) d s)))"

text \<open>
  \<^verbatim>\<open>len - sizeof(len)\<close> is computed in \<^verbatim>\<open>size_t\<close> (\<open>mod 2 ^ 64\<close>). Data beyond the block is a write out of
  bounds; a short or failed second \<^verbatim>\<open>recv\<close> leaves the rest of the block as \<^verbatim>\<open>malloc\<close> gave it.
\<close>

definition read_body :: "kernel \<Rightarrow> nptr \<Rightarrow> int \<Rightarrow> u16 \<Rightarrow> sys \<Rightarrow> sys res" where
  "read_body k p fd len s =
     (let w = sio s;
          msgData = k_malloc k (io_tick w) (unat len);
          w1 = tick w;
          r = k_recv k (io_tick w1) fd ((int (unat len) - 2) mod 2 ^ 64);
          s1 = s\<lparr>sio := tick w1\<rparr>
      in if 2 + length (recv_bytes r) > max 2 (unat len) then Inl (MemErr ''recv: write past msgData'')
         else if recv_rv r = EAGAIN then count_failed p s1
         else process_msg k p len (put 2 (recv_bytes r) msgData) s1)"

definition readMsg :: "kernel \<Rightarrow> nptr \<Rightarrow> sys \<Rightarrow> sys res" where
  "readMsg k p s =
     bindE (node p s) (\<lambda>n.
     let fd = sock_fd (dn_socket n);
         r = k_recv k (io_tick (sio s)) fd 2;
         s1 = s\<lparr>sio := tick (sio s)\<rparr>
     in if recv_rv r = EAGAIN then count_failed p s1
        else bindE (assertE ''rv == sizeof(len)'' (recv_rv r = 2)) (\<lambda>_.
          let len = (of_le_bytes (recv_bytes r) :: u16)
          in bindE (assertE ''len >= sizeof(hdr)'' (8 \<le> unat len)) (\<lambda>_.
             read_body k p fd (ntohs len) s1)))"

end
