(* ===== verification/Medium.thy ===== *)
theory Medium
  imports Node_States
begin

text \<open>
  The thread of a medium, \<^verbatim>\<open>src/src/sim/PhysicalMedium.cpp\<close>: answering clear-channel requests, polling
  the nodes, expiring registrations, transmitting, and the loop \<^verbatim>\<open>run\<close>. A \<^verbatim>\<open>while\<close> over a list or a
  map with \<^verbatim>\<open>erase\<close> is a recursion over the entries still to visit; entries already passed are
  collected in \<open>seen\<close>, so that the container holds \<open>seen @ rest\<close> at every step. The virtual function
  \<^verbatim>\<open>txCollisionCheck\<close> is an argument of the loop.
\<close>

section \<open>Clear channel assessment\<close>

fun processCca_loop :: "kernel \<Rightarrow> nptr list \<Rightarrow> sys \<Rightarrow> sys res" where
  "processCca_loop k [] s = Inr s"
| "processCca_loop k (p # rest) s =
     bindE (getNodeId p s) (\<lambda>_.
     let s1 = s\<lparr>ccaList := rest\<rparr>
     in bindE (sendCcaConfirm k p (pm_state s1 = IDLE) s1) (\<lambda>s2. processCca_loop k rest s2))"

definition processCcaList :: "kernel \<Rightarrow> sys \<Rightarrow> sys res" where
  "processCcaList k s = processCca_loop k (ccaList s) s"

section \<open>Polling\<close>

text \<open>One event; the flag says whether the loop goes on (\<^verbatim>\<open>break\<close> is \<open>False\<close>).\<close>

definition processEvent :: "kernel \<Rightarrow> epoll_event \<Rightarrow> sys \<Rightarrow> (bool \<times> sys) res" where
  "processEvent k ev s =
     (if ev_rdhup ev then
        (case ev_ptr ev of
           EpUnblocker \<Rightarrow> Inr (False, s\<lparr>pm_state := STOPPING\<rparr>)
         | EpNode p \<Rightarrow>
             bindE (getSocketFd p s) (\<lambda>_. bindE (deregisterNode p s) (\<lambda>s1. Inr (True, s1)))
         | EpNull \<Rightarrow> Inl (Throw ''Poller EPOLLRDHUP: Not a Device node''))
      else if ev_in ev then
        (case ev_ptr ev of
           EpUnblocker \<Rightarrow> Inr (False, s\<lparr>pm_state := STOPPING\<rparr>)
         | EpNode p \<Rightarrow> bindE (readMsg k p s) (\<lambda>s1. Inr (True, s1))
         | EpNull \<Rightarrow> Inl (Throw ''Poller EPOLLIN: Not a Device node''))
      else Inr (True, s))"

fun processEvents :: "kernel \<Rightarrow> epoll_event list \<Rightarrow> sys \<Rightarrow> sys res" where
  "processEvents k [] s = Inr s"
| "processEvents k (ev # evs) s =
     bindE (processEvent k ev s) (\<lambda>(more, s1). if more then processEvents k evs s1 else Inr s1)"

definition EPOLL_MAX_EVENTS :: nat where "EPOLL_MAX_EVENTS = 64"

definition processPollerEvents :: "kernel \<Rightarrow> epoll_event list \<Rightarrow> sys \<Rightarrow> sys res" where
  "processPollerEvents k evs s =
     bindE (assertE ''numEvents <= EPOLL_MAX_EVENTS'' (length evs \<le> EPOLL_MAX_EVENTS)) (\<lambda>_.
     processEvents k evs s)"

section \<open>Registration time out\<close>

fun regTimeout_loop :: "kernel \<Rightarrow> (u64 \<times> nptr) list \<Rightarrow> (u64 \<times> nptr) list \<Rightarrow> sys \<Rightarrow> sys res" where
  "regTimeout_loop k seen [] s = Inr s"
| "regTimeout_loop k seen ((i, p) # rest) s =
     bindE (getNodeId p s) (\<lambda>nid.
     bindE (assertE ''node->getNodeId() == iter->first'' (nid = i)) (\<lambda>_.
     bindE (hasRegTimerExpired k p s) (\<lambda>(expired, s1).
     if expired
     then bindE (handleRegTimerExpired p (s1\<lparr>regListMap := seen @ rest\<rparr>)) (\<lambda>s2.
            regTimeout_loop k seen rest s2)
     else regTimeout_loop k (seen @ [(i, p)]) rest s1)))"

definition checkNodeRegistrationTimeout :: "kernel \<Rightarrow> sys \<Rightarrow> sys res" where
  "checkNodeRegistrationTimeout k s = regTimeout_loop k [] (regListMap s) s"

section \<open>Transmission\<close>

text \<open>
  \<^verbatim>\<open>txPacket\<close>: the packet object is the node's \<open>txPkt\<close>; its RSSI is set, its checksum regenerated, the
  whole buffer is multicast, and the frame is written to the capture file.
\<close>

definition txPacket :: "nptr \<Rightarrow> NetSimPacket \<Rightarrow> sys \<Rightarrow> sys res" where
  "txPacket p pkt s =
     bindE (assertE ''node'' (p \<noteq> 0)) (\<lambda>_.
     bindE (setRSSI 127 pkt) (\<lambda>pkt1.
     bindE (generateChecksum pkt1) (\<lambda>pkt2.
     bindE (setTxPacket p (Some pkt2) s) (\<lambda>s1.
     let s2 = s1\<lparr>sio := emit (McastTx (pktBuffer pkt2)) (tick (sio s1))\<rparr>
     in bindE (pktbuf_bytes pkt2) (\<lambda>frame.
        Inr (s2\<lparr>sio := emit (PcapDump frame) (sio s2)\<rparr>))))))"

definition txDone :: "nptr \<Rightarrow> NetSimPacket \<Rightarrow> sys \<Rightarrow> sys res" where
  "txDone p pkt s =
     (if txDoneResult pkt = TX_DONE_OK
      then bindE (txPacket p pkt s) (\<lambda>s1. Inr (s1\<lparr>tx_pkts_ok := tx_pkts_ok s1 + 1\<rparr>))
      else if txDoneResult pkt = TX_DONE_COLLIDED
      then Inr (s\<lparr>tx_pkts_collided := tx_pkts_collided s + 1\<rparr>)
      else if txDoneResult pkt = TX_DONE_FAILURE
      then Inr (s\<lparr>tx_pkts_failed := tx_pkts_failed s + 1\<rparr>)
      else Inl (Throw ''Invalid TX Done Result''))"

definition txExpired :: "kernel \<Rightarrow> nptr \<Rightarrow> sys \<Rightarrow> sys res" where
  "txExpired k p s =
     bindE (getTxPacket p s) (\<lambda>pktp.
     bindE (assertE ''pkt'' (pktp \<noteq> None)) (\<lambda>_.
     bindE (handleTxTimerExpired p s) (\<lambda>s1.
     bindE (getTxPacket p s1) (\<lambda>pktp1.
     case pktp1 of
       None \<Rightarrow> Inl (MemErr ''pkt'')
     | Some pkt \<Rightarrow>
         bindE (sendTxDoneIndication k p (txDoneResult pkt) s1) (\<lambda>s2.
         bindE (txDone p pkt s2) (\<lambda>s3.
         setTxPacket p None s3))))))"

fun processTx_loop :: "kernel \<Rightarrow> nptr list \<Rightarrow> nptr list \<Rightarrow> sys \<Rightarrow> sys res" where
  "processTx_loop k seen [] s = Inr s"
| "processTx_loop k seen (p # rest) s =
     bindE (hasTxTimerExpired k p s) (\<lambda>(expired, s1).
     if expired
     then bindE (txExpired k p s1) (\<lambda>s2.
            processTx_loop k seen rest (s2\<lparr>txList := seen @ rest\<rparr>))
     else processTx_loop k (seen @ [p]) rest s1)"

definition processTxList :: "kernel \<Rightarrow> sys \<Rightarrow> sys res" where
  "processTxList k s = processTx_loop k [] (txList s) s"

section \<open>Collisions: the two media\<close>

fun collide_loop :: "nptr list \<Rightarrow> sys \<Rightarrow> sys res" where
  "collide_loop [] s = Inr s"
| "collide_loop (p # rest) s =
     bindE (getTxPacket p s) (\<lambda>pktp.
     case pktp of
       None \<Rightarrow> Inl (MemErr ''getTxPacket() is NULL'')
     | Some pkt \<Rightarrow> bindE (setTxPacket p (Some (setCollided True pkt)) s) (collide_loop rest))"

definition powerline_txCollisionCheck :: "sys \<Rightarrow> sys res" where
  "powerline_txCollisionCheck s = (if length (txList s) > 1 then collide_loop (txList s) s else Inr s)"

definition wireless_txCollisionCheck :: "sys \<Rightarrow> sys res" where
  "wireless_txCollisionCheck s = Inr s"

section \<open>The thread\<close>

text \<open>
  \<^verbatim>\<open>interval\<close>: the loop ends after one round, since its condition \<^verbatim>\<open>rv > 0 && waitms > 0\<close> is only reached
  with \<^verbatim>\<open>rv <= 0\<close> (\<^verbatim>\<open>break\<close> leaves it otherwise). \<open>timespec_add_ms\<close> receives the \<^verbatim>\<open>int\<close> converted to
  \<^verbatim>\<open>unsigned long\<close>.
\<close>

definition interval :: "kernel \<Rightarrow> int \<Rightarrow> sys \<Rightarrow> sys res" where
  "interval k waitms s =
     (let t = timespec_add_ms (curTime s) (waitms mod 2 ^ 64);
          s1 = s\<lparr>curTime := t, sio := tick (sio s)\<rparr>
      in if k_timer_settime k (io_tick (sio s)) t = - 1
         then Inl (Throw ''PhysicalMedium::interval: failed to arm timer'')
         else let s2 = s1\<lparr>sio := tick (sio s1)\<rparr>
              in (case k_epoll_wait k (io_tick (sio s1)) of
                    EpollErr e \<Rightarrow>
                      if e \<noteq> EINTR then Inl (Throw ''PhysicalMedium::interval: epoll failure'')
                      else if k_timer_gettime k (io_tick (sio s2)) = None
                      then Inl (Throw ''PhysicalMedium::interval: failed to get timer'')
                      else Inr (s2\<lparr>sio := tick (sio s2)\<rparr>)
                  | EpollEvents evs \<Rightarrow>
                      if evs \<noteq> [] then processPollerEvents k evs s2
                      else if k_timer_gettime k (io_tick (sio s2)) = None
                      then Inl (Throw ''PhysicalMedium::interval: failed to get timer'')
                      else Inr (s2\<lparr>sio := tick (sio s2)\<rparr>)))"

text \<open>
  The loop of \<^verbatim>\<open>run\<close> as steps between its loop heads: \<open>Outer\<close> is the head of \<^verbatim>\<open>do\<close>, \<open>Inner\<close> the head of
  \<^verbatim>\<open>while (!txList.empty())\<close>, \<open>Done\<close> the end of the thread.
\<close>

datatype run_loc = Outer | Inner | Done

definition outer_step :: "kernel \<Rightarrow> sys \<Rightarrow> (run_loc \<times> sys) res" where
  "outer_step k s =
     (if pm_state s = IDLE
      then bindE (interval k 1000 s) (\<lambda>s1.
             if pm_state s1 = STOPPING then Inr (Done, s1\<lparr>pm_state := STOPPED\<rparr>)
             else let s2 = (if txList s1 \<noteq> [] then s1\<lparr>pm_state := TX_802514_FRAME\<rparr> else s1)
                  in bindE (processCcaList k s2) (\<lambda>s3. Inr (Inner, s3)))
      else Inr (Inner, s))"

definition outer_end :: "kernel \<Rightarrow> sys \<Rightarrow> (run_loc \<times> sys) res" where
  "outer_end k s =
     bindE (if pm_state s \<noteq> STOPPING then checkNodeRegistrationTimeout k (s\<lparr>pm_state := IDLE\<rparr>) else Inr s)
       (\<lambda>s1. if pm_state s1 \<noteq> STOPPING then Inr (Outer, s1) else Inr (Done, s1\<lparr>pm_state := STOPPED\<rparr>))"

definition inner_step :: "(sys \<Rightarrow> sys res) \<Rightarrow> kernel \<Rightarrow> sys \<Rightarrow> (run_loc \<times> sys) res" where
  "inner_step check k s =
     (if txList s \<noteq> []
      then bindE (interval k 1 s) (\<lambda>s1.
             if pm_state s1 = STOPPING then outer_end k s1
             else bindE (processCcaList k s1) (\<lambda>s2.
                  bindE (check s2) (\<lambda>s3.
                  bindE (processTxList k s3) (\<lambda>s4. Inr (Inner, s4)))))
      else outer_end k s)"

fun run_step :: "(sys \<Rightarrow> sys res) \<Rightarrow> kernel \<Rightarrow> run_loc \<times> sys \<Rightarrow> (run_loc \<times> sys) res" where
  "run_step check k (Outer, s) = outer_step k s"
| "run_step check k (Inner, s) = inner_step check k s"
| "run_step check k (Done, s) = Inr (Done, s)"

text \<open>The state in which the loop starts: \<^verbatim>\<open>run\<close> sets the state and reads the clock.\<close>

definition run_start :: "timespec \<Rightarrow> sys \<Rightarrow> run_loc \<times> sys" where
  "run_start now s = (Outer, s\<lparr>pm_state := IDLE, curTime := now\<rparr>)"

text \<open>\<open>fuel\<close> bounds the number of steps; the thread itself runs until it is stopped.\<close>

fun run_steps :: "(sys \<Rightarrow> sys res) \<Rightarrow> kernel \<Rightarrow> nat \<Rightarrow> run_loc \<times> sys \<Rightarrow> (run_loc \<times> sys) res" where
  "run_steps check k 0 c = Inr c"
| "run_steps check k (Suc fuel) c = bindE (run_step check k c) (run_steps check k fuel)"

definition isIdle :: "sys \<Rightarrow> bool" where
  "isIdle s \<longleftrightarrow> pm_state s = IDLE"

definition stop :: "sys \<Rightarrow> sys" where
  "stop s = s\<lparr>pm_state := STOPPING\<rparr>"

end
