(* ===== verification/Medium_Inv.thy ===== *)
theory Medium_Inv
  imports Medium
begin

text \<open>
  The invariant of a medium and what its list, table and node updates do to it. \<open>wfc\<close> is stated on the
  components it depends on, so that changes of the clock, the statistics or the outside world keep
  it trivially.
\<close>

section \<open>The invariant\<close>

text \<open>A node that waits for its registration confirm, and one that is registered.\<close>

definition reg_node :: "DeviceNode \<Rightarrow> bool" where
  "reg_node n \<longleftrightarrow> curState n = Some RegisteringState \<and> dn_medium n \<and> socket_ptr n \<noteq> 0
     \<and> tmr_started (regTimer n) \<and> \<not> tmr_started (txTimer n) \<and> txPkt n = None"

definition idle_node :: "DeviceNode \<Rightarrow> bool" where
  "idle_node n \<longleftrightarrow> curState n = Some ActiveState \<and> dn_medium n \<and> socket_ptr n \<noteq> 0
     \<and> \<not> tmr_started (regTimer n) \<and> \<not> tmr_started (txTimer n) \<and> txPkt n = None"

definition tx_node :: "DeviceNode \<Rightarrow> bool" where
  "tx_node n \<longleftrightarrow> curState n = Some TxState \<and> dn_medium n \<and> socket_ptr n \<noteq> 0
     \<and> \<not> tmr_started (regTimer n) \<and> tmr_started (txTimer n)
     \<and> (\<exists>pkt. txPkt n = Some pkt \<and> wf_packet pkt)"

lemmas node_class_defs = reg_node_def idle_node_def tx_node_def

definition tables_ok :: "(u64 \<times> nptr) list \<Rightarrow> (u64 \<times> nptr) list \<Rightarrow> bool" where
  "tables_ok reg hash \<longleftrightarrow> um_wf reg \<and> um_wf hash \<and> dom (map_of reg) \<inter> dom (map_of hash) = {}"

definition entries_ok ::
  "(nptr \<rightharpoonup> DeviceNode) \<Rightarrow> (u64 \<times> nptr) list \<Rightarrow> (u64 \<times> nptr) list \<Rightarrow> bool" where
  "entries_ok h reg hash \<longleftrightarrow> h 0 = None
     \<and> (\<forall>i p. map_of reg i = Some p \<longrightarrow> (\<exists>n. h p = Some n \<and> socket_ptr n = i \<and> reg_node n))
     \<and> (\<forall>i p. map_of hash i = Some p \<longrightarrow>
          (\<exists>n. h p = Some n \<and> socket_ptr n = i \<and> (idle_node n \<or> tx_node n)))"

definition on_air :: "(nptr \<rightharpoonup> DeviceNode) \<Rightarrow> (u64 \<times> nptr) list \<Rightarrow> nptr \<Rightarrow> bool" where
  "on_air h hash p \<longleftrightarrow> (\<exists>i n. map_of hash i = Some p \<and> h p = Some n \<and> tx_node n)"

definition lists_ok ::
  "(nptr \<rightharpoonup> DeviceNode) \<Rightarrow> (u64 \<times> nptr) list \<Rightarrow> nptr list \<Rightarrow> nptr list \<Rightarrow> bool" where
  "lists_ok h hash cca tx \<longleftrightarrow> distinct tx \<and> (\<forall>p. p \<in> set tx \<longleftrightarrow> on_air h hash p)
     \<and> (\<forall>p \<in> set cca. \<exists>i. map_of hash i = Some p)"

definition wfc where
  "wfc h reg hash cca tx \<longleftrightarrow> tables_ok reg hash \<and> entries_ok h reg hash \<and> lists_ok h hash cca tx"

definition wf :: "sys \<Rightarrow> bool" where
  "wf s \<longleftrightarrow> wfc (heap s) (regListMap s) (nodeHashMap s) (ccaList s) (txList s)"

lemmas wfc_defs = wfc_def tables_ok_def entries_ok_def lists_ok_def

lemma wf_frame [simp]:
  "wf (s\<lparr>sio := w\<rparr>) = wf s" "wf (s\<lparr>pm_state := st\<rparr>) = wf s" "wf (s\<lparr>curTime := t\<rparr>) = wf s"
  "wf (s\<lparr>tx_pkts_ok := a\<rparr>) = wf s" "wf (s\<lparr>tx_pkts_collided := a\<rparr>) = wf s"
  "wf (s\<lparr>tx_pkts_failed := a\<rparr>) = wf s"
  by (simp_all add: wf_def)

lemma class_disjoint: "reg_node n \<Longrightarrow> \<not> idle_node n" "reg_node n \<Longrightarrow> \<not> tx_node n" "idle_node n \<Longrightarrow> \<not> tx_node n"
  by (auto simp: node_class_defs)

lemma reg_entry:
  "entries_ok h reg hash \<Longrightarrow> map_of reg i = Some p \<Longrightarrow> \<exists>n. h p = Some n \<and> socket_ptr n = i \<and> reg_node n"
  by (simp add: entries_ok_def)

lemma hash_entry:
  "entries_ok h reg hash \<Longrightarrow> map_of hash i = Some p \<Longrightarrow>
    \<exists>n. h p = Some n \<and> socket_ptr n = i \<and> (idle_node n \<or> tx_node n)"
  by (simp add: entries_ok_def)

lemma entry_nonnull: "entries_ok h reg hash \<Longrightarrow> h p = Some n \<Longrightarrow> p \<noteq> 0"
  by (auto simp: entries_ok_def)

lemma reg_class:
  "entries_ok h reg hash \<Longrightarrow> map_of reg i = Some p \<Longrightarrow> h p = Some n \<Longrightarrow> reg_node n \<and> socket_ptr n = i"
  by (fastforce simp: entries_ok_def)

lemma hash_class:
  "entries_ok h reg hash \<Longrightarrow> map_of hash i = Some p \<Longrightarrow> h p = Some n \<Longrightarrow>
    (idle_node n \<or> tx_node n) \<and> socket_ptr n = i"
  by (fastforce simp: entries_ok_def)

section \<open>Consequences\<close>

definition registering :: "sys \<Rightarrow> nptr \<Rightarrow> bool" where
  "registering s p \<longleftrightarrow> (\<exists>i. map_of (regListMap s) i = Some p)"

definition registered :: "sys \<Rightarrow> nptr \<Rightarrow> bool" where
  "registered s p \<longleftrightarrow> (\<exists>i. map_of (nodeHashMap s) i = Some p)"

lemma wf_entries: "wf s \<Longrightarrow> entries_ok (heap s) (regListMap s) (nodeHashMap s)"
  by (simp add: wf_def wfc_def)

lemma wf_registering:
  assumes "wf s" and "registering s p"
  obtains n where "heap s p = Some n" "reg_node n" "map_of (regListMap s) (socket_ptr n) = Some p" "p \<noteq> 0"
  using assms reg_entry [OF wf_entries] entry_nonnull [OF wf_entries]
  unfolding registering_def by blast

lemma wf_registered:
  assumes "wf s" and "registered s p"
  obtains n where "heap s p = Some n" "idle_node n \<or> tx_node n" "map_of (nodeHashMap s) (socket_ptr n) = Some p" "p \<noteq> 0"
  using assms hash_entry [OF wf_entries] entry_nonnull [OF wf_entries]
  unfolding registered_def by blast

lemma wf_txList:
  assumes "wf s" and "p \<in> set (txList s)"
  obtains n where "heap s p = Some n" "tx_node n" "map_of (nodeHashMap s) (socket_ptr n) = Some p" "p \<noteq> 0"
proof -
  obtain i n where i: "map_of (nodeHashMap s) i = Some p" "heap s p = Some n" "tx_node n"
    using assms by (auto simp: wf_def wfc_def lists_ok_def on_air_def)
  moreover have "socket_ptr n = i" "p \<noteq> 0"
    using i hash_class [OF wf_entries [OF assms(1)]] entry_nonnull [OF wf_entries [OF assms(1)]] by blast+
  ultimately show thesis by (auto intro: that)
qed

lemma wf_not_both: "wf s \<Longrightarrow> registering s p \<Longrightarrow> \<not> registered s p"
  by (metis class_disjoint(1,2) option.inject wf_registered wf_registering)

lemma wf_cca_registered: "wf s \<Longrightarrow> p \<in> set (ccaList s) \<Longrightarrow> registered s p"
  by (simp add: wf_def wfc_defs registered_def)

lemma wf_distinct_tx: "wf s \<Longrightarrow> distinct (txList s)"
  by (simp add: wf_def wfc_defs)

section \<open>Updates\<close>

lemma entries_okI:
  assumes "h 0 = None"
    and "\<And>i p. map_of reg i = Some p \<Longrightarrow> \<exists>n. h p = Some n \<and> socket_ptr n = i \<and> reg_node n"
    and "\<And>i p. map_of hash i = Some p \<Longrightarrow> \<exists>n. h p = Some n \<and> socket_ptr n = i \<and> (idle_node n \<or> tx_node n)"
  shows "entries_ok h reg hash"
  using assms by (simp add: entries_ok_def)

lemma lists_okI:
  assumes "distinct tx" and "\<And>p. p \<in> set tx \<longleftrightarrow> on_air h hash p"
    and "\<And>p. p \<in> set cca \<Longrightarrow> \<exists>i. map_of hash i = Some p"
  shows "lists_ok h hash cca tx"
  using assms by (simp add: lists_ok_def)

lemma lists_okD:
  assumes "lists_ok h hash cca tx"
  shows "distinct tx" "p \<in> set tx \<longleftrightarrow> on_air h hash p" "p \<in> set cca \<Longrightarrow> \<exists>i. map_of hash i = Some p"
  using assms by (simp_all add: lists_ok_def)

lemma on_air_other: "q \<noteq> p \<Longrightarrow> on_air (h(p := x)) hash q \<longleftrightarrow> on_air h hash q"
  by (simp add: on_air_def)

lemma on_air_self:
  "on_air (h(p \<mapsto> n)) hash p \<longleftrightarrow> tx_node n \<and> (\<exists>i. map_of hash i = Some p)"
  by (auto simp: on_air_def)

text \<open>The entries when one node changes without changing its table.\<close>

lemma entries_update:
  assumes "entries_ok h reg hash" and "h p = Some n" and "socket_ptr n' = socket_ptr n"
    and "reg_node n \<Longrightarrow> reg_node n'" and "idle_node n \<or> tx_node n \<Longrightarrow> idle_node n' \<or> tx_node n'"
  shows "entries_ok (h(p \<mapsto> n')) reg hash"
proof (rule entries_okI)
  show "(h(p \<mapsto> n')) 0 = None"
    using assms(1) entry_nonnull [OF assms(1,2)] by (simp add: entries_ok_def)
next
  fix i q
  assume m: "map_of reg i = Some q"
  show "\<exists>n. (h(p \<mapsto> n')) q = Some n \<and> socket_ptr n = i \<and> reg_node n"
    using reg_entry [OF assms(1) m] assms(2-4) by (cases "q = p") auto
next
  fix i q
  assume m: "map_of hash i = Some q"
  show "\<exists>n. (h(p \<mapsto> n')) q = Some n \<and> socket_ptr n = i \<and> (idle_node n \<or> tx_node n)"
    using hash_entry [OF assms(1) m] assms(2,3,5) by (cases "q = p") auto
qed

text \<open>A node keeps its id and its class.\<close>

lemma wfc_same_class:
  assumes "wfc h reg hash cca tx" and "h p = Some n" and "socket_ptr n' = socket_ptr n"
    and "reg_node n' = reg_node n" "idle_node n' = idle_node n" "tx_node n' = tx_node n"
  shows "wfc (h(p \<mapsto> n')) reg hash cca tx"
proof -
  have E: "entries_ok h reg hash" and L: "lists_ok h hash cca tx"
    using assms(1) by (simp_all add: wfc_def)
  have "entries_ok (h(p \<mapsto> n')) reg hash" using assms by (intro entries_update [OF E assms(2)]) auto
  moreover have "on_air (h(p \<mapsto> n')) hash q = on_air h hash q" for q
    using assms(2,6) by (auto simp: on_air_def)
  then have "lists_ok (h(p \<mapsto> n')) hash cca tx" using L by (simp add: lists_ok_def)
  ultimately show ?thesis using assms(1) by (simp add: wfc_def)
qed

text \<open>Registration: the entry moves from the registration map to the node map.\<close>

lemma register_facts:
  assumes "tables_ok reg hash" "entries_ok h reg hash" and "h p = Some n" and "map_of reg (socket_ptr n) = Some p"
  shows "map_of (um_insert (socket_ptr n) p hash) = (map_of hash)(socket_ptr n \<mapsto> p)"
    and "map_of (snd (um_erase (socket_ptr n) reg)) = (map_of reg)(socket_ptr n := None)"
    and "tables_ok (snd (um_erase (socket_ptr n) reg)) (um_insert (socket_ptr n) p hash)"
    and "map_of reg j = Some p \<Longrightarrow> j = socket_ptr n" and "map_of hash j \<noteq> Some p" and "map_of hash (socket_ptr n) = None"
proof -
  have wfs: "um_wf reg" "um_wf hash" "dom (map_of reg) \<inter> dom (map_of hash) = {}"
    using assms(1) by (simp_all add: tables_ok_def)
  note tr = um.transfer_lookup [OF wfs assms(4)]
  show "map_of (um_insert (socket_ptr n) p hash) = (map_of hash)(socket_ptr n \<mapsto> p)"
    "map_of (snd (um_erase (socket_ptr n) reg)) = (map_of reg)(socket_ptr n := None)" by (rule tr(1), rule tr(2))
  show "tables_ok (snd (um_erase (socket_ptr n) reg)) (um_insert (socket_ptr n) p hash)"
    using wfs tr(3) by (simp add: tables_ok_def um.wf_ins um.wf_era)
  have reg: "reg_node n" using assms(2-4) by (blast dest: reg_class)
  show "map_of reg j = Some p \<Longrightarrow> j = socket_ptr n" "map_of hash j \<noteq> Some p"
    using assms(2,3) reg class_disjoint(1,2) by (blast dest: reg_class hash_class)+
  show "map_of hash (socket_ptr n) = None" using wfs(3) assms(4) by (metis disjoint_iff domIff option.distinct(1))
qed

lemma entries_register:
  assumes "tables_ok reg hash" and E: "entries_ok h reg hash" and "h p = Some n" and "map_of reg (socket_ptr n) = Some p"
    and "socket_ptr n' = socket_ptr n" and "idle_node n'"
  shows "entries_ok (h(p \<mapsto> n')) (snd (um_erase (socket_ptr n) reg)) (um_insert (socket_ptr n) p hash)"
proof (rule entries_okI)
  note r = register_facts [OF assms(1-4)]
  show "(h(p \<mapsto> n')) 0 = None"
    using E entry_nonnull [OF E assms(3)] by (simp add: entries_ok_def)
  show "\<exists>n. (h(p \<mapsto> n')) q = Some n \<and> socket_ptr n = i \<and> reg_node n"
    if "map_of (snd (um_erase (socket_ptr n) reg)) i = Some q" for i q
  proof -
    have "map_of reg i = Some q" "i \<noteq> socket_ptr n" using that by (auto simp: r(2) split: if_splits)
    then show ?thesis using reg_entry [OF E] r(4) by (cases "q = p") auto
  qed
  show "\<exists>n. (h(p \<mapsto> n')) q = Some n \<and> socket_ptr n = i \<and> (idle_node n \<or> tx_node n)"
    if "map_of (um_insert (socket_ptr n) p hash) i = Some q" for i q
  proof -
    have "i = socket_ptr n \<and> q = p \<or> map_of hash i = Some q" using that by (auto simp: r(1) split: if_splits)
    then show ?thesis using hash_entry [OF E] r(5) assms(5,6) by (cases "q = p") auto
  qed
qed

lemma wfc_register:
  assumes "wfc h reg hash cca tx" and "h p = Some n" and "map_of reg (socket_ptr n) = Some p"
    and "socket_ptr n' = socket_ptr n" and "idle_node n'"
  shows "wfc (h(p \<mapsto> n')) (snd (um_erase (socket_ptr n) reg)) (um_insert (socket_ptr n) p hash) cca tx"
proof -
  let ?hash = "um_insert (socket_ptr n) p hash"
  have T: "tables_ok reg hash" and E: "entries_ok h reg hash" and L: "lists_ok h hash cca tx"
    using assms(1) by (simp_all add: wfc_def)
  note r = register_facts [OF T E assms(2,3)]
  have "lists_ok (h(p \<mapsto> n')) ?hash cca tx"
  proof (rule lists_okI)
    show "distinct tx" using L by (rule lists_okD)
  next
    fix q
    have "on_air h hash q \<Longrightarrow> q \<noteq> p" using r(5) by (auto simp: on_air_def)
    moreover have "q \<noteq> p \<Longrightarrow> on_air (h(p \<mapsto> n')) ?hash q \<longleftrightarrow> on_air h hash q"
      using r(6) by (auto simp: on_air_def r(1)) (metis option.distinct(1))
    moreover have "\<not> on_air (h(p \<mapsto> n')) ?hash p"
      using class_disjoint(3) [OF assms(5)] by (simp add: on_air_self)
    ultimately show "q \<in> set tx \<longleftrightarrow> on_air (h(p \<mapsto> n')) ?hash q"
      using lists_okD(2) [OF L, of q] by (cases "q = p") auto
  next
    fix q
    assume "q \<in> set cca"
    then obtain i where "map_of hash i = Some q" using lists_okD(3) [OF L] by blast
    then show "\<exists>i. map_of ?hash i = Some q" using r(6) by (intro exI [of _ i]) (auto simp: r(1))
  qed
  then show ?thesis using r(3) entries_register [OF T E assms(2-5)] by (simp add: wfc_def)
qed

text \<open>An idle node starts to transmit.\<close>

lemma wfc_begin_tx:
  assumes "wfc h reg hash cca tx" and "h p = Some n" and "map_of hash (socket_ptr n) = Some p"
    and "idle_node n" and "socket_ptr n' = socket_ptr n" and "tx_node n'"
  shows "wfc (h(p \<mapsto> n')) reg hash cca (tx @ [p])"
proof -
  have E: "entries_ok h reg hash" and L: "lists_ok h hash cca tx"
    using assms(1) by (simp_all add: wfc_def)
  have not_tx: "p \<notin> set tx"
    using lists_okD(2) [OF L, of p] assms(2,4) class_disjoint(3) by (auto simp: on_air_def)
  have "entries_ok (h(p \<mapsto> n')) reg hash"
    using assms class_disjoint(1) by (intro entries_update [OF E assms(2)]) auto
  moreover have "lists_ok (h(p \<mapsto> n')) hash cca (tx @ [p])"
  proof (rule lists_okI)
    show "distinct (tx @ [p])" using lists_okD(1) [OF L] not_tx by simp
  next
    fix q
    show "q \<in> set (tx @ [p]) \<longleftrightarrow> on_air (h(p \<mapsto> n')) hash q"
      using lists_okD(2) [OF L, of q] assms(3,6)
      by (cases "q = p") (auto simp: on_air_self on_air_other)
  qed (rule lists_okD(3) [OF L])
  ultimately show ?thesis using assms(1) by (simp add: wfc_def)
qed

text \<open>A transmission ends.\<close>

lemma wfc_end_tx:
  assumes "wfc h reg hash cca (xs @ p # ys)" and "h p = Some n"
    and "socket_ptr n' = socket_ptr n" and "idle_node n'"
  shows "wfc (h(p \<mapsto> n')) reg hash cca (xs @ ys)"
proof -
  have E: "entries_ok h reg hash" and L: "lists_ok h hash cca (xs @ p # ys)"
    using assms(1) by (simp_all add: wfc_def)
  have tx: "tx_node n" using lists_okD(2) [OF L, of p] assms(2) by (auto simp: on_air_def)
  have "entries_ok (h(p \<mapsto> n')) reg hash"
    using assms tx class_disjoint(2) by (intro entries_update [OF E assms(2)]) auto
  moreover have "lists_ok (h(p \<mapsto> n')) hash cca (xs @ ys)"
  proof (rule lists_okI)
    show "distinct (xs @ ys)" using lists_okD(1) [OF L] by simp
  next
    fix q
    show "q \<in> set (xs @ ys) \<longleftrightarrow> on_air (h(p \<mapsto> n')) hash q"
      using lists_okD(1) [OF L] lists_okD(2) [OF L, of q] class_disjoint(3) [OF assms(4)]
      by (cases "q = p") (auto simp: on_air_self on_air_other)
  qed (rule lists_okD(3) [OF L])
  ultimately show ?thesis using assms(1) by (simp add: wfc_def)
qed

text \<open>A node outside the tables can be created, changed or removed.\<close>

lemma wfc_outside:
  assumes "wfc h reg hash cca tx" and "p \<noteq> 0"
    and "\<And>i. map_of reg i \<noteq> Some p" and "\<And>i. map_of hash i \<noteq> Some p"
  shows "wfc (h(p := x)) reg hash cca tx"
proof -
  have E: "entries_ok h reg hash" and L: "lists_ok h hash cca tx"
    using assms(1) by (simp_all add: wfc_def)
  have "entries_ok (h(p := x)) reg hash"
  proof (rule entries_okI)
    show "(h(p := x)) 0 = None" using E assms(2) by (simp add: entries_ok_def)
  next
    fix i q
    assume m: "map_of reg i = Some q"
    then have "q \<noteq> p" using assms(3) by blast
    with reg_entry [OF E m] show "\<exists>n. (h(p := x)) q = Some n \<and> socket_ptr n = i \<and> reg_node n" by simp
  next
    fix i q
    assume m: "map_of hash i = Some q"
    then have "q \<noteq> p" using assms(4) by blast
    with hash_entry [OF E m] show "\<exists>n. (h(p := x)) q = Some n \<and> socket_ptr n = i \<and> (idle_node n \<or> tx_node n)"
      by simp
  qed
  moreover have "on_air (h(p := x)) hash q = on_air h hash q" for q
    using assms(4) by (cases "q = p") (auto simp: on_air_def)
  then have "lists_ok (h(p := x)) hash cca tx" using L by (simp add: lists_ok_def)
  ultimately show ?thesis using assms(1) by (simp add: wfc_def)
qed

text \<open>Entries that leave a table; then the node itself is removed by \<open>wfc_outside\<close>.\<close>

lemma wfc_leave_reg:
  assumes "wfc h reg hash cca tx" and "h p = Some n" and "map_of reg (socket_ptr n) = Some p"
  shows "wfc (h(p := None)) (snd (um_erase (socket_ptr n) reg)) hash cca tx"
proof -
  let ?reg = "snd (um_erase (socket_ptr n) reg)"
  have T: "tables_ok reg hash" and E: "entries_ok h reg hash" and L: "lists_ok h hash cca tx"
    using assms(1) by (simp_all add: wfc_def)
  have reg: "reg_node n" using E assms(2,3) by (blast dest: reg_class)
  have l: "map_of ?reg = (map_of reg)(socket_ptr n := None)"
    using T by (simp add: tables_ok_def um.look_era)
  have "tables_ok ?reg hash" using T unfolding tables_ok_def l by (auto simp: um.wf_era)
  moreover have "entries_ok h ?reg hash"
    using E unfolding entries_ok_def l by simp
  ultimately have "wfc h ?reg hash cca tx" using L by (simp add: wfc_def)
  then show ?thesis
  proof (rule wfc_outside)
    show "p \<noteq> 0" using E assms(2) by (rule entry_nonnull)
    show "map_of ?reg i \<noteq> Some p" for i
      using E assms(2) by (auto simp: l dest: reg_class)
    show "map_of hash i \<noteq> Some p" for i
      using E assms(2) reg class_disjoint(1,2) by (blast dest: hash_class)
  qed
qed

lemma wfc_leave_hash:
  assumes "wfc h reg hash cca tx" and "h p = Some n" and "map_of hash (socket_ptr n) = Some p"
    and "p \<notin> set cca" and "p \<notin> set tx"
  shows "wfc (h(p := None)) reg (snd (um_erase (socket_ptr n) hash)) cca tx"
proof -
  let ?hash = "snd (um_erase (socket_ptr n) hash)"
  have T: "tables_ok reg hash" and E: "entries_ok h reg hash" and L: "lists_ok h hash cca tx"
    using assms(1) by (simp_all add: wfc_def)
  have l: "map_of ?hash = (map_of hash)(socket_ptr n := None)"
    using T by (simp add: tables_ok_def um.look_era)
  have "tables_ok reg ?hash" using T unfolding tables_ok_def l by (auto simp: um.wf_era)
  moreover have "entries_ok h reg ?hash" using E unfolding entries_ok_def l by simp
  moreover have "lists_ok h ?hash cca tx"
  proof (rule lists_okI)
    show "distinct tx" using L by (rule lists_okD)
  next
    fix q
    show "q \<in> set tx \<longleftrightarrow> on_air h ?hash q"
      using lists_okD(2) [OF L, of q] lists_okD(2) [OF L, of p] assms(3,5)
      by (auto simp: on_air_def l split: if_splits) (metis option.inject)+
  next
    fix q
    assume q: "q \<in> set cca"
    then obtain i where "map_of hash i = Some q" using lists_okD(3) [OF L] by blast
    with q assms(3,4) show "\<exists>i. map_of ?hash i = Some q" by (intro exI [of _ i]) (auto simp: l)
  qed
  ultimately have "wfc h reg ?hash cca tx" by (simp add: wfc_def)
  then show ?thesis
  proof (rule wfc_outside)
    show "p \<noteq> 0" using E assms(2) by (rule entry_nonnull)
    show "map_of ?hash i \<noteq> Some p" for i
      using E assms(2) by (auto simp: l dest: hash_class)
    show "map_of reg i \<noteq> Some p" for i
      using E assms(2,3) class_disjoint(1,2) by (blast dest: hash_class reg_class)
  qed
qed

text \<open>A new node joins the registration map.\<close>

lemma wfc_join:
  assumes "wfc h reg hash cca tx" and "h p = Some n" and "reg_node n"
    and "map_of reg (socket_ptr n) = None" and "map_of hash (socket_ptr n) = None"
  shows "wfc h (um_insert (socket_ptr n) p reg) hash cca tx"
proof -
  have T: "tables_ok reg hash" and E: "entries_ok h reg hash"
    using assms(1) by (simp_all add: wfc_def)
  have l: "map_of (um_insert (socket_ptr n) p reg) = (map_of reg)(socket_ptr n \<mapsto> p)"
    using T assms(4) by (simp add: tables_ok_def um.look_ins_new)
  have "tables_ok (um_insert (socket_ptr n) p reg) hash"
    using T assms(5) unfolding tables_ok_def l by (auto simp: um.wf_ins)
  moreover have "entries_ok h (um_insert (socket_ptr n) p reg) hash"
    using E assms(2,3) unfolding entries_ok_def l by auto
  ultimately show ?thesis using assms(1) by (simp add: wfc_def)
qed

text \<open>A registered node asks for a clear channel; answers shorten the list.\<close>

lemma wfc_cca_add:
  "wfc h reg hash cca tx \<Longrightarrow> map_of hash i = Some p \<Longrightarrow> wfc h reg hash (cca @ [p]) tx"
  by (auto simp: wfc_def lists_ok_def)

lemma wfc_cca_tail: "wfc h reg hash (p # cca) tx \<Longrightarrow> wfc h reg hash cca tx"
  by (auto simp: wfc_def lists_ok_def)

end
