(* ===== verification/Medium_Ops.thy ===== *)
theory Medium_Ops
  imports Medium_Inv
begin

text \<open>
  What the operations of a medium do in a state that satisfies the invariant \<open>wf\<close>: the exact
  resulting state on each branch, that they do not fault when the system calls they make do
  not, and that they keep the invariant. The order is that of the life of a node: answers to
  clear-channel requests, registration, transmission, expiry, deregistration, and joining.
\<close>

section \<open>Sending\<close>

text \<open>The frames multicast and the descriptors closed, from the log of the outside world.\<close>

fun mcast_of :: "io_event \<Rightarrow> byte list list" where
  "mcast_of (McastTx b) = [b]"
| "mcast_of e = []"

definition mcasts :: "io_event list \<Rightarrow> byte list list" where
  "mcasts es = concat (map mcast_of es)"

lemma mcasts_simps [simp]:
  "mcasts [] = []" "mcasts (e # es) = mcast_of e @ mcasts es" "mcasts (xs @ ys) = mcasts xs @ mcasts ys"
  by (simp_all add: mcasts_def)

lemma mcasts_chunks [simp]: "mcasts (map (SockData f) ps) = []"
  by (induction ps) auto

definition fd_of :: "sys \<Rightarrow> nptr \<Rightarrow> int" where
  "fd_of s p = sock_fd (dn_socket (the (heap s p)))"

definition id_of :: "sys \<Rightarrow> nptr \<Rightarrow> u64" where
  "id_of s p = socket_ptr (the (heap s p))"

definition live :: "sys \<Rightarrow> nptr \<Rightarrow> bool" where
  "live s p \<longleftrightarrow> (\<exists>n. heap s p = Some n \<and> socket_ptr n \<noteq> 0)"

text \<open>Updates in a fixed order, the outside world last, so that equal states are equal terms.\<close>

lemma sio_last [simp]:
  "s\<lparr>sio := w, ccaList := c\<rparr> = s\<lparr>ccaList := c, sio := w\<rparr>" "s\<lparr>sio := w, txList := t\<rparr> = s\<lparr>txList := t, sio := w\<rparr>"
  "s\<lparr>sio := w, regListMap := r\<rparr> = s\<lparr>regListMap := r, sio := w\<rparr>"
  "s\<lparr>sio := w, nodeHashMap := r\<rparr> = s\<lparr>nodeHashMap := r, sio := w\<rparr>"
  "s\<lparr>sio := w, heap := h\<rparr> = s\<lparr>heap := h, sio := w\<rparr>" "s\<lparr>sio := w, pm_state := st\<rparr> = s\<lparr>pm_state := st, sio := w\<rparr>"
  "s\<lparr>sio := w, tx_pkts_ok := a\<rparr> = s\<lparr>tx_pkts_ok := a, sio := w\<rparr>"
  "s\<lparr>sio := w, tx_pkts_collided := a\<rparr> = s\<lparr>tx_pkts_collided := a, sio := w\<rparr>"
  "set_node p n (s\<lparr>sio := w\<rparr>) = (set_node p n s)\<lparr>sio := w\<rparr>"
  by (simp_all add: set_node_def)

lemma peer_frame [simp]:
  "fd_of (s\<lparr>sio := w\<rparr>) p = fd_of s p" "id_of (s\<lparr>sio := w\<rparr>) p = id_of s p" "live (s\<lparr>sio := w\<rparr>) p = live s p"
  "fd_of (s\<lparr>ccaList := l\<rparr>) p = fd_of s p" "id_of (s\<lparr>ccaList := l\<rparr>) p = id_of s p"
  "live (s\<lparr>ccaList := l\<rparr>) p = live s p"
  by (simp_all add: fd_of_def id_of_def live_def)

text \<open>
  \<open>told\<close>: data was sent to one descriptor and nothing else happened; when sends do not fail, the
  data is the message.
\<close>

definition told :: "kernel \<Rightarrow> io \<Rightarrow> io \<Rightarrow> int \<Rightarrow> byte list \<Rightarrow> bool" where
  "told k w w' fd m \<longleftrightarrow> (\<exists>ps. sent_chunks w w' fd ps \<and> (send_ok k \<longrightarrow> concat ps = m))"

lemma told_mcasts: "told k w w' fd m \<Longrightarrow> mcasts (io_out w') = mcasts (io_out w)"
  by (auto simp: told_def sent_chunks_def)

lemma told_stream:
  "told k w w' fd m \<Longrightarrow> send_ok k \<Longrightarrow>
     stream f (io_out w') = stream f (io_out w) @ (if f = fd then m else [])"
  by (auto simp: told_def sent_chunks_def stream_chunks)

lemma node_send_told:
  assumes "send_spec k" and "heap s p = Some n" and "socket_ptr n \<noteq> 0"
  obtains rv w where "node_send k p msg s = Inr (rv, s\<lparr>sio := w\<rparr>)"
    "told k (sio s) w (sock_fd (dn_socket n)) (msg (socket_ptr n))"
    "send_ok k \<Longrightarrow> rv = int (length (msg (socket_ptr n)))"
proof -
  let ?m = "msg (socket_ptr n)"
  obtain r w ps rest where L: "sendMsg_loop k (sock_fd (dn_socket n)) ?m 0 (sio s) = Some (r, w)"
      "sent_chunks (sio s) w (sock_fd (dn_socket n)) ps" "?m = concat ps @ rest"
      "r < 0 \<or> (r = 0 + int (length ?m) \<and> rest = [])"
    using sendMsg_loop_returns [OF assms(1)] by blast
  have full: "r = int (length ?m) \<and> concat ps = ?m" if "send_ok k"
    using sendMsg_loop_nonneg [OF that L(1)] L(3,4) by auto
  show thesis
  proof (rule that [of r w])
    show "node_send k p msg s = Inr (r, s\<lparr>sio := w\<rparr>)"
      using L(1) assms(2,3) by (simp add: node_send_def sendMsg_def)
    show "told k (sio s) w (sock_fd (dn_socket n)) ?m" using L(2) full by (auto simp: told_def)
  qed (use full in blast)
qed

lemma live_node: "live s p \<Longrightarrow> \<exists>n. heap s p = Some n \<and> socket_ptr n \<noteq> 0 \<and> fd_of s p = sock_fd (dn_socket n) \<and> id_of s p = socket_ptr n"
  by (auto simp: live_def fd_of_def id_of_def)

lemma reply_told:
  assumes "send_spec k" and "live s p"
  shows "\<exists>w. sendCcaConfirm k p b s = Inr (s\<lparr>sio := w\<rparr>) \<and> told k (sio s) w (fd_of s p) (cca_con_msg (id_of s p) b)"
    and "\<exists>w. sendTxDoneIndication k p r s = Inr (s\<lparr>sio := w\<rparr>)
      \<and> told k (sio s) w (fd_of s p) (tx_done_ind_msg (id_of s p) r)"
    and "\<exists>w. sendDeregistrationConfirm k p s = Inr (s\<lparr>sio := w\<rparr>)
      \<and> told k (sio s) w (fd_of s p) (deregistration_con_msg (id_of s p))"
proof -
  obtain n where n: "heap s p = Some n" "socket_ptr n \<noteq> 0" "fd_of s p = sock_fd (dn_socket n)" "id_of s p = socket_ptr n"
    using live_node [OF assms(2)] by blast
  note send = node_send_told [OF assms(1) n(1,2)]
  show "\<exists>w. sendCcaConfirm k p b s = Inr (s\<lparr>sio := w\<rparr>) \<and> told k (sio s) w (fd_of s p) (cca_con_msg (id_of s p) b)"
    by (rule send [of "\<lambda>i. cca_con_msg i b"]) (auto simp: sendCcaConfirm_def n)
  show "\<exists>w. sendTxDoneIndication k p r s = Inr (s\<lparr>sio := w\<rparr>)
      \<and> told k (sio s) w (fd_of s p) (tx_done_ind_msg (id_of s p) r)"
    by (rule send [of "\<lambda>i. tx_done_ind_msg i r"]) (auto simp: sendTxDoneIndication_def n)
  show "\<exists>w. sendDeregistrationConfirm k p s = Inr (s\<lparr>sio := w\<rparr>)
      \<and> told k (sio s) w (fd_of s p) (deregistration_con_msg (id_of s p))"
    by (rule send [of deregistration_con_msg]) (auto simp: sendDeregistrationConfirm_def n)
qed

lemma wf_live:
  "wf s \<Longrightarrow> registering s p \<Longrightarrow> live s p" "wf s \<Longrightarrow> registered s p \<Longrightarrow> live s p"
  "wf s \<Longrightarrow> p \<in> set (txList s) \<Longrightarrow> live s p" "wf s \<Longrightarrow> p \<in> set (ccaList s) \<Longrightarrow> live s p"
proof -
  assume w: "wf s"
  show r: "registered s q \<Longrightarrow> live s q" for q
    by (rule wf_registered [OF w]) (auto simp: live_def node_class_defs)
  show "registering s p \<Longrightarrow> live s p"
    by (rule wf_registering [OF w]) (auto simp: live_def node_class_defs)
  show "p \<in> set (txList s) \<Longrightarrow> live s p"
    by (rule wf_txList [OF w]) (auto simp: live_def node_class_defs)
  show "p \<in> set (ccaList s) \<Longrightarrow> live s p"
    using wf_cca_registered [OF w] r by blast
qed

section \<open>Clear channel assessment\<close>

definition cca_answer :: "sys \<Rightarrow> int \<Rightarrow> nptr \<Rightarrow> byte list" where
  "cca_answer s fd p = (if fd_of s p = fd then cca_con_msg (id_of s p) (pm_state s = IDLE) else [])"

lemma cca_answer_frame [simp]: "cca_answer (s\<lparr>sio := w\<rparr>) fd = cca_answer s fd"
  by (simp add: cca_answer_def fun_eq_iff)

lemma processCca_loop_answers:
  assumes "send_spec k" and "\<forall>p \<in> set l. live s p"
  shows "\<exists>w. processCca_loop k l (s\<lparr>ccaList := l\<rparr>) = Inr (s\<lparr>ccaList := [], sio := w\<rparr>)
    \<and> mcasts (io_out w) = mcasts (io_out (sio s))
    \<and> (send_ok k \<longrightarrow> (\<forall>fd. stream fd (io_out w) = stream fd (io_out (sio s)) @
         concat (map (cca_answer s fd) l)))"
  using assms(2)
proof (induction l arbitrary: s)
  case Nil
  then show ?case by (intro exI [of _ "sio s"]) simp
next
  case (Cons p l)
  let ?s = "s\<lparr>ccaList := l\<rparr>"
  have "live ?s p" using Cons.prems by simp
  from reply_told(1) [OF assms(1) this, of "pm_state s = IDLE"] obtain w where
    w: "sendCcaConfirm k p (pm_state s = IDLE) ?s = Inr (?s\<lparr>sio := w\<rparr>)"
       "told k (sio s) w (fd_of s p) (cca_con_msg (id_of s p) (pm_state s = IDLE))"
    by auto
  have "\<forall>q \<in> set l. live (s\<lparr>sio := w\<rparr>) q" using Cons.prems by simp
  from Cons.IH [OF this] obtain w' where
    w': "processCca_loop k l (?s\<lparr>sio := w\<rparr>) = Inr (s\<lparr>ccaList := [], sio := w'\<rparr>)"
      "mcasts (io_out w') = mcasts (io_out w)"
      "send_ok k \<longrightarrow> (\<forall>fd. stream fd (io_out w') = stream fd (io_out w) @
         concat (map (cca_answer s fd) l))"
    by auto
  have "processCca_loop k (p # l) (s\<lparr>ccaList := p # l\<rparr>) = Inr (s\<lparr>ccaList := [], sio := w'\<rparr>)"
    using live_node [of s p] Cons.prems w(1) w'(1) by (auto simp: getNodeId_def)
  then show ?case
    using w'(2,3) told_mcasts [OF w(2)] told_stream [OF w(2)]
    by (intro exI [of _ w']) (auto simp: cca_answer_def [of s _ p])
qed

text \<open>
  C13: \<^verbatim>\<open>processCcaList\<close> returns with the list empty and nothing else changed but the data sent. When
  sends do not fail, every node that asked gets one confirm per request, in the order of the
  requests, which says that the channel is clear exactly when the medium is \<open>IDLE\<close>, and no other
  socket gets anything.
\<close>

theorem processCcaList_answers_all:
  assumes "wf s" and "send_spec k"
  shows "\<exists>w. processCcaList k s = Inr (s\<lparr>ccaList := [], sio := w\<rparr>)
    \<and> (send_ok k \<longrightarrow> (\<forall>fd. stream fd (io_out w) = stream fd (io_out (sio s)) @
         concat (map (\<lambda>p. cca_con_msg (id_of s p) (pm_state s = IDLE)) (filter (\<lambda>p. fd_of s p = fd) (ccaList s)))))"
proof -
  have "concat (map (cca_answer s fd) l)
      = concat (map (\<lambda>p. cca_con_msg (id_of s p) (pm_state s = IDLE)) (filter (\<lambda>p. fd_of s p = fd) l))" for fd l
    by (induction l) (simp_all add: cca_answer_def)
  moreover have "\<forall>p \<in> set (ccaList s). live s p" using wf_live(4) [OF assms(1)] by blast
  ultimately show ?thesis
    using processCca_loop_answers [OF assms(2), of "ccaList s" s] by (auto simp: processCcaList_def)
qed

end
