(* ===== verification/Node_Life.thy ===== *)
theory Node_Life
  imports Medium_Ops
begin

text \<open>
  The life of a node under the invariant: joining, registration confirm, data indication, clear-channel
  request, deregistration, and what \<^verbatim>\<open>readMsg\<close> can do. For each handler an inversion rule gives the
  states in which it succeeds and the state it leaves, and a lemma shows that the invariant is
  kept. Handlers called in the wrong state throw.
\<close>

section \<open>Joining\<close>

text \<open>A new node: registering, its registration timer \<open>t\<close> running, not yet attached to a medium.\<close>

definition newcomer :: "int \<Rightarrow> u64 \<Rightarrow> DeviceNodeTimer \<Rightarrow> DeviceNode" where
  "newcomer fd sp t = (DeviceNode_pimpl fd sp)\<lparr>regTimer := t, curState := Some RegisteringState\<rparr>"

lemma node_send_inv:
  assumes "node_send k p msg s = Inr (rv, s')"
  shows "\<exists>w. s' = s\<lparr>sio := w\<rparr>" "\<exists>n. heap s p = Some n \<and> socket_ptr n \<noteq> 0"
  using assms by (auto simp: node_send_def split: prod.splits)

lemma set_node_eq [simp]: "set_node p a (set_node p b s) = set_node p a s"
  by (simp add: set_node_def)

lemma DeviceNode_new_inv:
  assumes "DeviceNode_new k p sp fd s = Inr s'"
  obtains t w where "s' = set_node p (newcomer fd sp t) (s\<lparr>sio := w\<rparr>)" "tmr_started t" "sp \<noteq> 0"
proof -
  obtain rv w where w: "setCloseOnExec k (Socket_new fd) True (sio s) = (rv, w)" by fastforce
  let ?s = "set_node p (DeviceNode_pimpl fd sp) s"
  from assms obtain s3 s4 where s: "sendRegistrationRequest k p (?s\<lparr>sio := w\<rparr>) = Inr s3"
      "startRegistrationTimer k p s3 = Inr s4" "bindE (node p s4) (\<lambda>n. Inr (set_node p (n\<lparr>curState := Some RegisteringState\<rparr>) s4)) = Inr s'"
    by (auto simp: DeviceNode_new_def Let_def w)
  from s(1) obtain rv where "node_send k p registration_req_msg (?s\<lparr>sio := w\<rparr>) = Inr (rv, s3)"
    by (auto simp: sendRegistrationRequest_def split: prod.splits)
  from node_send_inv [OF this] obtain w3 where "s3 = ?s\<lparr>sio := w3\<rparr>" and sp: "sp \<noteq> 0"
    by (auto simp: DeviceNode_pimpl_def)
  then show thesis
    using s(2,3)
    by (auto simp: startRegistrationTimer_def timer_start_def timer_arm_def newcomer_def
        intro!: that split: prod.splits if_splits)
qed

lemma addNode_inv:
  assumes "addNode k p s = Inr s'" and "heap s p = Some n"
  shows "s' = set_node p (n\<lparr>dn_medium := True\<rparr>)
    (s\<lparr>regListMap := um_insert (socket_ptr n) p (regListMap s), sio := tick (sio s)\<rparr>)"
  using assms
  by (auto simp: addNode_def addNode_poll_def addNode_insert_def setMedium_def getSocketFd_def getNodeId_def Let_def
      set_node_def split: if_splits)

lemma wf_join:
  assumes "wf s" and "p \<noteq> 0" "heap s p = None" and "sp \<noteq> 0" "tmr_started t"
    and "map_of (regListMap s) sp = None" "map_of (nodeHashMap s) sp = None"
  shows "wf (set_node p ((newcomer fd sp t)\<lparr>dn_medium := True\<rparr>) (s\<lparr>regListMap := um_insert sp p (regListMap s), sio := w\<rparr>))"
proof -
  let ?n = "(newcomer fd sp t)\<lparr>dn_medium := True\<rparr>"
  have E: "entries_ok (heap s) (regListMap s) (nodeHashMap s)" using assms(1) by (rule wf_entries)
  have "wfc ((heap s)(p := Some ?n)) (regListMap s) (nodeHashMap s) (ccaList s) (txList s)"
    using assms(1,2,3) reg_entry [OF E] hash_entry [OF E] by (intro wfc_outside) (fastforce simp: wf_def)+
  moreover have "reg_node ?n" "socket_ptr ?n = sp"
    using assms(4,5) by (simp_all add: reg_node_def newcomer_def DeviceNode_pimpl_def DeviceNodeTimer_new_def)
  ultimately show ?thesis
    using wfc_join [of _ "regListMap s" "nodeHashMap s" "ccaList s" "txList s" p ?n] assms(6,7)
    by (simp add: wf_def)
qed

text \<open>Creation and joining together, as \<^verbatim>\<open>NetworkSimulator::start\<close> does for an accepted client.\<close>

definition join :: "kernel \<Rightarrow> nptr \<Rightarrow> u64 \<Rightarrow> int \<Rightarrow> sys \<Rightarrow> sys res" where
  "join k p sp fd s = bindE (DeviceNode_new k p sp fd s) (addNode k p)"

definition fresh :: "sys \<Rightarrow> nptr \<Rightarrow> u64 \<Rightarrow> bool" where
  "fresh s p sp \<longleftrightarrow> p \<noteq> 0 \<and> heap s p = None \<and> map_of (regListMap s) sp = None \<and> map_of (nodeHashMap s) sp = None"

lemma join_inv:
  assumes "join k p sp fd s = Inr s'"
  obtains t w where "s' = set_node p ((newcomer fd sp t)\<lparr>dn_medium := True\<rparr>)
      (s\<lparr>regListMap := um_insert sp p (regListMap s), sio := w\<rparr>)" "tmr_started t" "sp \<noteq> 0"
proof -
  from assms obtain s1 where s1: "DeviceNode_new k p sp fd s = Inr s1" "addNode k p s1 = Inr s'"
    by (auto simp: join_def)
  from s1(1) show thesis
  proof (rule DeviceNode_new_inv)
    fix t w
    assume e: "s1 = set_node p (newcomer fd sp t) (s\<lparr>sio := w\<rparr>)" and t: "tmr_started t" "sp \<noteq> 0"
    have "s' = set_node p ((newcomer fd sp t)\<lparr>dn_medium := True\<rparr>)
      (s\<lparr>regListMap := um_insert sp p (regListMap s), sio := tick w\<rparr>)"
      using addNode_inv [OF s1(2), of "newcomer fd sp t"] e
      by (simp add: newcomer_def DeviceNode_pimpl_def set_node_def)
    with t show thesis by (intro that) auto
  qed
qed

lemma join_keeps_wf:
  assumes "wf s" and "fresh s p sp" and "join k p sp fd s = Inr s'"
  shows "wf s' \<and> registering s' p"
  using assms(3)
proof (rule join_inv)
  fix t w
  assume e: "s' = set_node p ((newcomer fd sp t)\<lparr>dn_medium := True\<rparr>)
      (s\<lparr>regListMap := um_insert sp p (regListMap s), sio := w\<rparr>)" and t: "tmr_started t" "sp \<noteq> 0"
  have "map_of (um_insert sp p (regListMap s)) sp = Some p"
    using assms(1,2) by (simp add: fresh_def um.look_ins_new wf_def wfc_defs)
  then show ?thesis
    using wf_join [OF assms(1)] assms(2) t unfolding e fresh_def registering_def by auto
qed

lemma setCloseOnExec_out:
  "setCloseOnExec k sk b w = (rv, w') \<Longrightarrow> stream fd (io_out w') = stream fd (io_out w)"
  by (auto simp: setCloseOnExec_def Let_def split: if_splits)

lemma join_succeeds:
  assumes "send_ok k" and "timers_ok k" and "\<And>t fd. 0 \<le> k_epoll_ctl k t fd" and "sp \<noteq> 0"
  shows "\<exists>s'. join k p sp fd s = Inr s' \<and>
    (\<forall>f. stream f (io_out (sio s')) = stream f (io_out (sio s)) @ (if f = fd then registration_req_msg sp else []))"
proof -
  obtain rv w where w: "setCloseOnExec k (Socket_new fd) True (sio s) = (rv, w)" by fastforce
  let ?s = "(set_node p (DeviceNode_pimpl fd sp) s)\<lparr>sio := w\<rparr>"
  have n: "heap ?s p = Some (DeviceNode_pimpl fd sp)" "socket_ptr (DeviceNode_pimpl fd sp) \<noteq> 0"
      "send_spec k" "sock_fd (dn_socket (DeviceNode_pimpl fd sp)) = fd" "socket_ptr (DeviceNode_pimpl fd sp) = sp"
    using assms(1,4) by (simp_all add: DeviceNode_pimpl_def send_ok_def Socket_new_def setSockFd_def)
  obtain rv2 w2 where w2: "node_send k p registration_req_msg ?s = Inr (rv2, ?s\<lparr>sio := w2\<rparr>)"
      "told k (sio ?s) w2 fd (registration_req_msg sp)" "send_ok k \<Longrightarrow> rv2 = int (length (registration_req_msg sp))"
    by (rule node_send_told [OF n(3,1,2), of registration_req_msg, unfolded n(4,5)]) blast
  have req: "sendRegistrationRequest k p ?s = Inr (?s\<lparr>sio := w2\<rparr>)"
    using w2(1) w2(3) [OF assms(1)] by (simp add: sendRegistrationRequest_def length_msgs)
  have new: "DeviceNode_new k p sp fd s =
      Inr (set_node p (newcomer fd sp ((regTimer (DeviceNode_pimpl fd sp))\<lparr>tmr_started := True\<rparr>)) (s\<lparr>sio := tick (tick w2)\<rparr>))"
    using req assms(2) by (simp add: DeviceNode_new_def Let_def w startRegistrationTimer_def timer_start_def timer_arm_def
        timers_ok_def newcomer_def DeviceNode_pimpl_def DeviceNodeTimer_new_def)
  have "\<exists>s'. join k p sp fd s = Inr s' \<and> sio s' = tick (tick (tick w2))"
    using assms(3) unfolding join_def new
    by (auto simp: addNode_def addNode_poll_def addNode_insert_def setMedium_def getSocketFd_def getNodeId_def Let_def
        not_less EEXIST_def)
  then show ?thesis
    using told_stream [OF w2(2) assms(1)] setCloseOnExec_out [OF w] by auto
qed

lemma ok_kernel_send_ok: "send_ok ok_kernel" and ok_kernel_epoll: "0 \<le> k_epoll_ctl ok_kernel t fd"
  using ok_kernel_specs by (simp_all add: send_ok_def ok_kernel_def)

text \<open>A medium as its constructor leaves it, with no nodes; and after one node has joined.\<close>

definition empty_medium :: sys where
  "empty_medium = \<lparr> heap = Map.empty, sio = \<lparr>io_tick = 0, io_out = []\<rparr>, pm_state = STOPPED, curTime = Timespec 0 0,
     nodeHashMap = [], regListMap = [], ccaList = [], txList = [],
     tx_pkts_ok = 0, tx_pkts_collided = 0, tx_pkts_failed = 0 \<rparr>"

lemma wf_empty_medium: "wf empty_medium"
  by (simp add: wf_def wfc_defs empty_medium_def um_wf_def on_air_def)

definition one_joined :: sys where
  "one_joined = projr (join ok_kernel 0x1000 0x2000 7 empty_medium)"

lemma one_joined_eq: "join ok_kernel 0x1000 0x2000 7 empty_medium = Inr one_joined"
  using join_succeeds [OF ok_kernel_send_ok ok_kernel_timers ok_kernel_epoll, of "0x2000" "0x1000" 7 empty_medium]
  by (auto simp: one_joined_def)

lemma one_joined_wf: "wf one_joined \<and> registering one_joined 0x1000"
  by (rule join_keeps_wf [OF wf_empty_medium _ one_joined_eq]) (simp add: fresh_def empty_medium_def)

section \<open>Registration and requests of a node\<close>

definition member :: "sys \<Rightarrow> nptr \<Rightarrow> bool" where
  "member s p \<longleftrightarrow> registering s p \<or> registered s p"

lemma wf_member:
  assumes "wf s" and "member s p"
  obtains (reg) n where "heap s p = Some n" "p \<noteq> 0" "reg_node n" "map_of (regListMap s) (socket_ptr n) = Some p"
  | (idle) n where "heap s p = Some n" "p \<noteq> 0" "idle_node n" "map_of (nodeHashMap s) (socket_ptr n) = Some p"
  | (tx) n where "heap s p = Some n" "p \<noteq> 0" "tx_node n" "map_of (nodeHashMap s) (socket_ptr n) = Some p"
  using assms unfolding member_def by (metis wf_registered wf_registering)

text \<open>The node after its registration has been confirmed, and after it has begun to transmit.\<close>

definition confirmed :: "byte list \<Rightarrow> byte list \<Rightarrow> DeviceNode \<Rightarrow> DeviceNode" where
  "confirmed o1 o2 n = n\<lparr>os := o1, osVersion := o2, regTimer := (regTimer n)\<lparr>tmr_started := False\<rparr>,
     curState := Some ActiveState\<rparr>"

definition transmitting :: "NetSimPacket \<Rightarrow> DeviceNodeTimer \<Rightarrow> DeviceNode \<Rightarrow> DeviceNode" where
  "transmitting pkt t n = n\<lparr>txTimer := t, txPkt := Some pkt, curState := Some TxState\<rparr>"

lemma confirmed_idle: "reg_node n \<Longrightarrow> idle_node (confirmed o1 o2 n)" "socket_ptr (confirmed o1 o2 n) = socket_ptr n"
  by (simp_all add: confirmed_def node_class_defs)

lemma transmitting_tx:
  "idle_node n \<Longrightarrow> tmr_started t \<Longrightarrow> wf_packet pkt \<Longrightarrow> tx_node (transmitting pkt t n)"
  "socket_ptr (transmitting pkt t n) = socket_ptr n"
  by (simp_all add: transmitting_def node_class_defs)

text \<open>The effect of a registration confirm on the tables.\<close>

definition registered_as :: "u64 \<Rightarrow> nptr \<Rightarrow> sys \<Rightarrow> sys" where
  "registered_as i p s =
     s\<lparr>regListMap := snd (um_erase i (regListMap s)), nodeHashMap := um_insert i p (nodeHashMap s)\<rparr>"

lemma wf_um: "wf s \<Longrightarrow> um_wf (regListMap s)" "wf s \<Longrightarrow> um_wf (nodeHashMap s)"
  by (simp_all add: wf_def wfc_defs)

lemma registerNode_ok:
  assumes "um_wf (regListMap s)" and "heap s p = Some n" and "map_of (regListMap s) (socket_ptr n) = Some p"
  shows "registerNode p s = Inr (registered_as (socket_ptr n) p s)"
  using assms um.era_count_one [OF assms(1), of "socket_ptr n"]
  by (simp add: registerNode_def getNodeId_def registered_as_def case_prod_beta)

lemma handleRegistrationConfirm_reg:
  assumes "wf s" and "heap s p = Some n" "reg_node n" "map_of (regListMap s) (socket_ptr n) = Some p"
    and "strncpy 32 (drop 18 m) = Inr o1" "strncpy 32 (drop 50 m) = Inr o2"
  shows "handleRegistrationConfirm p m s =
    Inr (set_node p (confirmed o1 o2 n) (registered_as (socket_ptr n) p (s\<lparr>sio := tick (sio s)\<rparr>)))"
proof -
  have u: "um_wf (regListMap s)" using assms(1) by (simp add: wf_um)
  show ?thesis
    using assms(2-6) registerNode_ok [of "set_node p x (s\<lparr>sio := tick (sio s)\<rparr>)" p for x] u
    by (simp add: handleRegistrationConfirm_def state_of_def reg_node_def stopRegistrationTimer_def timer_stop_def
        getMedium_def install_state_def set_node_eq confirmed_def registered_as_def
        set_node_def)
qed


lemma handleRegistrationConfirm_inv:
  assumes "wf s" and "member s p" and "handleRegistrationConfirm p m s = Inr s'"
  obtains n o1 o2 where "heap s p = Some n" "reg_node n" "map_of (regListMap s) (socket_ptr n) = Some p"
    "strncpy 32 (drop 18 m) = Inr o1" "strncpy 32 (drop 50 m) = Inr o2"
    "s' = set_node p (confirmed o1 o2 n) (registered_as (socket_ptr n) p (s\<lparr>sio := tick (sio s)\<rparr>))"
proof -
  from assms(3) obtain o1 o2 where o: "strncpy 32 (drop 18 m) = Inr o1" "strncpy 32 (drop 50 m) = Inr o2"
    by (auto simp: handleRegistrationConfirm_def)
  from assms(1,2) show thesis
  proof (cases rule: wf_member)
    case (reg n)
    then show ?thesis
      using handleRegistrationConfirm_reg [OF assms(1) reg(1,3,4) o] assms(3) o by (intro that) auto
  qed (use assms(3) o in \<open>auto simp: handleRegistrationConfirm_def state_of_def node_class_defs\<close>)
qed

lemma wf_register:
  assumes "wf s" and "heap s p = Some n" "reg_node n" "map_of (regListMap s) (socket_ptr n) = Some p"
  shows "wf (set_node p (confirmed o1 o2 n) (registered_as (socket_ptr n) p (s\<lparr>sio := w\<rparr>)))"
  using wfc_register [OF assms(1) [unfolded wf_def] assms(2,4) confirmed_idle(2) confirmed_idle(1) [OF assms(3)]]
  by (simp add: wf_def registered_as_def)

text \<open>A data indication of an idle node.\<close>

lemma startTxTimer_ok:
  assumes "timers_ok k" and "heap s p = Some n" and "\<not> tmr_started (txTimer n)"
  shows "\<exists>t. startTxTimer k p ms s = Inr (set_node p (n\<lparr>txTimer := t\<rparr>) (s\<lparr>sio := tick (tick (sio s))\<rparr>)) \<and> tmr_started t
    \<and> (\<exists>u. t = (txTimer n)\<lparr>it_value := u, tmr_started := True\<rparr>)"
  using assms by (auto simp: startTxTimer_def timer_start_ms_def timer_arm_def timers_ok_def Let_def)

lemma startTxTimer_inv:
  assumes "startTxTimer k p ms s = Inr s'" and "heap s p = Some n"
  obtains t where "s' = set_node p (n\<lparr>txTimer := t\<rparr>) (s\<lparr>sio := tick (tick (sio s))\<rparr>)" "tmr_started t"
  using assms by (auto simp: startTxTimer_def timer_start_ms_def timer_arm_def Let_def split: if_splits)

lemma handleDataIndication_inv:
  assumes "wf s" and "member s p" and "handleDataIndication k p m s = Inr s'"
  obtains n pkt t where "heap s p = Some n" "idle_node n" "map_of (nodeHashMap s) (socket_ptr n) = Some p"
    "NetSimPacket_new m p = Inr pkt" "tmr_started t"
    "s' = set_node p (transmitting pkt t n) (s\<lparr>txList := txList s @ [p], sio := tick (tick (sio s))\<rparr>)"
proof -
  from assms(3) obtain pkt where pkt: "NetSimPacket_new m p = Inr pkt"
    by (auto simp: handleDataIndication_def)
  from assms(1,2) show thesis
  proof (cases rule: wf_member)
    case (idle n)
    with assms(3) pkt obtain ack s1 where s1: "isAck pkt = Inr ack"
        "startTxTimer k p (if ack then 0 else getTimeOnWire pkt) s = Inr s1"
      and rest: "bindE (setTxPacket p (Some pkt) s1) (\<lambda>s2. bindE (getMedium p s2) (\<lambda>_. bindE (addNodeToTxList p s2)
          (\<lambda>s3. install_state p (Some TxState, s3)))) = Inr s'"
      by (auto simp: handleDataIndication_def state_of_def idle_node_def bindE_assoc)
    from startTxTimer_inv [OF s1(2) idle(1)] obtain t where
      t: "s1 = set_node p (n\<lparr>txTimer := t\<rparr>) (s\<lparr>sio := tick (tick (sio s))\<rparr>)" "tmr_started t" by blast
    have "s' = set_node p (transmitting pkt t n) (s\<lparr>txList := txList s @ [p], sio := tick (tick (sio s))\<rparr>)"
      using rest idle(2,3) unfolding t(1)
      by (auto simp: setTxPacket_def getMedium_def addNodeToTxList_def getNodeId_def install_state_def idle_node_def
          set_node_def transmitting_def)
    with idle pkt t(2) show ?thesis by (intro that) auto
  qed (use assms(3) pkt in \<open>auto simp: handleDataIndication_def state_of_def node_class_defs\<close>)
qed

lemma wf_begin_tx:
  assumes "wf s" and "heap s p = Some n" "idle_node n" "map_of (nodeHashMap s) (socket_ptr n) = Some p"
    and "tmr_started t" "wf_packet pkt"
  shows "wf (set_node p (transmitting pkt t n) (s\<lparr>txList := txList s @ [p]\<rparr>))"
  using wfc_begin_tx [OF assms(1) [unfolded wf_def] assms(2,4,3) transmitting_tx(2) transmitting_tx(1) [OF assms(3,5,6)]]
  by (simp add: wf_def)

text \<open>A clear-channel request.\<close>

lemma handleCcaRequest_inv:
  assumes "wf s" and "member s p" and "handleCcaRequest p s = Inr s'"
  shows "registered s p \<and> s' = s\<lparr>ccaList := ccaList s @ [p]\<rparr>"
  using assms(1,2)
proof (cases rule: wf_member)
  case (reg n)
  with assms(3) show ?thesis by (auto simp: handleCcaRequest_def addNodeToCcaList_def state_of_def getMedium_def node_class_defs)
next
  case (idle n)
  with assms(3) show ?thesis
    by (auto simp: handleCcaRequest_def addNodeToCcaList_def state_of_def getMedium_def node_class_defs install_state_def
        registered_def)
next
  case (tx n)
  with assms(3) show ?thesis
    by (auto simp: handleCcaRequest_def addNodeToCcaList_def state_of_def getMedium_def node_class_defs install_state_def
        registered_def)
qed

lemma wf_cca_add: "wf s \<Longrightarrow> registered s p \<Longrightarrow> wf (s\<lparr>ccaList := ccaList s @ [p]\<rparr>)"
  by (auto simp: wf_def registered_def intro: wfc_cca_add)


text \<open>The example medium after its node has been confirmed.\<close>

definition one_registered :: sys where
  "one_registered = set_node 0x1000 (confirmed (replicate 32 65) (replicate 32 66) (the (heap one_joined 0x1000)))
     (registered_as 0x2000 0x1000 one_joined)"

lemma one_joined_node:
  "\<exists>n. heap one_joined 0x1000 = Some n \<and> reg_node n \<and> socket_ptr n = 0x2000
    \<and> map_of (regListMap one_joined) 0x2000 = Some 0x1000 \<and> txList one_joined = [] \<and> ccaList one_joined = []
    \<and> nodeHashMap one_joined = [] \<and> sock_fd (dn_socket n) = 7"
  using one_joined_eq
proof (rule join_inv)
  fix t w
  assume e: "one_joined = set_node 0x1000 ((newcomer 7 0x2000 t)\<lparr>dn_medium := True\<rparr>)
      (empty_medium\<lparr>regListMap := um_insert 0x2000 0x1000 (regListMap empty_medium), sio := w\<rparr>)"
    and t: "tmr_started t"
  show ?thesis
    unfolding e using t
    by (simp add: empty_medium_def um_insert_def newcomer_def DeviceNode_pimpl_def reg_node_def DeviceNodeTimer_new_def
        Socket_new_def setSockFd_def)
qed

lemma one_registered_wf:
  "wf one_registered \<and> registered one_registered 0x1000
    \<and> (\<exists>n. heap one_registered 0x1000 = Some n \<and> idle_node n \<and> sock_fd (dn_socket n) = 7)"
proof -
  obtain n where n: "heap one_joined 0x1000 = Some n" "reg_node n" "socket_ptr n = 0x2000"
      "map_of (regListMap one_joined) 0x2000 = Some 0x1000" "sock_fd (dn_socket n) = 7" "nodeHashMap one_joined = []"
    using one_joined_node by blast
  have "wf one_registered"
    using wf_register [of one_joined "0x1000" n _ _ "sio one_joined"] n one_joined_wf
    by (simp add: one_registered_def)
  moreover have "registered one_registered 0x1000"
    using n(6) by (auto simp: registered_def one_registered_def registered_as_def um_insert_def)
  ultimately show ?thesis
    using n(1,2,5) confirmed_idle(1) by (simp add: one_registered_def confirmed_def)
qed

lemma one_registered_lists: "txList one_registered = []" "ccaList one_registered = []"
  using one_joined_node by (auto simp: one_registered_def registered_as_def)

section \<open>Leaving\<close>

text \<open>The outside world when a node is deleted: its timer is stopped if it runs, its socket closed.\<close>

definition closing :: "DeviceNode \<Rightarrow> io \<Rightarrow> io" where
  "closing n w = Socket_delete (dn_socket n) (snd (timer_stop (regTimer n) w))"

lemma closing_later: "io_tick w \<le> io_tick (closing n w)"
  by (simp add: closing_def Socket_delete_def timer_stop_def)

lemma closing_out: "io_out (closing n w) = io_out w @ (if sock_fd (dn_socket n) \<noteq> - 1 then [CloseFd (sock_fd (dn_socket n))] else [])"
  by (simp add: closing_def Socket_delete_def timer_stop_def)

lemma delete_node_ok:
  "heap s p = Some n \<Longrightarrow> delete_node p s = Inr (s\<lparr>heap := (heap s)(p := None), sio := closing n (sio s)\<rparr>)"
  by (simp add: delete_node_def stopRegistrationTimer_def closing_def case_prod_beta timer_stop_def set_node_def)

definition departed :: "u64 \<Rightarrow> nptr \<Rightarrow> DeviceNode \<Rightarrow> sys \<Rightarrow> sys" where
  "departed i p n s = s\<lparr>heap := (heap s)(p := None), regListMap := snd (um_erase i (regListMap s)),
     nodeHashMap := snd (um_erase i (nodeHashMap s)), sio := closing n (sio s)\<rparr>"

lemma um_erase_absent: "um_wf m \<Longrightarrow> map_of m i = None \<Longrightarrow> snd (um_erase i m) = m"
  by (auto simp: um_erase_def map_of_eq_None_iff intro!: filter_True)

lemma wf_tables_disjoint:
  assumes "wf s"
  shows "map_of (regListMap s) i = Some p \<Longrightarrow> snd (um_erase i (nodeHashMap s)) = nodeHashMap s"
    and "map_of (nodeHashMap s) i = Some p \<Longrightarrow> snd (um_erase i (regListMap s)) = regListMap s"
    and "map_of (nodeHashMap s) i = Some p \<Longrightarrow> map_of (regListMap s) i = None"
proof -
  have d: "dom (map_of (regListMap s)) \<inter> dom (map_of (nodeHashMap s)) = {}"
    using assms by (simp add: wf_def wfc_def tables_ok_def)
  show n: "map_of (nodeHashMap s) i = Some p \<Longrightarrow> map_of (regListMap s) i = None" using d by auto
  show "map_of (regListMap s) i = Some p \<Longrightarrow> snd (um_erase i (nodeHashMap s)) = nodeHashMap s"
    using d by (intro um_erase_absent wf_um assms) auto
  show "map_of (nodeHashMap s) i = Some p \<Longrightarrow> snd (um_erase i (regListMap s)) = regListMap s"
    using n by (intro um_erase_absent wf_um assms)
qed

lemma deregisterNode_reg:
  assumes "wf s" and "heap s p = Some n" and "map_of (regListMap s) (socket_ptr n) = Some p"
  shows "deregisterNode p s = Inr (departed (socket_ptr n) p n s)"
  using um.era_count_one [OF wf_um(1) [OF assms(1)], of "socket_ptr n"] wf_tables_disjoint(1) [OF assms(1,3)] assms(2,3)
  by (simp add: deregisterNode_def getNodeId_def case_prod_beta delete_node_ok departed_def)

lemma deregisterNode_hash:
  assumes "wf s" and "heap s p = Some n" and "map_of (nodeHashMap s) (socket_ptr n) = Some p"
  shows "deregisterNode p s = Inr (departed (socket_ptr n) p n s)"
  using um.era_count_one [OF wf_um(1) [OF assms(1)], of "socket_ptr n"]
    um.era_count_one [OF wf_um(2) [OF assms(1)], of "socket_ptr n"] wf_tables_disjoint(2,3) [OF assms(1,3)] assms(2,3)
  by (simp add: deregisterNode_def getNodeId_def case_prod_beta delete_node_ok departed_def)

lemma deregisterNode_member:
  assumes "wf s" and "member s p"
  shows "\<exists>n. heap s p = Some n \<and> deregisterNode p s = Inr (departed (socket_ptr n) p n s)"
  using assms by (cases rule: wf_member) (use assms(1) in \<open>auto simp: deregisterNode_reg deregisterNode_hash\<close>)

lemma wf_departed:
  assumes "wf s" and "member s p" and "heap s p = Some n" and "p \<notin> set (ccaList s)" "p \<notin> set (txList s)"
  shows "wf (departed (socket_ptr n) p n s)"
proof -
  note hash = wfc_leave_hash [OF assms(1) [unfolded wf_def] assms(3) _ assms(4,5)] wf_tables_disjoint(2) [OF assms(1)]
  note reg = wfc_leave_reg [OF assms(1) [unfolded wf_def] assms(3)] wf_tables_disjoint(1) [OF assms(1)]
  from assms(1,2) show ?thesis
    by (cases rule: wf_member) (use hash reg assms(3) in \<open>auto simp: wf_def departed_def\<close>)
qed


lemma member_departed:
  assumes "wf s" and "member s p" and "q \<noteq> p" and "heap s p = Some n"
  shows "member (departed (socket_ptr n) p n (s\<lparr>sio := w\<rparr>)) q = member s q"
proof -
  have "map_of (regListMap s) (socket_ptr n) \<noteq> Some q" "map_of (nodeHashMap s) (socket_ptr n) \<noteq> Some q"
    using assms(1,2)
    by (cases rule: wf_member; use assms(3,4) wf_tables_disjoint(3) [OF assms(1)] in \<open>force\<close>)+
  moreover have "map_of (regListMap (departed (socket_ptr n) p n (s\<lparr>sio := w\<rparr>))) = (map_of (regListMap s))(socket_ptr n := None)"
    "map_of (nodeHashMap (departed (socket_ptr n) p n (s\<lparr>sio := w\<rparr>))) = (map_of (nodeHashMap s))(socket_ptr n := None)"
    using wf_um [OF assms(1)] by (simp_all add: departed_def um.look_era)
  ultimately show ?thesis
    unfolding member_def registered_def registering_def by (metis fun_upd_apply option.distinct(1))
qed

lemma member_frame [simp]:
  "member (s\<lparr>sio := w\<rparr>) p = member s p" "registered (s\<lparr>sio := w\<rparr>) p = registered s p"
  "registering (s\<lparr>sio := w\<rparr>) p = registering s p"
  by (simp_all add: member_def registered_def registering_def)

lemma handleDeregistrationRequest_inv:
  assumes "wf s" and "member s p" and "handleDeregistrationRequest k p s = Inr s'"
  obtains n w where "heap s p = Some n" "s' = departed (socket_ptr n) p n (s\<lparr>sio := w\<rparr>)"
proof -
  from assms(3) obtain w where w: "deregisterNode p (s\<lparr>sio := w\<rparr>) = Inr s'"
    by (auto simp: handleDeregistrationRequest_def sendDeregistrationConfirm_def st_handleDeregistrationRequest_def
        install_state_def dest!: node_send_inv(1) split: prod.splits)
  obtain n where n: "heap s p = Some n" "deregisterNode p (s\<lparr>sio := w\<rparr>) = Inr (departed (socket_ptr n) p n (s\<lparr>sio := w\<rparr>))"
    using deregisterNode_member [of "s\<lparr>sio := w\<rparr>" p] assms(1,2) by auto
  with w show thesis by (intro that) auto
qed

section \<open>Reading a message\<close>

text \<open>What is known of a message that is acted on: it has a header with a blanked checksum, the type, the version and the id of the node.\<close>

definition accepted_msg :: "u64 \<Rightarrow> u16 \<Rightarrow> byte list \<Rightarrow> bool" where
  "accepted_msg i t d \<longleftrightarrow> HDR_SZ \<le> length d \<and> get CKSUM_OFF 2 d = le_bytes 2 (0 :: u16) \<and> ntohs (hdr_msg_type (hdr_of d)) = t
     \<and> ntohl (hdr_interface_version (hdr_of d)) = NETSIM_INTERFACE_VERSION \<and> ntohll (hdr_node_id (hdr_of d)) = i"

lemma process_msg_inv:
  assumes "process_msg k p len m s = Inr s'"
  shows "s' = s \<or> (\<exists>t d n. dispatch k p t d s = Inr s' \<and> heap s p = Some n \<and> accepted_msg (socket_ptr n) t d)"
proof -
  let ?d = "put 0 (le_bytes 2 (htons len)) (clear_cksum m)"
  have "accepted_msg i t ?d \<longleftrightarrow> ntohs (hdr_msg_type (hdr_of ?d)) = t
     \<and> ntohl (hdr_interface_version (hdr_of ?d)) = NETSIM_INTERFACE_VERSION \<and> ntohll (hdr_node_id (hdr_of ?d)) = i"
    if "HDR_SZ \<le> length m" for i t
    using that get_put_same [of 16 "le_bytes 2 (0 :: u16)" m] by (simp add: accepted_msg_def clear_cksum_def size_defs get_put_after)
  then show ?thesis
    using assms unfolding process_msg_def Let_def by (auto simp: not_less split: if_split_asm) metis
qed

lemma count_failed_inv:
  assumes "count_failed p s = Inr s'"
  shows "\<exists>n. heap s p = Some n \<and> s' = set_node p (n\<lparr>failedReads := failedReads n + 1\<rparr>) s"
  using assms by (auto simp: count_failed_def)

lemma read_body_inv:
  assumes "read_body k p fd len s = Inr s'"
  obtains (failed) w where "count_failed p (s\<lparr>sio := w\<rparr>) = Inr s'" "io_out w = io_out (sio s)"
  | (processed) w m where "process_msg k p len m (s\<lparr>sio := w\<rparr>) = Inr s'" "io_out w = io_out (sio s)"
proof -
  have "io_out (tick (tick (sio s))) = io_out (sio s)" by simp
  then show thesis using assms that unfolding read_body_def Let_def by (metis Inl_Inr_False)
qed

text \<open>A returned \<^verbatim>\<open>readMsg\<close> has ignored the message, counted a failed read, or handled the message; reading itself sends nothing.\<close>

lemma readMsg_inv:
  assumes "readMsg k p s = Inr s'"
  obtains (ignored) w where "s' = s\<lparr>sio := w\<rparr>" "io_out w = io_out (sio s)"
  | (failed) n w where "heap s p = Some n" "s' = set_node p (n\<lparr>failedReads := failedReads n + 1\<rparr>) (s\<lparr>sio := w\<rparr>)"
      "io_out w = io_out (sio s)"
  | (handled) w t m n where "dispatch k p t m (s\<lparr>sio := w\<rparr>) = Inr s'" "io_out w = io_out (sio s)"
      "heap s p = Some n" "accepted_msg (socket_ptr n) t m"
proof -
  have out: "io_out (tick (sio s)) = io_out (sio s)" by simp
  note failed = that(2)
  have f: thesis if "count_failed p (s\<lparr>sio := w\<rparr>) = Inr s'" "io_out w = io_out (sio s)" for w
    using that count_failed_inv [OF that(1)] failed by auto
  consider "count_failed p (s\<lparr>sio := tick (sio s)\<rparr>) = Inr s'"
    | fd len where "read_body k p fd len (s\<lparr>sio := tick (sio s)\<rparr>) = Inr s'"
    using assms unfolding readMsg_def Let_def by (auto split: if_split_asm)
  then show thesis
  proof cases
    case 1
    then show thesis using f out by blast
  next
    case (2 fd len)
    then show thesis
    proof (cases rule: read_body_inv)
      case (failed w')
      then show thesis using f [of w'] by simp
    next
      case (processed w' m)
      then show thesis using that(1) [of w'] that(3) [of _ _ w'] process_msg_inv [OF processed(1)] by auto
    qed
  qed
qed

lemma wf_same_class:
  assumes "wf s" and "heap s p = Some n" and "socket_ptr n' = socket_ptr n"
    and "reg_node n' = reg_node n" "idle_node n' = idle_node n" "tx_node n' = tx_node n"
  shows "wf (set_node p n' s)"
  using wfc_same_class [OF assms(1) [unfolded wf_def] assms(2-6)] by (simp add: wf_def)

lemma dispatch_keeps_wf:
  assumes "wf s" and "member s p" and "dispatch k p t m s = Inr s'"
  shows "wf s' \<or> (heap s' p = None \<and> (p \<in> set (ccaList s) \<or> p \<in> set (txList s)))"
proof -
  consider "handleRegistrationConfirm p m s = Inr s'" | "handleDeregistrationRequest k p s = Inr s'"
    | "handleCcaRequest p s = Inr s'" | "handleDataIndication k p m s = Inr s'" | "s' = s"
    using assms(3) unfolding dispatch_def by (metis Inr_inject)
  then show ?thesis
  proof cases
    case 1
    from assms(1,2) 1 show ?thesis
      by (rule handleRegistrationConfirm_inv) (simp add: wf_register [OF assms(1)])
  next
    case 2
    then obtain n w where n: "heap s p = Some n" "s' = departed (socket_ptr n) p n (s\<lparr>sio := w\<rparr>)"
      using assms(1,2) by (auto elim: handleDeregistrationRequest_inv)
    show ?thesis
      using wf_departed [of "s\<lparr>sio := w\<rparr>" p n] assms(1,2) n by (auto simp: departed_def)
  next
    case 3
    then show ?thesis using handleCcaRequest_inv [OF assms(1,2)] assms(1) by (auto intro: wf_cca_add)
  next
    case 4
    from assms(1,2) 4 show ?thesis
      by (rule handleDataIndication_inv) (simp add: wf_begin_tx [OF assms(1)] NetSimPacket_new_wf)
  qed (use assms in simp)
qed

lemma readMsg_keeps_wf:
  assumes "wf s" and "member s p" and "readMsg k p s = Inr s'"
  shows "wf s' \<or> (heap s' p = None \<and> (p \<in> set (ccaList s) \<or> p \<in> set (txList s)))"
  using assms(3)
proof (cases rule: readMsg_inv)
  case (failed n w)
  then show ?thesis using wf_same_class [of "s\<lparr>sio := w\<rparr>" p n] assms(1) by (simp add: node_class_defs)
next
  case (handled w t m)
  then show ?thesis using dispatch_keeps_wf [of "s\<lparr>sio := w\<rparr>"] assms(1,2) by simp
qed (use assms(1) in simp)

section \<open>Properties\<close>

lemma strncpy_long: "n \<le> length src \<Longrightarrow> \<exists>t. strncpy n src = Inr t \<and> length t = n
    \<and> takeWhile (\<lambda>b. b \<noteq> 0) t = takeWhile (\<lambda>b. b \<noteq> 0) (take n src)"
proof -
  assume n: "n \<le> length src"
  let ?t = "takeWhile (\<lambda>b. b \<noteq> 0) (take n src)"
  have l: "length ?t \<le> n" using length_takeWhile_le [of "\<lambda>b. b \<noteq> 0" "take n src"] by simp
  have "\<forall>b \<in> set ?t. b \<noteq> 0" by (auto dest: set_takeWhileD)
  then have "takeWhile (\<lambda>b. b \<noteq> 0) (?t @ replicate j 0) = ?t" for j
    by (cases j) (auto simp: takeWhile_append2 takeWhile_tail)
  with n l show ?thesis by (auto simp: strncpy_def Let_def)
qed

text \<open>
  A registration confirm of at least \<open>REG_CON_SZ\<close> bytes from a node that is still registering
  succeeds: the node leaves the registration map and enters the node map, becomes active with its
  registration timer stopped and carries the operating system strings of the message; no other
  node is touched, nothing is sent, and the invariant is kept.
\<close>

theorem registration_confirm_registers:
  assumes "wf s" and "registering s p" and "REG_CON_SZ \<le> length m"
  shows "\<exists>s' n'. handleRegistrationConfirm p m s = Inr s' \<and> wf s' \<and> registered s' p \<and> \<not> registering s' p
    \<and> heap s' = (heap s)(p \<mapsto> n') \<and> curState n' = Some ActiveState \<and> \<not> tmr_started (regTimer n')
    \<and> takeWhile (\<lambda>b. b \<noteq> 0) (os n') = takeWhile (\<lambda>b. b \<noteq> 0) (get 18 32 m)
    \<and> takeWhile (\<lambda>b. b \<noteq> 0) (osVersion n') = takeWhile (\<lambda>b. b \<noteq> 0) (get 50 32 m)
    \<and> io_out (sio s') = io_out (sio s) \<and> ccaList s' = ccaList s \<and> txList s' = txList s
    \<and> (\<forall>q. q \<noteq> p \<longrightarrow> registered s' q = registered s q \<and> registering s' q = registering s q)"
proof -
  obtain n where n: "heap s p = Some n" "reg_node n" "map_of (regListMap s) (socket_ptr n) = Some p"
    using assms(1,2) by (rule wf_registering)
  obtain o1 o2 where o: "strncpy 32 (drop 18 m) = Inr o1" "strncpy 32 (drop 50 m) = Inr o2"
      "takeWhile (\<lambda>b. b \<noteq> 0) o1 = takeWhile (\<lambda>b. b \<noteq> 0) (get 18 32 m)"
      "takeWhile (\<lambda>b. b \<noteq> 0) o2 = takeWhile (\<lambda>b. b \<noteq> 0) (get 50 32 m)"
    using strncpy_long [of 32 "drop 18 m"] strncpy_long [of 32 "drop 50 m"] assms(3)
    unfolding size_defs get_def by fastforce
  let ?s' = "set_node p (confirmed o1 o2 n) (registered_as (socket_ptr n) p (s\<lparr>sio := tick (sio s)\<rparr>))"
  have w': "wf ?s'" using n assms(1) by (rule wf_register [rotated])
  have h: "map_of (nodeHashMap ?s') = (map_of (nodeHashMap s))(socket_ptr n \<mapsto> p)"
    and r: "map_of (regListMap ?s') = (map_of (regListMap s))(socket_ptr n := None)"
    using um.transfer_lookup(1,2) [OF wf_um [OF assms(1)] _ n(3)] assms(1)
    by (simp_all add: registered_as_def wf_def wfc_def tables_ok_def)
  have fresh: "map_of (nodeHashMap s) (socket_ptr n) = None"
    using wf_tables_disjoint(3) [OF assms(1)] n(3) by (metis not_None_eq)
  have reg: "registered ?s' p" unfolding registered_def h by auto
  moreover have "\<not> registering ?s' p" using wf_not_both [OF w'] reg by blast
  moreover have "registered ?s' q = registered s q" if "q \<noteq> p" for q
    unfolding registered_def h using that fresh by (auto split: if_splits) (metis option.distinct(1))
  moreover have "registering ?s' q = registering s q" if "q \<noteq> p" for q
    unfolding registering_def r using that n(3) by (auto split: if_splits) (metis option.inject)
  ultimately show ?thesis
    using handleRegistrationConfirm_reg [OF assms(1) n o(1,2)] w' o(3,4)
    by (intro exI [of _ ?s'] exI [of _ "confirmed o1 o2 n"]) (simp add: confirmed_def registered_as_def)
qed

theorem registration_confirm_registers_witness:
  "\<exists>s' n'. handleRegistrationConfirm 0x1000 (replicate 82 65) one_joined = Inr s' \<and> registered s' 0x1000
    \<and> heap s' 0x1000 = Some n' \<and> takeWhile (\<lambda>b. b \<noteq> 0) (os n') = replicate 32 65"
  using registration_confirm_registers [of one_joined "0x1000" "replicate 82 65"] one_joined_wf
  by (auto simp: size_defs get_def)

text \<open>
  Joining. When system calls succeed, creating a node for an accepted client and adding it to a
  medium returns; the node is then registering, the invariant is kept, no other node changes, and the
  new client, and nobody else, has been sent a registration request that carries its id.
\<close>

theorem join_announces:
  assumes "wf s" and "fresh s p sp" and "sp \<noteq> 0" and "send_ok k" "timers_ok k" "\<And>t fd. 0 \<le> k_epoll_ctl k t fd"
  shows "\<exists>s'. join k p sp fd s = Inr s' \<and> wf s' \<and> registering s' p \<and> id_of s' p = sp \<and> fd_of s' p = fd
    \<and> (\<forall>q. q \<noteq> p \<longrightarrow> heap s' q = heap s q)
    \<and> (\<forall>f. stream f (io_out (sio s')) = stream f (io_out (sio s)) @ (if f = fd then registration_req_msg sp else []))"
proof -
  obtain s' where s': "join k p sp fd s = Inr s'"
      "\<forall>f. stream f (io_out (sio s')) = stream f (io_out (sio s)) @ (if f = fd then registration_req_msg sp else [])"
    using join_succeeds [OF assms(4,5,6,3)] by blast
  from s'(1) have "id_of s' p = sp \<and> fd_of s' p = fd \<and> (\<forall>q. q \<noteq> p \<longrightarrow> heap s' q = heap s q)"
    by (rule join_inv)
      (simp add: id_of_def fd_of_def newcomer_def DeviceNode_pimpl_def Socket_new_def setSockFd_def)
  with s' join_keeps_wf [OF assms(1,2) s'(1)] show ?thesis by blast
qed

theorem join_announces_witness:
  "\<exists>s'. join ok_kernel 0x1000 0x2000 7 empty_medium = Inr s' \<and> registering s' 0x1000
    \<and> stream 7 (io_out (sio s')) = registration_req_msg 0x2000 \<and> stream 8 (io_out (sio s')) = []"
  using join_announces [of empty_medium "0x1000" "0x2000" ok_kernel 7] wf_empty_medium
    ok_kernel_send_ok ok_kernel_timers ok_kernel_epoll
  by (auto simp: fresh_def empty_medium_def)

text \<open>
  C32: messages in the wrong state. A registration confirm of full length from a registered node, a clear-channel
  or data request from a node still registering, and a data indication from a node that is already
  transmitting end in an exception; a clear-channel request from a transmitting node does not, it is
  queued like any other.
\<close>

theorem protocol_violations_throw:
  assumes "wf s" and "heap s p = Some n" and "NetSimPacket_new d p = Inr pkt" and "REG_CON_SZ \<le> length m"
  shows "(registered s p \<longrightarrow> (\<exists>e. handleRegistrationConfirm p m s = Inl (Throw e)))
    \<and> (registering s p \<longrightarrow> (\<exists>e. handleCcaRequest p s = Inl (Throw e)) \<and> (\<exists>e. handleDataIndication k p d s = Inl (Throw e)))
    \<and> (p \<in> set (txList s) \<longrightarrow> (\<exists>e. handleDataIndication k p d s = Inl (Throw e))
         \<and> handleCcaRequest p s = Inr (s\<lparr>ccaList := ccaList s @ [p]\<rparr>))"
proof (intro conjI impI)
  obtain o1 o2 where o: "strncpy 32 (drop 18 m) = Inr o1" "strncpy 32 (drop 50 m) = Inr o2"
    using strncpy_long [of 32 "drop 18 m"] strncpy_long [of 32 "drop 50 m"] assms(4)
    unfolding size_defs by fastforce
  assume "registered s p"
  with assms(1) show "\<exists>e. handleRegistrationConfirm p m s = Inl (Throw e)"
    by (rule wf_registered) (use o in \<open>auto simp: handleRegistrationConfirm_def state_of_def node_class_defs\<close>)
next
  assume "registering s p"
  with assms(1) obtain n' where n': "heap s p = Some n'" "reg_node n'" by (rule wf_registering)
  then show "\<exists>e. handleCcaRequest p s = Inl (Throw e)" "\<exists>e. handleDataIndication k p d s = Inl (Throw e)"
    using assms(3) by (auto simp: handleCcaRequest_def handleDataIndication_def state_of_def getMedium_def reg_node_def
        addNodeToCcaList_def)
next
  assume "p \<in> set (txList s)"
  with assms(1) obtain n' where n': "heap s p = Some n'" "tx_node n'" by (rule wf_txList)
  then show "\<exists>e. handleDataIndication k p d s = Inl (Throw e)"
      "handleCcaRequest p s = Inr (s\<lparr>ccaList := ccaList s @ [p]\<rparr>)"
    using assms(3) by (auto simp: handleCcaRequest_def handleDataIndication_def state_of_def getMedium_def tx_node_def
        addNodeToCcaList_def install_state_def)
qed

theorem protocol_violations_throw_witness:
  "\<exists>e. handleDataIndication ok_kernel 0x1000 [0, 2] one_joined = Inl (Throw e)"
proof -
  obtain n where "heap one_joined 0x1000 = Some n" using one_joined_wf by (meson wf_registering)
  moreover obtain pkt where "NetSimPacket_new [0, 2] 0x1000 = Inr pkt"
    by (simp add: NetSimPacket_new_def get_def len_field_high_byte del: of_le_bytes.simps)
  ultimately show ?thesis
    using protocol_violations_throw [of one_joined "0x1000" n "[0, 2]" pkt "replicate 82 0" ok_kernel] one_joined_wf
    by (auto simp: size_defs)
qed

lemma handleDataIndication_idle:
  assumes "wf s" and "heap s p = Some n" "idle_node n" "registered s p"
    and "NetSimPacket_new d p = Inr pkt" "0 < pktBufferLen pkt" and "timers_ok k"
  obtains t where "handleDataIndication k p d s =
      Inr (set_node p (transmitting pkt t n) (s\<lparr>txList := txList s @ [p], sio := tick (tick (sio s))\<rparr>))"
    "wf (set_node p (transmitting pkt t n) (s\<lparr>txList := txList s @ [p], sio := tick (tick (sio s))\<rparr>))"
    "tmr_started t" "to_ns (it_value t) = (if isAck pkt = Inr True then 1 else 4000000)"
proof -
  obtain ack where ack: "isAck pkt = Inr ack" using assms(6) by (simp add: isAck_def Let_def)
  have p: "p \<noteq> 0" using entry_nonnull [OF wf_entries [OF assms(1)] assms(2)] .
  let ?t = "(txTimer n)\<lparr>it_value := (if ack then Timespec 0 1 else Timespec 0 4000000), tmr_started := True\<rparr>"
  have "startTxTimer k p (if ack then 0 else getTimeOnWire pkt) s =
      Inr (set_node p (n\<lparr>txTimer := ?t\<rparr>) (s\<lparr>sio := tick (tick (sio s))\<rparr>))"
    using assms(2,3,7)
    by (simp add: startTxTimer_def timer_start_ms_def timer_arm_def timers_ok_def getTimeOnWire_def idle_node_def
        sdiv_nonneg smod_nonneg s32_id)
  then have run: "handleDataIndication k p d s =
      Inr (set_node p (transmitting pkt ?t n) (s\<lparr>txList := txList s @ [p], sio := tick (tick (sio s))\<rparr>))"
    using assms(2,3,5) ack p
    by (simp add: handleDataIndication_def state_of_def idle_node_def setTxPacket_def getMedium_def addNodeToTxList_def
        getNodeId_def install_state_def transmitting_def set_node_def)
  have i: "map_of (nodeHashMap s) (socket_ptr n) = Some p"
    using wf_registered [OF assms(1,4)] assms(2) by (metis option.inject)
  have "wf (set_node p (transmitting pkt ?t n) (s\<lparr>txList := txList s @ [p], sio := tick (tick (sio s))\<rparr>))"
    using wf_begin_tx [OF assms(1-3) i, of ?t pkt] NetSimPacket_new_wf [OF assms(5)] by simp
  then show thesis using ack by (intro that [OF run]) (simp_all add: to_ns_def)
qed

text \<open>
  C16: a data indication from an idle registered node: the node starts to transmit. It is appended to the
  transmit list with the packet, its timer runs for 4 ms (1 ns if the packet counts as an
  acknowledgement), and nothing is sent yet.
\<close>

theorem data_indication_transmits:
  assumes "wf s" and "heap s p = Some n" "idle_node n" "registered s p"
    and "NetSimPacket_new d p = Inr pkt" "0 < pktBufferLen pkt" and "timers_ok k"
  shows "\<exists>s' n'. handleDataIndication k p d s = Inr s' \<and> wf s' \<and> txList s' = txList s @ [p] \<and> heap s' = (heap s)(p \<mapsto> n')
    \<and> curState n' = Some TxState \<and> txPkt n' = Some pkt \<and> tmr_started (txTimer n')
    \<and> to_ns (it_value (txTimer n')) = (if isAck pkt = Inr True then 1 else 4000000)
    \<and> io_out (sio s') = io_out (sio s) \<and> ccaList s' = ccaList s"
proof (rule handleDataIndication_idle [OF assms])
  fix t
  let ?s' = "set_node p (transmitting pkt t n) (s\<lparr>txList := txList s @ [p], sio := tick (tick (sio s))\<rparr>)"
  assume "handleDataIndication k p d s = Inr ?s'" "wf ?s'" "tmr_started t"
    "to_ns (it_value t) = (if isAck pkt = Inr True then 1 else 4000000)"
  then show ?thesis
    by (intro exI [of _ ?s'] exI [of _ "transmitting pkt t n"]) (simp add: transmitting_def)
qed

theorem data_indication_transmits_witness:
  "\<exists>s'. handleDataIndication ok_kernel 0x1000 [0, 2] one_registered = Inr s' \<and> txList s' = [0x1000]"
proof -
  obtain n where "heap one_registered 0x1000 = Some n" "idle_node n"
    using one_registered_wf by blast
  moreover obtain pkt where "NetSimPacket_new [0, 2] 0x1000 = Inr pkt" "pktBufferLen pkt = 2"
    by (simp add: NetSimPacket_new_def get_def len_field_high_byte del: of_le_bytes.simps)
  ultimately show ?thesis
    using data_indication_transmits [of one_registered "0x1000" n "[0, 2]" pkt ok_kernel] one_registered_wf
      one_registered_lists ok_kernel_timers by auto
qed

text \<open>
  C18: a deregistration request from a node that neither transmits nor waits for a clear channel answer
  is confirmed, and then the node is gone: from both tables and from the heap, with its socket closed;
  nothing else changes and the invariant is kept.
\<close>

theorem deregistration_removes:
  assumes "wf s" and "member s p" and "p \<notin> set (ccaList s)" "p \<notin> set (txList s)" and "send_spec k" and "fd_of s p \<noteq> - 1"
  shows "\<exists>s' out. handleDeregistrationRequest k p s = Inr s' \<and> wf s' \<and> \<not> member s' p \<and> heap s' = (heap s)(p := None)
    \<and> txList s' = txList s \<and> ccaList s' = ccaList s \<and> (\<forall>q. q \<noteq> p \<longrightarrow> member s' q = member s q)
    \<and> io_out (sio s') = io_out (sio s) @ out @ [CloseFd (fd_of s p)]
    \<and> (send_ok k \<longrightarrow> (\<forall>f. stream f out = (if f = fd_of s p then deregistration_con_msg (id_of s p) else [])))"
proof -
  obtain n where n: "heap s p = Some n" "dn_medium n" "curState n \<noteq> None"
    using assms(1,2) by (cases rule: wf_member) (auto simp: node_class_defs)
  have l: "live s p" using assms(1,2) wf_live(1,2) unfolding member_def by blast
  obtain w where w: "sendDeregistrationConfirm k p s = Inr (s\<lparr>sio := w\<rparr>)"
      "told k (sio s) w (fd_of s p) (deregistration_con_msg (id_of s p))"
    using reply_told(3) [OF assms(5) l] by blast
  let ?s' = "departed (socket_ptr n) p n (s\<lparr>sio := w\<rparr>)"
  have run: "handleDeregistrationRequest k p s = Inr ?s'"
    using w(1) n deregisterNode_member [of "s\<lparr>sio := w\<rparr>" p] assms(1,2)
    by (auto simp: handleDeregistrationRequest_def state_of_def st_handleDeregistrationRequest_def getMedium_def
        install_state_def)
  have w': "wf ?s'" using wf_departed [of "s\<lparr>sio := w\<rparr>" p n] assms(1-4) n(1) by simp
  have h: "heap ?s' = (heap s)(p := None)" by (simp add: departed_def)
  have "\<not> member ?s' p"
    by (rule notI, erule wf_member [OF w']) (simp_all add: h)
  moreover have "member ?s' q = member s q" if "q \<noteq> p" for q
    using that n(1) by (rule member_departed [OF assms(1,2)])
  moreover obtain ps where "io_out w = io_out (sio s) @ map (SockData (fd_of s p)) ps"
      "send_ok k \<longrightarrow> concat ps = deregistration_con_msg (id_of s p)"
    using w(2) by (auto simp: told_def sent_chunks_def)
  ultimately show ?thesis
    using run w' h n(1) assms(6)
    by (intro exI [of _ ?s'] exI [of _ "map (SockData (fd_of s p)) ps"])
      (auto simp: departed_def closing_out fd_of_def stream_chunks)
qed

theorem deregistration_removes_witness:
  "\<exists>s'. handleDeregistrationRequest ok_kernel 0x1000 one_registered = Inr s' \<and> \<not> member s' 0x1000 \<and> heap s' 0x1000 = None
    \<and> last (io_out (sio s')) = CloseFd 7"
proof -
  have "member one_registered 0x1000" "fd_of one_registered 0x1000 = 7"
    using one_registered_wf by (auto simp: member_def fd_of_def)
  then show ?thesis
    using deregistration_removes [of one_registered "0x1000" ok_kernel] one_registered_wf one_registered_lists ok_kernel_specs
    by auto
qed

theorem processCcaList_answers_all_witness:
  "\<exists>s'. processCcaList ok_kernel (one_registered\<lparr>ccaList := [0x1000], pm_state := IDLE\<rparr>) = Inr s' \<and> ccaList s' = []
    \<and> stream 7 (io_out (sio s')) = stream 7 (io_out (sio one_registered)) @ cca_con_msg 0x2000 True"
proof -
  let ?s = "one_registered\<lparr>ccaList := [0x1000], pm_state := IDLE\<rparr>"
  have "wf ?s" using wf_cca_add [of one_registered "0x1000"] one_registered_wf one_registered_lists by simp
  moreover have "fd_of ?s 0x1000 = 7" "id_of ?s 0x1000 = 0x2000"
    using one_joined_node by (auto simp: one_registered_def confirmed_def fd_of_def id_of_def)
  ultimately show ?thesis
    using processCcaList_answers_all [of ?s ok_kernel] ok_kernel_specs ok_kernel_send_ok by auto
qed

end
