(* ===== verification/Medium_Tx.thy ===== *)
theory Medium_Tx
  imports Node_Life
begin

text \<open>
  Transmission: the end of one transmission, the pass over the transmit list, the collision checks
  of the two media behind the locale \<open>collision_policy\<close>, and the image that is multicast.
  \<open>tx_outcome\<close> collects everything a pass does to a medium.
\<close>

section \<open>The multicast image\<close>

text \<open>The frame inside a packet buffer, and the buffers from which it can be read.\<close>

definition psdu_len_of :: "byte list \<Rightarrow> nat" where
  "psdu_len_of buf = unat (ntohs (of_le_bytes (get PSDU_LEN_OFF 2 buf)))"

definition frame_of :: "byte list \<Rightarrow> byte list" where
  "frame_of buf = get PKTDATA_OFF (psdu_len_of buf) buf"

definition sendable :: "byte list \<Rightarrow> bool" where
  "sendable buf \<longleftrightarrow> PKTDATA_OFF + psdu_len_of buf \<le> length buf"

lemma tx_image_frame:
  assumes "sendable buf"
  shows "psdu_len_of (tx_image buf) = psdu_len_of buf" "frame_of (tx_image buf) = frame_of buf"
    "length (tx_image buf) = length buf" "sendable (tx_image buf)"
proof -
  have l: "34 \<le> length buf" using assms by (simp add: sendable_def size_defs)
  let ?b = "put RSSI_OFF [127] buf"
  have lb: "length ?b = length buf" using l by (simp add: size_defs)
  have "get PSDU_LEN_OFF 2 (tx_image buf) = get PSDU_LEN_OFF 2 buf"
    using l lb by (simp add: tx_image_def Let_def size_defs get_put_after get_put_before)
  then show p: "psdu_len_of (tx_image buf) = psdu_len_of buf" by (simp add: psdu_len_of_def)
  show "frame_of (tx_image buf) = frame_of buf"
    using l lb unfolding frame_of_def p by (simp add: tx_image_def Let_def size_defs get_put_after)
  show t: "length (tx_image buf) = length buf" using l by (intro length_tx_image) (simp add: size_defs)
  show "sendable (tx_image buf)" using assms p t by (simp add: sendable_def)
qed

lemma pktbuf_bytes_image:
  assumes "wf_packet pkt" and "sendable (pktBuffer pkt)"
  shows "pktbuf_bytes (pkt\<lparr>pktBuffer := tx_image (pktBuffer pkt)\<rparr>) = Inr (frame_of (pktBuffer pkt))"
  using assms tx_image_frame [OF assms(2)]
  by (simp add: pktbuf_bytes_def pktbufSize_def wf_packet_def sendable_def frame_of_def psdu_len_of_def size_defs)

section \<open>One transmission ends\<close>

definition done_node :: "DeviceNode \<Rightarrow> DeviceNode" where
  "done_node n = n\<lparr>txTimer := (txTimer n)\<lparr>tmr_started := False\<rparr>, curState := Some ActiveState, txPkt := None\<rparr>"

lemma done_node_idle: "tx_node n \<Longrightarrow> idle_node (done_node n)" "socket_ptr (done_node n) = socket_ptr n"
  "dn_socket (done_node n) = dn_socket n"
  by (simp_all add: done_node_def node_class_defs)

definition pkt_of :: "sys \<Rightarrow> nptr \<Rightarrow> NetSimPacket" where
  "pkt_of s p = the (txPkt (the (heap s p)))"

definition tx_result :: "NetSimPacket \<Rightarrow> int" where
  "tx_result pkt = (if collision pkt then TX_DONE_COLLIDED else TX_DONE_OK)"

lemma tx_result_values: "TX_DONE_OK \<noteq> TX_DONE_COLLIDED"
  by (simp add: TX_DONE_OK_def TX_DONE_COLLIDED_def)

text \<open>The packet and node that \<^verbatim>\<open>TxState::handleTxTimerExpired\<close> leaves.\<close>

lemma txPkt_last: "n\<lparr>txPkt := x, curState := c\<rparr> = n\<lparr>curState := c, txPkt := x\<rparr>"
  "n\<lparr>txPkt := x, txTimer := t\<rparr> = n\<lparr>txTimer := t, txPkt := x\<rparr>"
  by simp_all

lemma handleTxTimerExpired_ok:
  assumes "heap s p = Some n" and "tx_node n" and "txPkt n = Some pkt"
  shows "handleTxTimerExpired p s =
    Inr (set_node p ((done_node n)\<lparr>txPkt := Some (pkt\<lparr>txDoneResult := tx_result pkt\<rparr>)\<rparr>) (s\<lparr>sio := tick (sio s)\<rparr>))"
  using assms
  by (simp add: handleTxTimerExpired_def state_of_def tx_node_def getTxPacket_def setTxPacket_def stopTxTimer_def
      timer_stop_def install_state_def done_node_def tx_result_def setTxDoneResult_def txPkt_last)

lemma txPacket_ok:
  assumes "wf_packet pkt" and "sendable (pktBuffer pkt)" and "heap s p = Some n" and "p \<noteq> 0"
  shows "txPacket p pkt s =
    Inr (set_node p (n\<lparr>txPkt := Some (pkt\<lparr>pktBuffer := tx_image (pktBuffer pkt)\<rparr>)\<rparr>)
      (s\<lparr>sio := emit (PcapDump (frame_of (pktBuffer pkt))) (emit (McastTx (tx_image (pktBuffer pkt))) (tick (sio s)))\<rparr>))"
proof -
  have "RSSI_OFF < pktBufferLen pkt" using assms(1,2) by (simp add: sendable_def wf_packet_def size_defs)
  from tx_image_ops [OF assms(1) this] obtain pkt1 where
    "setRSSI 127 pkt = Inr pkt1" "generateChecksum pkt1 = Inr (pkt\<lparr>pktBuffer := tx_image (pktBuffer pkt)\<rparr>)"
    by auto
  then show ?thesis
    using assms(3,4) pktbuf_bytes_image [OF assms(1,2)]
    by (simp add: txPacket_def setTxPacket_def)
qed

text \<open>What reporting and delivering the transmissions \<open>ds\<close> does to a medium.\<close>

definition done_msg :: "sys \<Rightarrow> int \<Rightarrow> nptr \<Rightarrow> byte list" where
  "done_msg s f p = (if fd_of s p = f then tx_done_ind_msg (id_of s p) (tx_result (pkt_of s p)) else [])"

definition images :: "sys \<Rightarrow> nptr list \<Rightarrow> byte list list" where
  "images s ds = map (\<lambda>p. tx_image (pktBuffer (pkt_of s p))) (filter (\<lambda>p. \<not> collision (pkt_of s p)) ds)"

definition tx_outcome :: "kernel \<Rightarrow> sys \<Rightarrow> sys \<Rightarrow> nptr list \<Rightarrow> bool" where
  "tx_outcome k s s' ds \<longleftrightarrow>
     heap s' = (\<lambda>q. if q \<in> set ds then map_option done_node (heap s q) else heap s q)
     \<and> regListMap s' = regListMap s \<and> nodeHashMap s' = nodeHashMap s \<and> ccaList s' = ccaList s
     \<and> pm_state s' = pm_state s \<and> curTime s' = curTime s
     \<and> mcasts (io_out (sio s')) = mcasts (io_out (sio s)) @ images s ds
     \<and> tx_pkts_ok s' = tx_pkts_ok s + int (length (images s ds))
     \<and> tx_pkts_collided s' = tx_pkts_collided s + int (length (filter (\<lambda>p. collision (pkt_of s p)) ds))
     \<and> tx_pkts_failed s' = tx_pkts_failed s
     \<and> (send_ok k \<longrightarrow> (\<forall>f. stream f (io_out (sio s')) = stream f (io_out (sio s)) @ concat (map (done_msg s f) ds)))"

lemma txExpired_outcome:
  assumes "heap s p = Some n" and "tx_node n" and "p \<noteq> 0" and "send_spec k"
    and "collision (pkt_of s p) \<or> sendable (pktBuffer (pkt_of s p))"
  shows "\<exists>s'. txExpired k p s = Inr s' \<and> tx_outcome k s s' [p] \<and> txList s' = txList s"
proof -
  obtain pkt where pkt: "txPkt n = Some pkt" "wf_packet pkt" using assms(2) by (auto simp: tx_node_def)
  let ?pkt = "pkt\<lparr>txDoneResult := tx_result pkt\<rparr>"
  let ?s1 = "set_node p ((done_node n)\<lparr>txPkt := Some ?pkt\<rparr>) (s\<lparr>sio := tick (sio s)\<rparr>)"
  have n: "pkt_of s p = pkt" "id_of ?s1 p = id_of s p" "fd_of ?s1 p = fd_of s p"
    using assms(1) pkt(1) done_node_idle(2,3) by (simp_all add: pkt_of_def id_of_def fd_of_def)
  have "live ?s1 p" using assms(2) done_node_idle(2) by (simp add: live_def tx_node_def)
  from reply_told(2) [OF assms(4) this, of "tx_result pkt"] obtain w where
    w: "sendTxDoneIndication k p (tx_result pkt) ?s1 = Inr (?s1\<lparr>sio := w\<rparr>)"
       "told k (sio ?s1) w (fd_of s p) (tx_done_ind_msg (id_of s p) (tx_result pkt))"
    unfolding n(2,3) by blast
  note out = told_mcasts [OF w(2)] told_stream [OF w(2)]
  have run: "txExpired k p s = bindE (txDone p ?pkt (?s1\<lparr>sio := w\<rparr>)) (setTxPacket p None)"
    using assms(1) pkt(1) handleTxTimerExpired_ok [OF assms(1,2) pkt(1)] w(1)
    by (simp add: txExpired_def getTxPacket_def)
  have h: "(heap s)(p \<mapsto> done_node n) = (\<lambda>q. if q \<in> set [p] then map_option done_node (heap s q) else heap s q)"
    using assms(1) by auto
  show ?thesis
  proof (cases "collision pkt")
    case True
    have "txExpired k p s = Inr (set_node p (done_node n) (s\<lparr>tx_pkts_collided := tx_pkts_collided s + 1, sio := w\<rparr>))"
      unfolding run using True
      by (simp add: txDone_def tx_result_def tx_result_values [symmetric] setTxPacket_def) (simp add: set_node_def done_node_def)
    then show ?thesis
      using True out h n(1) by (simp add: tx_outcome_def images_def done_msg_def tx_result_def)
  next
    case False
    have sd: "sendable (pktBuffer ?pkt)" "wf_packet ?pkt" using assms(5) False n(1) pkt(2) by (auto simp: wf_packet_def)
    let ?w = "emit (PcapDump (frame_of (pktBuffer pkt))) (emit (McastTx (tx_image (pktBuffer pkt))) (tick w))"
    have "txExpired k p s = Inr (set_node p (done_node n) (s\<lparr>tx_pkts_ok := tx_pkts_ok s + 1, sio := ?w\<rparr>))"
      unfolding run using False assms(3) txPacket_ok [OF sd(2,1), of "?s1\<lparr>sio := w\<rparr>" p]
      by (simp add: txDone_def tx_result_def setTxPacket_def) (simp add: set_node_def done_node_def)
    then show ?thesis
      using False out h n(1) by (simp add: tx_outcome_def images_def done_msg_def tx_result_def)
  qed
qed


section \<open>The transmit list\<close>

lemma distinct_filter_out:
  assumes "distinct l" and "distinct ds" and "set ds \<subseteq> set l"
  shows "length (filter (\<lambda>p. p \<notin> set ds) l) = length l - length ds"
proof -
  have "set (filter (\<lambda>p. p \<notin> set ds) l) = set l - set ds" by auto
  then have "length (filter (\<lambda>p. p \<notin> set ds) l) = card (set l - set ds)"
    using assms(1) by (metis distinct_card distinct_filter)
  with assms show ?thesis by (simp add: card_Diff_subset distinct_card)
qed

lemma tx_outcome_refl: "tx_outcome k s s []"
  by (simp add: tx_outcome_def images_def)

lemma tx_outcome_frame [simp]:
  "tx_outcome k s (s'\<lparr>txList := l\<rparr>) ds = tx_outcome k s s' ds"
  "tx_outcome k (s\<lparr>sio := tick (sio s)\<rparr>) s' ds = tx_outcome k s s' ds"
  "tx_outcome k (s\<lparr>txList := l\<rparr>) s' ds = tx_outcome k s s' ds"
  by (simp_all add: tx_outcome_def images_def done_msg_def [abs_def] pkt_of_def fd_of_def id_of_def cong: if_cong)

lemma tx_outcome_other:
  assumes "tx_outcome k s s1 [p]" and "q \<noteq> p"
  shows "heap s1 q = heap s q" "pkt_of s1 q = pkt_of s q" "fd_of s1 q = fd_of s q" "id_of s1 q = id_of s q"
    "done_msg s1 f q = done_msg s f q"
  using assms by (simp_all add: tx_outcome_def pkt_of_def fd_of_def id_of_def done_msg_def)

lemma tx_outcome_Cons:
  assumes "tx_outcome k s s1 [p]" and "tx_outcome k s1 s' ds" and "p \<notin> set ds"
  shows "tx_outcome k s s' (p # ds)"
proof -
  note other = tx_outcome_other [OF assms(1)]
  have ne: "q \<noteq> p" if "q \<in> set ds" for q using that assms(3) by blast
  have "images s1 ds = images s ds"
    unfolding images_def using other(2) ne by (auto intro!: arg_cong2 [where f = map] filter_cong map_cong)
  then have i: "images s (p # ds) = images s [p] @ images s1 ds" by (simp add: images_def)
  have "filter (\<lambda>p. collision (pkt_of s1 p)) ds = filter (\<lambda>p. collision (pkt_of s p)) ds"
    using other(2) ne by (auto intro!: filter_cong)
  then have c: "filter (\<lambda>p. collision (pkt_of s p)) (p # ds) =
      filter (\<lambda>p. collision (pkt_of s p)) [p] @ filter (\<lambda>p. collision (pkt_of s1 p)) ds" by simp
  have "map (done_msg s f) ds = map (done_msg s1 f) ds" for f using other(5) ne by auto
  then have m: "concat (map (done_msg s f) (p # ds)) =
      concat (map (done_msg s f) [p]) @ concat (map (done_msg s1 f) ds)" for f by (simp del: map_eq_conv)
  have "heap s' = (\<lambda>q. if q \<in> set (p # ds) then map_option done_node (heap s q) else heap s q)"
    using assms other(1) by (auto simp: tx_outcome_def fun_eq_iff)
  then show ?thesis
    using assms(1,2) unfolding tx_outcome_def i c m by (auto simp del: filter.simps list.map)
qed

definition expired_at :: "kernel \<Rightarrow> nat \<Rightarrow> bool" where
  "expired_at k t \<longleftrightarrow> (case k_timer_gettime k t of None \<Rightarrow> False | Some rem \<Rightarrow> tv_sec rem = 0 \<and> tv_nsec rem = 0)"

lemma hasTxTimerExpired_ok:
  assumes "heap s p = Some n" and "tmr_started (txTimer n)" and "timers_ok k"
  shows "hasTxTimerExpired k p s = Inr (expired_at k (io_tick (sio s)), s\<lparr>sio := tick (sio s)\<rparr>)"
proof -
  obtain rem where "k_timer_gettime k (io_tick (sio s)) = Some rem"
    using assms(3) unfolding timers_ok_def by (meson not_None_eq)
  then show ?thesis
    using assms(1,2) by (simp add: hasTxTimerExpired_def timer_expired_def expired_at_def)
qed

text \<open>
  The readings of a pass over a list of timers. \<open>visits k t ts\<close> says that the timers are read one after the other at the calls \<open>ts\<close>, the first at \<open>t\<close>: after a timer
  that has not expired the next one is read at the very next call, after one that has, at a later call. \<open>expired_of\<close> are the nodes whose timer was found expired.
\<close>

fun visits :: "kernel \<Rightarrow> nat \<Rightarrow> nat list \<Rightarrow> bool" where
  "visits k t [] = True"
| "visits k t (r # rs) \<longleftrightarrow> r = t \<and> (if expired_at k r then \<exists>t1 > r. visits k t1 rs else visits k (Suc r) rs)"

definition expired_of :: "kernel \<Rightarrow> 'a list \<Rightarrow> nat list \<Rightarrow> 'a list" where
  "expired_of k xs ts = map fst (filter (\<lambda>(x, t). expired_at k t) (zip xs ts))"

lemma expired_of_simps [simp]:
  "expired_of k [] ts = []"
  "expired_of k (x # xs) (t # ts) = (if expired_at k t then x # expired_of k xs ts else expired_of k xs ts)"
  by (simp_all add: expired_of_def)

lemma expired_of_subset: "set (expired_of k xs ts) \<subseteq> set xs"
  by (auto simp: expired_of_def dest: set_zip_leftD)

lemma distinct_expired_of: "distinct xs \<Longrightarrow> length ts = length xs \<Longrightarrow> distinct (expired_of k xs ts)"
  unfolding expired_of_def by (rule distinct_map_filter) (simp add: map_fst_zip)

lemma expired_of_uniform:
  "\<forall>t. expired_at k t \<Longrightarrow> length ts = length xs \<Longrightarrow> expired_of k xs ts = xs" "\<forall>t. \<not> expired_at k t \<Longrightarrow> expired_of k xs ts = []"
  by (simp_all add: expired_of_def case_prod_beta)

lemma visits_Cons:
  "expired_at k t \<Longrightarrow> t < t1 \<Longrightarrow> visits k t1 ts \<Longrightarrow> visits k t (t # ts)" "\<not> expired_at k t \<Longrightarrow> visits k (Suc t) ts \<Longrightarrow> visits k t (t # ts)"
  by auto

text \<open>Every packet on the air that can still be delivered has a frame to deliver.\<close>

definition frames_ok :: "sys \<Rightarrow> bool" where
  "frames_ok s \<longleftrightarrow> (\<forall>p \<in> set (txList s). collision (pkt_of s p) \<or> sendable (pktBuffer (pkt_of s p)))"

lemma frames_ok_sio [simp]: "frames_ok (s\<lparr>sio := w\<rparr>) = frames_ok s"
  by (simp add: frames_ok_def pkt_of_def)

lemma wf_end_tx:
  assumes "wf s" and "txList s = xs @ p # ys" and "tx_outcome k s s' [p]" and "txList s' = xs @ ys"
  shows "wf s'"
proof -
  obtain n where n: "heap s p = Some n" "tx_node n" using wf_txList [OF assms(1), of p] assms(2) by auto
  have "heap s' = (heap s)(p \<mapsto> done_node n)" using assms(3) n(1) by (auto simp: tx_outcome_def)
  moreover have "regListMap s' = regListMap s" "nodeHashMap s' = nodeHashMap s" "ccaList s' = ccaList s"
    using assms(3) by (simp_all add: tx_outcome_def)
  ultimately show ?thesis
    using wfc_end_tx [OF assms(1) [unfolded wf_def assms(2)] n(1) done_node_idle(2) done_node_idle(1) [OF n(2)]] assms(4)
    by (simp add: wf_def)
qed

text \<open>Time passes while a transmission ends.\<close>

lemma sendMsg_loop_later: "sendMsg_loop k fd m b w = Some x \<Longrightarrow> io_tick w \<le> io_tick (snd x)"
  by (erule sendMsg_loop.raw_induct [rotated]) (fastforce simp: Let_def split: if_splits)

lemma sendTxDoneIndication_later: "sendTxDoneIndication k p r s = Inr s' \<Longrightarrow> io_tick (sio s) \<le> io_tick (sio s')"
  by (auto simp: sendTxDoneIndication_def node_send_def sendMsg_def split: option.splits dest!: sendMsg_loop_later)

lemma txDone_later: "txDone p pkt s = Inr s' \<Longrightarrow> io_tick (sio s) \<le> io_tick (sio s')"
  by (auto simp: txDone_def txPacket_def setTxPacket_def Let_def split: if_splits)

lemma txExpired_later:
  assumes "txExpired k p s = Inr s'" and "heap s p = Some n" and "tx_node n"
  shows "io_tick (sio s) < io_tick (sio s')"
proof -
  obtain pkt where pkt: "txPkt n = Some pkt" using assms(3) by (auto simp: tx_node_def)
  let ?pkt = "pkt\<lparr>txDoneResult := tx_result pkt\<rparr>"
  let ?s1 = "set_node p ((done_node n)\<lparr>txPkt := Some ?pkt\<rparr>) (s\<lparr>sio := tick (sio s)\<rparr>)"
  from assms(1) obtain s2 s3 where s2: "sendTxDoneIndication k p (tx_result pkt) ?s1 = Inr s2"
      "txDone p ?pkt s2 = Inr s3" "setTxPacket p None s3 = Inr s'"
    using handleTxTimerExpired_ok [OF assms(2,3) pkt] assms(2) pkt by (auto simp: txExpired_def getTxPacket_def)
  have "io_tick (sio s') = io_tick (sio s3)" using s2(3) by (auto simp: setTxPacket_def)
  then show ?thesis using sendTxDoneIndication_later [OF s2(1)] txDone_later [OF s2(2)] by simp
qed

lemma processTx_expired:
  assumes "send_spec k" and "wf s" and "txList s = seen @ p # rest" and "frames_ok s"
  shows "\<exists>s1. txExpired k p (s\<lparr>sio := tick (sio s)\<rparr>) = Inr s1 \<and> io_tick (sio s) < io_tick (sio s1) \<and> tx_outcome k s (s1\<lparr>txList := seen @ rest\<rparr>) [p]
    \<and> wf (s1\<lparr>txList := seen @ rest\<rparr>) \<and> frames_ok (s1\<lparr>txList := seen @ rest\<rparr>)"
proof -
  let ?s = "s\<lparr>sio := tick (sio s)\<rparr>"
  have p: "p \<in> set (txList s)" "p \<notin> set rest" "p \<notin> set seen" using assms(3) wf_distinct_tx [OF assms(2)] by auto
  obtain n where n: "heap s p = Some n" "tx_node n" "p \<noteq> 0" using wf_txList [OF assms(2) p(1)] by blast
  have "collision (pkt_of s p) \<or> sendable (pktBuffer (pkt_of s p))" using assms(4) p(1) by (auto simp: frames_ok_def)
  then obtain s1 where s1: "txExpired k p ?s = Inr s1" "tx_outcome k ?s s1 [p]"
    using txExpired_outcome [of ?s p n k] n assms(1) by (auto simp: pkt_of_def)
  have o1: "tx_outcome k s (s1\<lparr>txList := seen @ rest\<rparr>) [p]" using s1(2) by simp
  moreover have "wf (s1\<lparr>txList := seen @ rest\<rparr>)" using wf_end_tx [OF assms(2,3) o1] by simp
  moreover have "frames_ok (s1\<lparr>txList := seen @ rest\<rparr>)"
    using assms(3,4) tx_outcome_other(2) [OF o1] p unfolding frames_ok_def by fastforce
  moreover have "io_tick (sio s) < io_tick (sio s1)" using txExpired_later [OF s1(1), of n] n by simp
  ultimately show ?thesis using s1(1) by blast
qed

lemma processTx_loop_visits:
  assumes "send_spec k" and "timers_ok k"
  shows "wf s \<Longrightarrow> txList s = seen @ rest \<Longrightarrow> frames_ok s \<Longrightarrow>
    \<exists>s' ts. processTx_loop k seen rest s = Inr s' \<and> wf s' \<and> frames_ok s'
      \<and> length ts = length rest \<and> visits k (io_tick (sio s)) ts \<and> tx_outcome k s s' (expired_of k rest ts)
      \<and> txList s' = seen @ filter (\<lambda>p. p \<notin> set (expired_of k rest ts)) rest"
proof (induction rest arbitrary: seen s)
  case Nil
  then show ?case using tx_outcome_refl by (intro exI [of _ s] exI [of _ "[]"]) simp
next
  case (Cons p rest)
  have p: "p \<in> set (txList s)" "p \<notin> set rest" "p \<notin> set seen"
    using Cons.prems(2) wf_distinct_tx [OF Cons.prems(1)] by auto
  obtain n where n: "heap s p = Some n" "tx_node n" "p \<noteq> 0" using wf_txList [OF Cons.prems(1) p(1)] by blast
  let ?s = "s\<lparr>sio := tick (sio s)\<rparr>" and ?t = "io_tick (sio s)"
  have exp: "hasTxTimerExpired k p s = Inr (expired_at k ?t, ?s)"
    using n(1,2) assms(2) by (intro hasTxTimerExpired_ok) (auto simp: tx_node_def)
  have nin: "p \<notin> set (expired_of k rest ts)" for ts using expired_of_subset [of k rest ts] p(2) by blast
  show ?case
  proof (cases "expired_at k ?t")
    case True
    obtain s1 where s1: "txExpired k p ?s = Inr s1" "?t < io_tick (sio s1)" and o1: "tx_outcome k s (s1\<lparr>txList := seen @ rest\<rparr>) [p]"
      and ok: "wf (s1\<lparr>txList := seen @ rest\<rparr>)" "frames_ok (s1\<lparr>txList := seen @ rest\<rparr>)"
      using processTx_expired [OF assms(1) Cons.prems] by blast
    obtain s' ts where IH: "processTx_loop k seen rest (s1\<lparr>txList := seen @ rest\<rparr>) = Inr s'" "wf s'" "frames_ok s'"
        "length ts = length rest" "visits k (io_tick (sio s1)) ts" "tx_outcome k (s1\<lparr>txList := seen @ rest\<rparr>) s' (expired_of k rest ts)"
        "txList s' = seen @ filter (\<lambda>p. p \<notin> set (expired_of k rest ts)) rest"
      using Cons.IH [OF ok(1) _ ok(2), of seen] by auto
    have "filter (\<lambda>q. q \<notin> set (p # expired_of k rest ts)) (p # rest) = filter (\<lambda>q. q \<notin> set (expired_of k rest ts)) rest"
      using p(2) by (auto intro!: filter_cong)
    moreover have "processTx_loop k seen (p # rest) s = Inr s'" using exp True s1(1) IH(1) by simp
    ultimately show ?thesis
      using IH True s1(2) tx_outcome_Cons [OF o1 IH(6) nin] visits_Cons(1) [OF True s1(2) IH(5)]
      by (intro exI [of _ s'] exI [of _ "?t # ts"]) (simp del: visits.simps)
  next
    case False
    obtain s' ts where IH: "processTx_loop k (seen @ [p]) rest ?s = Inr s'" "wf s'" "frames_ok s'"
        "length ts = length rest" "visits k (Suc ?t) ts" "tx_outcome k s s' (expired_of k rest ts)"
        "txList s' = (seen @ [p]) @ filter (\<lambda>p. p \<notin> set (expired_of k rest ts)) rest"
      using Cons.IH [of ?s "seen @ [p]"] Cons.prems by auto
    have "processTx_loop k seen (p # rest) s = Inr s'" using exp False IH(1) by simp
    then show ?thesis
      using IH False nin [of ts] visits_Cons(2) [OF False IH(5)] by (intro exI [of _ s'] exI [of _ "?t # ts"]) (simp del: visits.simps)
  qed
qed

lemma processTx_loop_outcome:
  assumes "send_spec k" and "timers_ok k" and "wf s" and "txList s = seen @ rest" and "frames_ok s"
  shows "\<exists>s' ds. processTx_loop k seen rest s = Inr s' \<and> wf s' \<and> frames_ok s' \<and> tx_outcome k s s' ds
      \<and> distinct ds \<and> set ds \<subseteq> set rest \<and> txList s' = seen @ filter (\<lambda>p. p \<notin> set ds) rest
      \<and> ((\<forall>t. expired_at k t) \<longrightarrow> ds = rest) \<and> ((\<forall>t. \<not> expired_at k t) \<longrightarrow> ds = [])"
proof -
  obtain s' ts where s': "processTx_loop k seen rest s = Inr s'" "wf s'" "frames_ok s'" "length ts = length rest"
      "tx_outcome k s s' (expired_of k rest ts)" "txList s' = seen @ filter (\<lambda>p. p \<notin> set (expired_of k rest ts)) rest"
    using processTx_loop_visits [OF assms] by blast
  have "distinct rest" using wf_distinct_tx [OF assms(3)] assms(4) by simp
  then have "distinct (expired_of k rest ts)"
    using s'(4) by (rule distinct_expired_of)
  then show ?thesis
    using s' expired_of_subset [of k rest ts] expired_of_uniform [where k = k and xs = rest and ts = ts] by (intro exI [of _ s'] exI [of _ "expired_of k rest ts"]) auto
qed


section \<open>Collisions\<close>

text \<open>
  \<^verbatim>\<open>txCollisionCheck\<close> is virtual; what the loop of \<^verbatim>\<open>run\<close> needs of an implementation is that it returns and
  changes nothing but the collision flags of packets, and those only to \<open>True\<close>. The locale states
  this contract and what follows for the medium; both implementations satisfy it.
\<close>

definition flagged :: "DeviceNode \<Rightarrow> DeviceNode" where
  "flagged n = n\<lparr>txPkt := map_option (setCollided True) (txPkt n)\<rparr>"

definition flag_all :: "nptr set \<Rightarrow> sys \<Rightarrow> sys" where
  "flag_all P s = s\<lparr>heap := (\<lambda>q. if q \<in> P then map_option flagged (heap s q) else heap s q)\<rparr>"

lemma flagged_class:
  "reg_node (flagged n) = reg_node n" "idle_node (flagged n) = idle_node n" "tx_node (flagged n) = tx_node n"
  "socket_ptr (flagged n) = socket_ptr n" "dn_socket (flagged n) = dn_socket n"
  by (auto simp: flagged_def node_class_defs setCollided_def wf_packet_def)

lemma flag_all_frame [simp]:
  "txList (flag_all P s) = txList s" "ccaList (flag_all P s) = ccaList s" "sio (flag_all P s) = sio s"
  "regListMap (flag_all P s) = regListMap s" "nodeHashMap (flag_all P s) = nodeHashMap s"
  "pm_state (flag_all P s) = pm_state s" "tx_pkts_ok (flag_all P s) = tx_pkts_ok s"
  "tx_pkts_collided (flag_all P s) = tx_pkts_collided s" "curTime (flag_all P s) = curTime s"
  "tx_pkts_failed (flag_all P s) = tx_pkts_failed s"
  by (simp_all add: flag_all_def)

lemma wf_flag_all:
  assumes "wf s"
  shows "wf (flag_all P s)"
proof -
  let ?h = "\<lambda>q. if q \<in> P then map_option flagged (heap s q) else heap s q"
  have E: "entries_ok (heap s) (regListMap s) (nodeHashMap s)" using assms by (rule wf_entries)
  have upd: "\<exists>n'. ?h q = Some n' \<and> socket_ptr n' = socket_ptr n \<and> reg_node n' = reg_node n
      \<and> idle_node n' = idle_node n \<and> tx_node n' = tx_node n" if "heap s q = Some n" for q n
    using that by (cases "q \<in> P") (simp_all add: flagged_class)
  have "entries_ok ?h (regListMap s) (nodeHashMap s)"
  proof (rule entries_okI)
    show "?h 0 = None" using E by (simp add: entries_ok_def)
    show "\<exists>n. ?h q = Some n \<and> socket_ptr n = i \<and> reg_node n" if "map_of (regListMap s) i = Some q" for i q
      using reg_entry [OF E that] upd by blast
    show "\<exists>n. ?h q = Some n \<and> socket_ptr n = i \<and> (idle_node n \<or> tx_node n)" if "map_of (nodeHashMap s) i = Some q" for i q
      using hash_entry [OF E that] upd by blast
  qed
  moreover have "on_air ?h (nodeHashMap s) q = on_air (heap s) (nodeHashMap s) q" for q
    using flagged_class(3) by (auto simp: on_air_def split: if_splits)
  ultimately show ?thesis
    using assms by (simp add: wf_def wfc_def flag_all_def lists_ok_def)
qed

lemma flag_all_pkt:
  assumes "heap s p = Some n" and "txPkt n = Some pkt"
  shows "pkt_of (flag_all P s) p = (if p \<in> P then setCollided True pkt else pkt)" "fd_of (flag_all P s) p = fd_of s p"
    "id_of (flag_all P s) p = id_of s p"
  using assms by (simp_all add: pkt_of_def flag_all_def flagged_def fd_of_def id_of_def)

lemma frames_ok_flag_all:
  assumes "wf s" and "frames_ok s"
  shows "frames_ok (flag_all P s)"
  unfolding frames_ok_def
proof
  fix p
  assume "p \<in> set (txList (flag_all P s))"
  then have p: "p \<in> set (txList s)" by simp
  obtain n pkt where "heap s p = Some n" "txPkt n = Some pkt"
    using wf_txList [OF assms(1) p] unfolding tx_node_def by blast
  with flag_all_pkt [OF this] assms(2) p
  show "collision (pkt_of (flag_all P s) p) \<or> sendable (pktBuffer (pkt_of (flag_all P s) p))"
    by (auto simp: frames_ok_def setCollided_def pkt_of_def)
qed

locale collision_policy =
  fixes check :: "sys \<Rightarrow> sys res"
  assumes check_flags: "wf s \<Longrightarrow> \<exists>P \<subseteq> set (txList s). check s = Inr (flag_all P s)"
begin

lemma check_keeps: "wf s \<Longrightarrow> check s = Inr s' \<Longrightarrow> wf s' \<and> txList s' = txList s \<and> sio s' = sio s
    \<and> pm_state s' = pm_state s \<and> (frames_ok s \<longrightarrow> frames_ok s')"
  using check_flags [of s] wf_flag_all frames_ok_flag_all by auto

lemma check_returns: "wf s \<Longrightarrow> \<exists>s'. check s = Inr s'"
  using check_flags by blast

lemma check_then_process:
  assumes "wf s" and "frames_ok s" and "send_spec k" "timers_ok k"
  shows "\<exists>s'. bindE (check s) (processTxList k) = Inr s' \<and> wf s' \<and> frames_ok s' \<and> set (txList s') \<subseteq> set (txList s)
    \<and> pm_state s' = pm_state s"
proof -
  obtain s1 where s1: "check s = Inr s1" using check_returns [OF assms(1)] by blast
  note keeps = check_keeps [OF assms(1) s1]
  then obtain s' ds where "processTx_loop k [] (txList s1) s1 = Inr s'" "wf s'" "frames_ok s'" "tx_outcome k s1 s' ds"
      "txList s' = filter (\<lambda>p. p \<notin> set ds) (txList s1)"
    using processTx_loop_outcome [OF assms(3,4), of s1 "[]" "txList s1"] assms(2) by auto
  then show ?thesis
    using keeps s1 by (auto simp: processTxList_def tx_outcome_def)
qed

end

lemma collide_loop_flags:
  assumes "\<forall>p \<in> set l. \<exists>n pkt. heap s p = Some n \<and> txPkt n = Some pkt"
  shows "collide_loop l s = Inr (flag_all (set l) s)"
  using assms
proof (induction l arbitrary: s)
  case Nil
  then show ?case by (simp add: flag_all_def)
next
  case (Cons p l)
  from Cons.prems obtain n pkt where n: "heap s p = Some n" "txPkt n = Some pkt" by auto
  let ?s = "set_node p (n\<lparr>txPkt := Some (setCollided True pkt)\<rparr>) s"
  have "\<forall>q \<in> set l. \<exists>n pkt. heap ?s q = Some n \<and> txPkt n = Some pkt"
    using Cons.prems by auto
  from Cons.IH [OF this] have "collide_loop (p # l) s = Inr (flag_all (set l) ?s)"
    using n by (simp add: getTxPacket_def setTxPacket_def)
  moreover have "flag_all (set l) ?s = flag_all (set (p # l)) s"
    using n by (auto simp: flag_all_def set_node_def flagged_def setCollided_def fun_eq_iff)
  ultimately show ?case by simp
qed

lemma wf_tx_packets: "wf s \<Longrightarrow> \<forall>p \<in> set (txList s). \<exists>n pkt. heap s p = Some n \<and> txPkt n = Some pkt"
  by (meson wf_txList tx_node_def)

lemma powerline_check_eq:
  "wf s \<Longrightarrow> powerline_txCollisionCheck s = Inr (flag_all (if length (txList s) > 1 then set (txList s) else {}) s)"
  using collide_loop_flags [OF wf_tx_packets] by (simp add: powerline_txCollisionCheck_def flag_all_def)

lemma wireless_check_eq: "wireless_txCollisionCheck s = Inr (flag_all {} s)"
  by (simp add: wireless_txCollisionCheck_def flag_all_def)

interpretation powerline: collision_policy powerline_txCollisionCheck
  by unfold_locales (use powerline_check_eq in fastforce)

interpretation wireless: collision_policy wireless_txCollisionCheck
  by unfold_locales (use wireless_check_eq in fastforce)


section \<open>Properties\<close>

text \<open>The example medium with its node transmitting a packet.\<close>

definition sample_data_ind :: netsim_data_ind_pkt where
  "sample_data_ind = \<lparr> di_hdr = new_hdr 37 MSG_TYPE_TX_DATA_IND 0x2000, di_source_addr = 0, di_psdu_len = htons 3,
     di_extra_hdr = 0, di_rep_code = 0, di_tx_power = 0, di_cca_mode = 0, di_rssi = 0, di_pktData = [1, 2, 3] \<rparr>"

definition sample_msg :: "byte list" where
  "sample_msg = mem_data_ind (seal mem_data_ind di_hdr_update sample_data_ind)"

lemma sample_msg_valid: "valid_frame 0x2000 MSG_TYPE_TX_DATA_IND sample_msg" "length sample_msg = 37"
    "psdu_len_of sample_msg = 3" "sendable sample_msg"
proof -
  show "valid_frame 0x2000 MSG_TYPE_TX_DATA_IND sample_msg"
    unfolding sample_msg_def by (rule data_ind.seal_valid) (simp_all add: sample_data_ind_def new_hdr_def)
  show l: "length sample_msg = 37"
    unfolding sample_msg_def data_ind.length_mem data_ind.body_seal by (simp add: sample_data_ind_def)
  have "get 26 2 (mem_hdr h @ le_bytes 8 (a :: u64) @ le_bytes 2 (b :: u16) @ r) = le_bytes 2 b" for h a b r
    by (simp add: get_def)
  then show p: "psdu_len_of sample_msg = 3"
    unfolding psdu_len_of_def sample_msg_def data_ind.mem_seal
    by (simp add: sample_data_ind_def size_defs)
  show "sendable sample_msg" using l p by (simp add: sendable_def size_defs)
qed


definition sample_packet :: "nptr \<Rightarrow> NetSimPacket" where
  "sample_packet p = \<lparr> pktBufferLen = 37, pktBuffer = sample_msg, fromNode = p, collision = False, txDoneResult = 0 \<rparr>"

lemma grow_medium:
  assumes "wf s" and "fresh s p sp" and "sp \<noteq> 0"
  obtains s' n where "wf s'" "txList s' = txList s @ [p]" "heap s' = (heap s)(p \<mapsto> n)" "txPkt n = Some (sample_packet p)"
    "regListMap s' = regListMap s" "map_of (nodeHashMap s') = (map_of (nodeHashMap s))(sp \<mapsto> p)"
    "sock_fd (dn_socket n) = 7" "socket_ptr n = sp"
proof -
  let ?t = "(DeviceNodeTimer_new 0 0 0 0)\<lparr>tmr_started := True\<rparr>"
  let ?n1 = "(newcomer 7 sp ?t)\<lparr>dn_medium := True\<rparr>"
  let ?s1 = "set_node p ?n1 (s\<lparr>regListMap := um_insert sp p (regListMap s), sio := sio s\<rparr>)"
  let ?n2 = "confirmed [] [] ?n1"
  let ?s2 = "set_node p ?n2 (registered_as sp p ?s1)"
  let ?n3 = "transmitting (sample_packet p) ?t ?n2"
  let ?s3 = "set_node p ?n3 (?s2\<lparr>txList := txList s @ [p]\<rparr>)"
  have f: "p \<noteq> 0" "heap s p = None" "map_of (regListMap s) sp = None" "map_of (nodeHashMap s) sp = None"
    using assms(2) by (auto simp: fresh_def)
  have n1: "reg_node ?n1" "socket_ptr ?n1 = sp" "sock_fd (dn_socket ?n1) = 7"
    using assms(3) by (simp_all add: reg_node_def newcomer_def DeviceNode_pimpl_def DeviceNodeTimer_new_def Socket_new_def
        setSockFd_def)
  have um: "um_wf (regListMap s)" "um_wf (nodeHashMap s)" using wf_um [OF assms(1)] by simp_all
  have w1: "wf ?s1" using assms(1,3) f by (intro wf_join) simp_all
  have reg: "map_of (regListMap ?s1) sp = Some p" using um f by (simp add: um.look_ins_new)
  have w2: "wf ?s2" using wf_register [OF w1, of p ?n1 "[]" "[]" "sio s"] n1 reg by (simp add: registered_as_def wf_def)
  have hash: "map_of (nodeHashMap ?s2) = (map_of (nodeHashMap s))(sp \<mapsto> p)"
    using um f by (simp add: registered_as_def um.look_ins_new)
  have i2: "idle_node ?n2" "socket_ptr ?n2 = sp" "sock_fd (dn_socket ?n2) = 7"
    using confirmed_idle(1) [OF n1(1)] confirmed_idle(2) n1 by (simp_all add: confirmed_def)
  have pk: "wf_packet (sample_packet p)" using sample_msg_valid(2) by (simp add: wf_packet_def sample_packet_def)
  have tx2: "txList ?s2 = txList s" by (simp add: registered_as_def)
  have "wf ?s3" using wf_begin_tx [OF w2, of p ?n2 ?t] i2 hash pk unfolding tx2 by simp
  moreover have "regListMap ?s3 = regListMap s"
    using f(3) by (auto simp: registered_as_def um_insert_def um_erase_def map_of_eq_None_iff intro!: filter_True)
  ultimately show thesis
    using hash i2
    by (intro that [of ?s3 ?n3]) (simp_all add: transmitting_def registered_as_def)
qed

lemma two_on_air:
  obtains s where "wf s" "txList s = [0x1000, 0x3000]" "pkt_of s 0x1000 = sample_packet 0x1000"
    "pkt_of s 0x3000 = sample_packet 0x3000" "dom (heap s) = {0x1000, 0x3000}"
proof -
  have f: "fresh empty_medium 0x1000 0x2000" "txList empty_medium = []" "(0x2000 :: u64) \<noteq> 0" "(0x4000 :: u64) \<noteq> 0"
    by (simp_all add: fresh_def empty_medium_def)
  obtain s1 n1 where s1: "wf s1" "txList s1 = [0x1000]"
      "heap s1 = (heap empty_medium)(0x1000 \<mapsto> n1)" "txPkt n1 = Some (sample_packet 0x1000)"
      "regListMap s1 = regListMap empty_medium" "map_of (nodeHashMap s1) = (map_of (nodeHashMap empty_medium))(0x2000 \<mapsto> 0x1000)"
    by (rule grow_medium [OF wf_empty_medium f(1,3)]) (simp add: f(2))
  then have g: "fresh s1 0x3000 0x4000" by (simp add: fresh_def empty_medium_def)
  obtain s2 n2 where "wf s2" "txList s2 = [0x1000, 0x3000]"
      "heap s2 = (heap s1)(0x3000 \<mapsto> n2)" "txPkt n2 = Some (sample_packet 0x3000)"
    by (rule grow_medium [OF s1(1) g f(4)]) (simp add: s1(2))
  then show thesis using s1(3,4) by (intro that [of s2]) (auto simp: pkt_of_def empty_medium_def)
qed

lemma frames_ok_two: "txList s = [p, q] \<Longrightarrow> pkt_of s p = sample_packet p \<Longrightarrow> pkt_of s q = sample_packet q \<Longrightarrow> frames_ok s"
  using sample_msg_valid(4) by (simp add: frames_ok_def sample_packet_def)


text \<open>
  C8: one pass of \<^verbatim>\<open>processTxList\<close>, when every packet on the air that has not collided holds the frame it announces. It returns. The timer of
  every node on the list is read, in the order of the list and each right after the other or after the work on the one before, and exactly the nodes whose timer
  is found expired are done: they leave the transmit list and
  become idle again, each is told the result of its own packet (collided or OK), exactly the packets of these that have
  not collided are multicast, once each, in the order of the list, as the stored buffer with RSSI 127 and a
  new checksum, and the two counters grow by the numbers of packets of each kind. The others stay as they are, and the invariant is kept.
\<close>

theorem processTxList_outcome:
  assumes "wf s" and "frames_ok s" and "send_spec k" and "timers_ok k"
  shows "\<exists>s' ts. processTxList k s = Inr s' \<and> wf s' \<and> length ts = length (txList s) \<and> visits k (io_tick (sio s)) ts
    \<and> tx_outcome k s s' (expired_of k (txList s) ts) \<and> txList s' = filter (\<lambda>p. p \<notin> set (expired_of k (txList s) ts)) (txList s)"
  using processTx_loop_visits [OF assms(3,4,1) _ assms(2), of "[]" "txList s"] by (auto simp: processTxList_def)

theorem processTxList_outcome_witness:
  "\<exists>s s'. txList s = [0x1000, 0x3000] \<and> processTxList ok_kernel s = Inr s' \<and> txList s' = []
    \<and> tx_pkts_ok s' = tx_pkts_ok s + 2"
proof (rule two_on_air)
  fix s
  assume s: "wf s" "txList s = [0x1000, 0x3000]" "pkt_of s 0x1000 = sample_packet 0x1000" "pkt_of s 0x3000 = sample_packet 0x3000"
  have "\<forall>t. expired_at ok_kernel t" by (simp add: expired_at_def ok_kernel_def)
  then obtain s' where s': "processTxList ok_kernel s = Inr s'" "tx_outcome ok_kernel s s' (txList s)"
      "txList s' = filter (\<lambda>p. p \<notin> set (txList s)) (txList s)"
    using processTxList_outcome [OF s(1) frames_ok_two [OF s(2-4)] ok_kernel_specs(1) ok_kernel_timers] expired_of_uniform(1) by metis
  then have "tx_pkts_ok s' = tx_pkts_ok s + 2" "txList s' = []"
    by (simp_all add: tx_outcome_def s images_def sample_packet_def)
  with s(2) s'(1) show ?thesis by blast
qed

text \<open>One check of a powerline medium with two or more nodes on the air, and the pass that follows, return and multicast nothing.\<close>

lemma overlapping_pass:
  assumes "wf s" and "1 < length (txList s)" and "send_spec k" "timers_ok k"
  shows "\<exists>s1 s'. powerline_txCollisionCheck s = Inr s1 \<and> processTxList k s1 = Inr s' \<and> wf s'
    \<and> (\<forall>p \<in> set (txList s). collision (pkt_of s1 p))
    \<and> mcasts (io_out (sio s')) = mcasts (io_out (sio s)) \<and> tx_pkts_ok s' = tx_pkts_ok s
    \<and> tx_pkts_collided s' = tx_pkts_collided s + int (length (txList s)) - int (length (txList s'))"
proof -
  let ?s1 = "flag_all (set (txList s)) s"
  have c: "collision (pkt_of ?s1 p)" if "p \<in> set (txList s)" for p
    using wf_tx_packets [OF assms(1)] that flag_all_pkt(1) [of s p] by (auto simp: setCollided_def)
  then have f: "frames_ok ?s1" by (simp add: frames_ok_def)
  obtain s' ds where s': "processTx_loop k [] (txList s) ?s1 = Inr s'" "wf s'" "tx_outcome k ?s1 s' ds" "distinct ds"
      "set ds \<subseteq> set (txList s)" "txList s' = filter (\<lambda>p. p \<notin> set ds) (txList s)"
    using processTx_loop_outcome [OF assms(3,4) wf_flag_all [OF assms(1)], of "set (txList s)" "[]" "txList s"] f by auto
  have im: "images ?s1 ds = []" "filter (\<lambda>p. collision (pkt_of ?s1 p)) ds = ds"
    using c s'(5) by (auto simp: images_def filter_empty_conv intro!: filter_True)
  have "length (filter (\<lambda>p. p \<notin> set ds) (txList s)) = length (txList s) - length ds"
    using distinct_filter_out [OF wf_distinct_tx [OF assms(1)] s'(4,5)] .
  moreover have "length ds \<le> length (txList s)" using s'(4,5) by (metis card_length card_mono distinct_card finite_set le_trans)
  ultimately show ?thesis
    using powerline_check_eq [OF assms(1)] assms(2) s' im c
    by (intro exI [of _ ?s1] exI [of _ s']) (auto simp: processTxList_def tx_outcome_def)
qed

text \<open>
  A node alone on the powerline medium does not collide at the check, and on the wireless medium nobody
  ever does: however many nodes are on the air, the check changes nothing, and when all timers have
  expired every packet on the list is multicast.
\<close>

theorem wireless_never_collides:
  assumes "wf s" and "frames_ok s" and "send_spec k" "timers_ok k" and "\<forall>t. expired_at k t"
    and "\<forall>p \<in> set (txList s). \<not> collision (pkt_of s p)"
  shows "\<exists>s'. wireless_txCollisionCheck s = Inr s \<and> processTxList k s = Inr s' \<and> txList s' = []
    \<and> mcasts (io_out (sio s')) = mcasts (io_out (sio s)) @ map (\<lambda>p. tx_image (pktBuffer (pkt_of s p))) (txList s)
    \<and> tx_pkts_ok s' = tx_pkts_ok s + int (length (txList s)) \<and> tx_pkts_collided s' = tx_pkts_collided s
    \<and> (length (txList s) \<le> 1 \<longrightarrow> powerline_txCollisionCheck s = Inr s)"
proof -
  obtain s' where s': "processTx_loop k [] (txList s) s = Inr s'" "tx_outcome k s s' (txList s)"
      "txList s' = filter (\<lambda>p. p \<notin> set (txList s)) (txList s)"
    using processTx_loop_outcome [OF assms(3,4,1) _ assms(2), of "[]" "txList s"] assms(5) by auto
  have "images s (txList s) = map (\<lambda>p. tx_image (pktBuffer (pkt_of s p))) (txList s)"
    "filter (\<lambda>p. collision (pkt_of s p)) (txList s) = []"
    using assms(6) by (simp_all add: images_def filter_empty_conv filter_True)
  with s' show ?thesis
    by (intro exI [of _ s'])
      (simp add: processTxList_def tx_outcome_def wireless_txCollisionCheck_def powerline_txCollisionCheck_def)
qed

theorem wireless_never_collides_witness:
  "\<exists>s s'. txList s = [0x1000, 0x3000] \<and> processTxList ok_kernel s = Inr s' \<and> tx_pkts_ok s' = tx_pkts_ok s + 2"
proof (rule two_on_air)
  fix s
  assume s: "wf s" "txList s = [0x1000, 0x3000]" "pkt_of s 0x1000 = sample_packet 0x1000" "pkt_of s 0x3000 = sample_packet 0x3000"
  have e: "\<forall>t. expired_at ok_kernel t" by (simp add: expired_at_def ok_kernel_def)
  have "\<forall>p \<in> set (txList s). \<not> collision (pkt_of s p)" using s by (simp add: sample_packet_def)
  then show ?thesis
    using wireless_never_collides [OF s(1) frames_ok_two [OF s(2-4)] ok_kernel_specs(1) ok_kernel_timers e] s(2) by auto
qed

lemma tx_image_valid:
  assumes "valid_frame nid MSG_TYPE_TX_DATA_IND m" and "sendable m"
  shows "valid_frame nid MSG_TYPE_TX_DATA_IND (tx_image (clear_cksum m))
    \<and> tx_image (clear_cksum m) ! RSSI_OFF = 127 \<and> length (tx_image (clear_cksum m)) = length m
    \<and> frame_of (tx_image (clear_cksum m)) = frame_of m"
proof -
  have l: "34 \<le> length m" using assms(2) by (simp add: sendable_def size_defs)
  let ?z = "le_bytes 2 (0 :: u16)"
  define b where "b = put 33 [127] (put 16 ?z m)"
  define c where "c = le_bytes 2 (htons (generate_checksum b))"
  have lb: "length b = length m" "length c = 2" using l by (simp_all add: b_def c_def)
  have im: "tx_image (clear_cksum m) = put 16 c b"
    by (simp add: tx_image_def clear_cksum_def Let_def size_defs b_def c_def)
  have hd: "get off n (put 16 c b) = get off n m" if "off + n \<le> 16" for off n
    using that l lb by (simp add: get_put_before b_def)
  have tl: "get off n (put 16 c b) = get off n m" if "34 \<le> off \<or> 18 \<le> off \<and> off + n \<le> 33" for off n
    using that l lb by (auto simp: get_put_after get_put_before b_def)
  have "get 16 2 b = ?z" using l get_put_same [of 16 ?z m] by (simp add: b_def get_put_before)
  then have "clear_cksum (put 16 c b) = b"
    using put_put_same [of ?z c 16 b] put_get_same [of 16 2 b] l lb by (simp add: clear_cksum_def size_defs)
  moreover have "rx_cksum (put 16 c b) = generate_checksum b"
    using get_put_same [of 16 c b] l lb by (simp add: rx_cksum_def size_defs c_def)
  moreover have "b ! 33 = 127" "put 16 c b ! 33 = b ! 33"
    using l lb by (simp_all add: b_def put_def nth_append)
  ultimately show ?thesis
    using assms(1) hd tl l lb unfolding im
    by (simp add: valid_frame_def hdr_of_def size_defs frame_of_def psdu_len_of_def)
qed

text \<open>
  What is multicast is a message the receiving nodes accept. When a valid data indication \<open>m\<close> has been stored
  with its checksum field blanked, as \<^verbatim>\<open>readMsg\<close> does, its multicast image is again a valid data
  indication from the same node, of the same length, with RSSI 127 and the same frame.
\<close>

theorem multicast_image_valid:
  assumes "valid_frame nid MSG_TYPE_TX_DATA_IND m" and "sendable m"
  shows "valid_frame nid MSG_TYPE_TX_DATA_IND (tx_image (clear_cksum m))
    \<and> tx_image (clear_cksum m) ! RSSI_OFF = 127 \<and> length (tx_image (clear_cksum m)) = length m
    \<and> frame_of (tx_image (clear_cksum m)) = frame_of m"
  using assms by (rule tx_image_valid)

theorem multicast_image_valid_witness:
  "valid_frame 0x2000 MSG_TYPE_TX_DATA_IND (tx_image (clear_cksum sample_msg)) \<and> tx_image (clear_cksum sample_msg) ! 33 = 127"
  using multicast_image_valid [OF sample_msg_valid(1,4)] by (simp add: size_defs)

end
