(* ===== verification/Medium_Expiry.thy ===== *)
theory Medium_Expiry
  imports Medium_Tx
begin

text \<open>
  The pass over the registration list, and partial versions of the operations of a medium: what
  holds of the state when they return, with no assumption on the system calls.
\<close>

section \<open>Registration time out\<close>

definition fd_closes :: "sys \<Rightarrow> nptr list \<Rightarrow> io_event list" where
  "fd_closes s ds = map (\<lambda>p. CloseFd (fd_of s p)) (filter (\<lambda>p. fd_of s p \<noteq> - 1) ds)"

definition gone :: "sys \<Rightarrow> sys \<Rightarrow> nptr list \<Rightarrow> bool" where
  "gone s s' ds \<longleftrightarrow> heap s' = (\<lambda>q. if q \<in> set ds then None else heap s q)
     \<and> io_out (sio s') = io_out (sio s) @ fd_closes s ds
     \<and> nodeHashMap s' = nodeHashMap s \<and> ccaList s' = ccaList s \<and> txList s' = txList s \<and> pm_state s' = pm_state s
     \<and> tx_pkts_ok s' = tx_pkts_ok s \<and> tx_pkts_collided s' = tx_pkts_collided s \<and> tx_pkts_failed s' = tx_pkts_failed s"

lemma gone_frame [simp]:
  "gone (s\<lparr>sio := tick (sio s)\<rparr>) s' ds = gone s s' ds" "gone (s\<lparr>regListMap := r\<rparr>) s' ds = gone s s' ds"
  by (simp_all add: gone_def fd_closes_def fd_of_def cong: if_cong)

lemma gone_Cons:
  assumes "gone s s1 [p]" and "gone s1 s' ds" and "p \<notin> set ds"
  shows "gone s s' (p # ds)"
proof -
  have ne: "fd_of s1 q = fd_of s q" if "q \<in> set ds" for q
    using that assms(1,3) by (auto simp: gone_def fd_of_def)
  then have "filter (\<lambda>p. fd_of s1 p \<noteq> - 1) ds = filter (\<lambda>p. fd_of s p \<noteq> - 1) ds"
    by (intro filter_cong) auto
  with ne have "fd_closes s1 ds = fd_closes s ds" by (simp add: fd_closes_def)
  then have "fd_closes s (p # ds) = fd_closes s [p] @ fd_closes s1 ds" by (simp add: fd_closes_def)
  moreover have "heap s' = (\<lambda>q. if q \<in> set (p # ds) then None else heap s q)"
    using assms(1,2) by (auto simp: gone_def fun_eq_iff)
  ultimately show ?thesis using assms(1,2) by (simp add: gone_def)
qed

lemma regTimer_expires:
  assumes "wf s" and "regListMap s = seen @ (i, p) # rest" and "timers_ok k"
  shows "getNodeId p s = Inr i"
    and "hasRegTimerExpired k p s = Inr (expired_at k (io_tick (sio s)), s\<lparr>sio := tick (sio s)\<rparr>)"
    and "\<exists>s'. handleRegTimerExpired p (s\<lparr>regListMap := seen @ rest, sio := tick (sio s)\<rparr>) = Inr s'
      \<and> gone s s' [p] \<and> regListMap s' = seen @ rest \<and> wf s' \<and> io_tick (sio s) < io_tick (sio s')"
proof -
  have u: "um_wf (regListMap s)" using wf_um(1) [OF assms(1)] .
  then have m: "map_of (regListMap s) i = Some p" using um_entries [OF u, of i p] assms(2) by simp
  then obtain n where n: "heap s p = Some n" "socket_ptr n = i" "reg_node n"
    using reg_entry [OF wf_entries [OF assms(1)]] by blast
  obtain rem where r: "k_timer_gettime k (io_tick (sio s)) = Some rem"
    using assms(3) unfolding timers_ok_def by (meson not_None_eq)
  show "getNodeId p s = Inr i" using n by (simp add: getNodeId_def)
  show "hasRegTimerExpired k p s = Inr (expired_at k (io_tick (sio s)), s\<lparr>sio := tick (sio s)\<rparr>)"
    using n(1,3) r by (simp add: hasRegTimerExpired_def timer_expired_def expired_at_def reg_node_def)
  let ?s' = "s\<lparr>regListMap := seen @ rest, heap := (heap s)(p := None), sio := closing n (tick (sio s))\<rparr>"
  have run: "handleRegTimerExpired p (s\<lparr>regListMap := seen @ rest, sio := tick (sio s)\<rparr>) = Inr ?s'"
    using n(1,3) by (simp add: handleRegTimerExpired_def state_of_def reg_node_def delete_node_ok install_state_def)
  have "i \<notin> fst ` set seen" "i \<notin> fst ` set rest" using u assms(2) by (auto simp: um_wf_def)
  then have "snd (um_erase i (regListMap s)) = seen @ rest"
    unfolding assms(2) um_erase_def by (auto intro!: arg_cong2 [where f = append] filter_True)
  then have "wf ?s'"
    using wfc_leave_reg [OF assms(1) [unfolded wf_def] n(1)] m n(2) by (simp add: wf_def)
  moreover have "gone s ?s' [p]"
    using n(1) by (auto simp: gone_def closing_out fd_closes_def fd_of_def fun_eq_iff)
  ultimately show "\<exists>s'. handleRegTimerExpired p (s\<lparr>regListMap := seen @ rest, sio := tick (sio s)\<rparr>) = Inr s'
      \<and> gone s s' [p] \<and> regListMap s' = seen @ rest \<and> wf s' \<and> io_tick (sio s) < io_tick (sio s')"
    using run closing_later [of "tick (sio s)" n] by auto
qed

lemma reg_pointer_once:
  assumes "wf s" and "regListMap s = seen @ (i, p) # rest"
  shows "p \<notin> snd ` set rest"
proof
  assume "p \<in> snd ` set rest"
  then obtain j where j: "(j, p) \<in> set rest" by auto
  have u: "um_wf (regListMap s)" using wf_um(1) [OF assms(1)] .
  then have "map_of (regListMap s) j = Some p" "map_of (regListMap s) i = Some p"
    using um_entries [OF u] j assms(2) by auto
  then have "i = j" using reg_entry [OF wf_entries [OF assms(1)]] by (metis option.inject)
  with u j assms(2) show False unfolding um_wf_def by (force simp: image_iff)
qed

lemma regTimeout_loop_visits:
  assumes "timers_ok k"
  shows "wf s \<Longrightarrow> regListMap s = seen @ rest \<Longrightarrow>
    \<exists>s' ts. regTimeout_loop k seen rest s = Inr s' \<and> wf s' \<and> length ts = length rest \<and> visits k (io_tick (sio s)) ts
      \<and> gone s s' (map snd (expired_of k rest ts))
      \<and> regListMap s' = seen @ filter (\<lambda>e. e \<notin> set (expired_of k rest ts)) rest"
proof (induction rest arbitrary: seen s)
  case Nil
  then show ?case by (intro exI [of _ s] exI [of _ "[]"]) (simp add: gone_def fd_closes_def)
next
  case (Cons e rest)
  let ?t = "io_tick (sio s)"
  obtain i p where e: "e = (i, p)" by fastforce
  note step = regTimer_expires [OF Cons.prems(1) Cons.prems(2) [unfolded e] assms]
  have other: "p \<notin> snd ` set rest" using reg_pointer_once [OF Cons.prems(1) Cons.prems(2) [unfolded e]] .
  then have nin: "e \<notin> set rest" "e \<notin> set (expired_of k rest ts)" "p \<notin> set (map snd (expired_of k rest ts))" for ts
    using expired_of_subset [of k rest ts] e by force+
  show ?case
  proof (cases "expired_at k ?t")
    case True
    obtain s1 where s1: "handleRegTimerExpired p (s\<lparr>regListMap := seen @ rest, sio := tick (sio s)\<rparr>) = Inr s1"
        "gone s s1 [p]" "regListMap s1 = seen @ rest" "wf s1" "?t < io_tick (sio s1)"
      using step(3) by blast
    obtain s' ts where IH: "regTimeout_loop k seen rest s1 = Inr s'" "wf s'" "length ts = length rest"
        "visits k (io_tick (sio s1)) ts" "gone s1 s' (map snd (expired_of k rest ts))"
        "regListMap s' = seen @ filter (\<lambda>e. e \<notin> set (expired_of k rest ts)) rest"
      using Cons.IH [OF s1(4,3)] by blast
    have "filter (\<lambda>x. x \<notin> set (e # expired_of k rest ts)) (e # rest) = filter (\<lambda>x. x \<notin> set (expired_of k rest ts)) rest"
      using nin(1) by (auto intro!: filter_cong)
    moreover have "regTimeout_loop k seen (e # rest) s = Inr s'" using step(1,2) True s1(1) IH(1) e by simp
    ultimately show ?thesis
      using IH True e gone_Cons [OF s1(2) IH(5) nin(3)] visits_Cons(1) [OF True s1(5) IH(4)]
      by (intro exI [of _ s'] exI [of _ "?t # ts"]) (simp del: visits.simps)
  next
    case False
    obtain s' ts where IH: "regTimeout_loop k (seen @ [e]) rest (s\<lparr>sio := tick (sio s)\<rparr>) = Inr s'" "wf s'" "length ts = length rest"
        "visits k (Suc ?t) ts" "gone s s' (map snd (expired_of k rest ts))"
        "regListMap s' = (seen @ [e]) @ filter (\<lambda>e. e \<notin> set (expired_of k rest ts)) rest"
      using Cons.IH [of "s\<lparr>sio := tick (sio s)\<rparr>" "seen @ [e]"] Cons.prems by auto
    have "regTimeout_loop k seen (e # rest) s = Inr s'" using step(1,2) False IH(1) e by simp
    then show ?thesis
      using IH False nin(2) [of ts] visits_Cons(2) [OF False IH(4)] by (intro exI [of _ s'] exI [of _ "?t # ts"]) (simp del: visits.simps)
  qed
qed

lemma regTimeout_loop_outcome:
  assumes "timers_ok k" and "wf s" and "regListMap s = seen @ rest"
  shows "\<exists>s' ds. regTimeout_loop k seen rest s = Inr s' \<and> wf s' \<and> gone s s' ds"
  using regTimeout_loop_visits [OF assms] by blast

text \<open>
  C17: a pass over the registration list. It returns. The registration timer of every node in the map is read, in the order of the map, and exactly the
  nodes whose timer is found expired are removed from the registration map, deleted, and their sockets closed; the other nodes, the lists and the
  statistics are untouched, nothing is sent, and the invariant is kept.
\<close>

theorem registration_timeout_outcome:
  assumes "wf s" and "timers_ok k"
  shows "\<exists>s' ts. checkNodeRegistrationTimeout k s = Inr s' \<and> wf s'
    \<and> length ts = length (regListMap s) \<and> visits k (io_tick (sio s)) ts
    \<and> gone s s' (map snd (expired_of k (regListMap s) ts))
    \<and> regListMap s' = filter (\<lambda>e. e \<notin> set (expired_of k (regListMap s) ts)) (regListMap s)"
  using regTimeout_loop_visits [OF assms(2,1), of "[]" "regListMap s"] by (auto simp: checkNodeRegistrationTimeout_def)

theorem registration_timeout_outcome_witness:
  "\<exists>s'. checkNodeRegistrationTimeout ok_kernel one_joined = Inr s' \<and> regListMap s' = [] \<and> wf s'"
proof -
  have "\<forall>t. expired_at ok_kernel t" by (simp add: expired_at_def ok_kernel_def)
  then show ?thesis
    using registration_timeout_outcome [of one_joined ok_kernel] one_joined_wf ok_kernel_timers expired_of_uniform(1) by (metis filter_False)
qed


section \<open>What a returned call has done\<close>

text \<open>The same operations with no assumption on the system calls: if they return, they have done what follows.\<close>

lemma sends_inv:
  "sendCcaConfirm k p b s = Inr s' \<Longrightarrow> \<exists>w. s' = s\<lparr>sio := w\<rparr>"
  "sendTxDoneIndication k p r s = Inr s' \<Longrightarrow> \<exists>w. s' = s\<lparr>sio := w\<rparr>"
  by (auto simp: sendCcaConfirm_def sendTxDoneIndication_def dest!: node_send_inv(1) split: prod.splits)

lemma processCca_loop_inv:
  "processCca_loop k l (s\<lparr>ccaList := l\<rparr>) = Inr s' \<Longrightarrow> \<exists>w. s' = s\<lparr>ccaList := [], sio := w\<rparr>"
proof (induction l arbitrary: s)
  case Nil
  then show ?case by (intro exI [of _ "sio s"]) auto
next
  case (Cons p l)
  from Cons.prems obtain s2 where s2: "sendCcaConfirm k p (pm_state s = IDLE) (s\<lparr>ccaList := l\<rparr>) = Inr s2"
      "processCca_loop k l s2 = Inr s'"
    by auto
  from sends_inv(1) [OF s2(1)] obtain w where "s2 = (s\<lparr>sio := w\<rparr>)\<lparr>ccaList := l\<rparr>" by auto
  with Cons.IH [of "s\<lparr>sio := w\<rparr>"] s2(2) show ?case by auto
qed

lemma processCcaList_inv: "processCcaList k s = Inr s' \<Longrightarrow> \<exists>w. s' = s\<lparr>ccaList := [], sio := w\<rparr>"
  using processCca_loop_inv [of k "ccaList s" s] by (simp add: processCcaList_def)

lemma wf_cca_empty: "wf s \<Longrightarrow> wf (s\<lparr>ccaList := []\<rparr>)"
  by (simp add: wf_def wfc_defs)

lemma txPacket_inv:
  "txPacket p pkt s = Inr s' \<Longrightarrow> heap s p = Some n \<Longrightarrow> \<exists>pkt' w. s' = set_node p (n\<lparr>txPkt := Some pkt'\<rparr>) (s\<lparr>sio := w\<rparr>)"
  by (auto simp: txPacket_def setTxPacket_def Let_def)

lemma txDone_inv:
  assumes "txDone p pkt s = Inr s'" and "heap s p = Some n"
  shows "\<exists>x a b c w. s' = set_node p (n\<lparr>txPkt := x\<rparr>) (s\<lparr>tx_pkts_ok := a, tx_pkts_collided := b, tx_pkts_failed := c, sio := w\<rparr>)"
proof -
  consider "\<exists>s1. txPacket p pkt s = Inr s1 \<and> s' = s1\<lparr>tx_pkts_ok := tx_pkts_ok s1 + 1\<rparr>"
    | "s' = s\<lparr>tx_pkts_collided := tx_pkts_collided s + 1\<rparr>" | "s' = s\<lparr>tx_pkts_failed := tx_pkts_failed s + 1\<rparr>"
    using assms(1) by (auto simp: txDone_def split: if_splits)
  then show ?thesis
  proof cases
    case 1
    then obtain pkt' w where "s' = (set_node p (n\<lparr>txPkt := Some pkt'\<rparr>) (s\<lparr>sio := w\<rparr>))\<lparr>tx_pkts_ok := tx_pkts_ok s + 1\<rparr>"
      using txPacket_inv [OF _ assms(2)] by fastforce
    then show ?thesis
      by (intro exI [of _ "Some pkt'"] exI [of _ "tx_pkts_ok s + 1"] exI [of _ "tx_pkts_collided s"]
          exI [of _ "tx_pkts_failed s"] exI [of _ w]) (simp add: set_node_def)
  next
    case 2
    then show ?thesis using assms(2)
      by (intro exI [of _ "txPkt n"] exI [of _ "tx_pkts_ok s"] exI [of _ "tx_pkts_collided s + 1"]
          exI [of _ "tx_pkts_failed s"] exI [of _ "sio s"]) (simp add: set_node_def fun_upd_idem)
  next
    case 3
    then show ?thesis using assms(2)
      by (intro exI [of _ "txPkt n"] exI [of _ "tx_pkts_ok s"] exI [of _ "tx_pkts_collided s"]
          exI [of _ "tx_pkts_failed s + 1"] exI [of _ "sio s"]) (simp add: set_node_def fun_upd_idem)
  qed
qed

lemma txExpired_inv:
  assumes "txExpired k p s = Inr s'" and "heap s p = Some n" and "tx_node n"
  shows "\<exists>a b c w. s' = set_node p (done_node n) (s\<lparr>tx_pkts_ok := a, tx_pkts_collided := b, tx_pkts_failed := c, sio := w\<rparr>)"
proof -
  obtain pkt where pkt: "txPkt n = Some pkt" using assms(3) by (auto simp: tx_node_def)
  let ?n = "(done_node n)\<lparr>txPkt := Some (pkt\<lparr>txDoneResult := tx_result pkt\<rparr>)\<rparr>"
  let ?s1 = "set_node p ?n (s\<lparr>sio := tick (sio s)\<rparr>)"
  from assms(1) obtain s2 s3 where s2: "sendTxDoneIndication k p (tx_result pkt) ?s1 = Inr s2"
      "txDone p (pkt\<lparr>txDoneResult := tx_result pkt\<rparr>) s2 = Inr s3" "setTxPacket p None s3 = Inr s'"
    using handleTxTimerExpired_ok [OF assms(2,3) pkt] assms(2) pkt by (auto simp: txExpired_def getTxPacket_def)
  from sends_inv(2) [OF s2(1)] obtain w where w: "s2 = ?s1\<lparr>sio := w\<rparr>" by auto
  then have "heap s2 p = Some ?n" by simp
  from txDone_inv [OF s2(2) this] s2(3) obtain a b c w' where
    "s' = set_node p (done_node n) (s\<lparr>tx_pkts_ok := a, tx_pkts_collided := b, tx_pkts_failed := c, sio := w'\<rparr>)"
    unfolding w by (auto simp: setTxPacket_def set_node_def done_node_def)
  then show ?thesis by blast
qed

lemma hasTxTimerExpired_inv: "hasTxTimerExpired k p s = Inr (b, s1) \<Longrightarrow> s1 = s\<lparr>sio := tick (sio s)\<rparr>"
  by (auto simp: hasTxTimerExpired_def timer_expired_def split: option.splits)

lemma hasRegTimerExpired_inv: "hasRegTimerExpired k p s = Inr (b, s1) \<Longrightarrow> s1 = s\<lparr>sio := tick (sio s)\<rparr>"
  by (auto simp: hasRegTimerExpired_def timer_expired_def split: option.splits)

lemma processTx_loop_keeps_wf:
  "processTx_loop k seen rest s = Inr s' \<Longrightarrow> wf s \<Longrightarrow> txList s = seen @ rest \<Longrightarrow> wf s' \<and> pm_state s' = pm_state s"
proof (induction rest arbitrary: seen s)
  case Nil
  then show ?case by simp
next
  case (Cons p rest)
  obtain n where n: "heap s p = Some n" "tx_node n" using wf_txList [OF Cons.prems(2), of p] Cons.prems(3) by auto
  from Cons.prems(1) obtain b where
    b: "hasTxTimerExpired k p s = Inr (b, s\<lparr>sio := tick (sio s)\<rparr>)" by (auto dest: hasTxTimerExpired_inv)
  show ?case
  proof (cases b)
    case True
    with Cons.prems(1) b obtain s2 where s2: "txExpired k p (s\<lparr>sio := tick (sio s)\<rparr>) = Inr s2"
        "processTx_loop k seen rest (s2\<lparr>txList := seen @ rest\<rparr>) = Inr s'" by auto
    from txExpired_inv [OF s2(1), of n] n obtain x y z w where e:
      "s2 = set_node p (done_node n) (s\<lparr>tx_pkts_ok := x, tx_pkts_collided := y, tx_pkts_failed := z, sio := w\<rparr>)" by auto
    have "wf (s2\<lparr>txList := seen @ rest\<rparr>)"
      using wfc_end_tx [OF Cons.prems(2) [unfolded wf_def Cons.prems(3)] n(1) done_node_idle(2) done_node_idle(1) [OF n(2)]]
      by (simp add: wf_def e)
    with Cons.IH [OF s2(2)] show ?thesis by (simp add: e)
  next
    case False
    with Cons.prems b Cons.IH [of "seen @ [p]" "s\<lparr>sio := tick (sio s)\<rparr>"] show ?thesis by simp
  qed
qed

lemma regTimeout_loop_keeps_wf:
  "regTimeout_loop k seen rest s = Inr s' \<Longrightarrow> wf s \<Longrightarrow> regListMap s = seen @ rest \<Longrightarrow>
     wf s' \<and> pm_state s' = pm_state s \<and> txList s' = txList s"
proof (induction rest arbitrary: seen s)
  case Nil
  then show ?case by simp
next
  case (Cons e rest)
  obtain i p where e: "e = (i, p)" by fastforce
  from Cons.prems(1) e obtain b where b: "hasRegTimerExpired k p s = Inr (b, s\<lparr>sio := tick (sio s)\<rparr>)"
    by (auto dest: hasRegTimerExpired_inv)
  show ?case
  proof (cases b)
    case True
    obtain s1 where s1: "handleRegTimerExpired p (s\<lparr>regListMap := seen @ rest, sio := tick (sio s)\<rparr>) = Inr s1"
        "gone s s1 [p]" "regListMap s1 = seen @ rest" "wf s1"
      using regTimer_expires(3) [OF Cons.prems(2) Cons.prems(3) [unfolded e] ok_kernel_timers] by blast
    with Cons.prems(1) b True e have "regTimeout_loop k seen rest s1 = Inr s'" by auto
    from Cons.IH [OF this s1(4,3)] s1(2) show ?thesis by (simp add: gone_def)
  next
    case False
    with Cons.prems b e Cons.IH [of "seen @ [e]" "s\<lparr>sio := tick (sio s)\<rparr>"] show ?thesis by auto
  qed
qed

end
