(* ===== verification/Medium_Loop.thy ===== *)
theory Medium_Loop
  imports Medium_Expiry
begin

text \<open>
  The loop of a medium's thread: what polling can do, the states possible at each loop head, the
  reachable states of the thread interleaved with the other threads of the process, and the
  steps in which no event arrives. The lemmas on one pass are proved once in the locale
  \<open>collision_policy\<close> and hold for both media.
\<close>

section \<open>Polling\<close>

text \<open>
  The events a medium can take without losing its invariant: they name nodes of the medium, and a
  node that leaves is neither on the transmit list nor waiting for a clear-channel answer.
\<close>

definition event_ok :: "kernel \<Rightarrow> epoll_event \<Rightarrow> sys \<Rightarrow> bool" where
  "event_ok k ev s \<longleftrightarrow>
     (case ev_ptr ev of
        EpNode p \<Rightarrow> member s p \<and>
          (\<forall>b s'. processEvent k ev s = Inr (b, s') \<longrightarrow> heap s' p = None \<longrightarrow> p \<notin> set (ccaList s) \<and> p \<notin> set (txList s))
      | _ \<Rightarrow> True)"

fun orderly :: "kernel \<Rightarrow> epoll_event list \<Rightarrow> sys \<Rightarrow> bool" where
  "orderly k [] s = True"
| "orderly k (ev # evs) s =
     (event_ok k ev s \<and> (\<forall>s'. processEvent k ev s = Inr (True, s') \<longrightarrow> orderly k evs s'))"

lemma readMsg_pm_state:
  assumes "wf s" and "member s p" and "readMsg k p s = Inr s'"
  shows "pm_state s' = pm_state s"
  using assms(3)
proof (cases rule: readMsg_inv)
  case (handled w t m)
  have m: "wf (s\<lparr>sio := w\<rparr>)" "member (s\<lparr>sio := w\<rparr>) p" using assms(1,2) by simp_all
  consider "handleRegistrationConfirm p m (s\<lparr>sio := w\<rparr>) = Inr s'" | "handleDeregistrationRequest k p (s\<lparr>sio := w\<rparr>) = Inr s'"
    | "handleCcaRequest p (s\<lparr>sio := w\<rparr>) = Inr s'" | "handleDataIndication k p m (s\<lparr>sio := w\<rparr>) = Inr s'" | "s' = s\<lparr>sio := w\<rparr>"
    using handled(1) unfolding dispatch_def by (metis Inr_inject)
  then show ?thesis
  proof cases
    case 1
    from m 1 show ?thesis by (rule handleRegistrationConfirm_inv) (simp add: registered_as_def)
  next
    case 2
    from m 2 show ?thesis by (rule handleDeregistrationRequest_inv) (simp add: departed_def)
  next
    case 3
    then show ?thesis using handleCcaRequest_inv [OF m] by simp
  next
    case 4
    from m 4 show ?thesis by (rule handleDataIndication_inv) simp
  qed simp
qed (simp_all)

lemma processEvent_keeps_wf:
  assumes "wf s" and "event_ok k ev s" and "processEvent k ev s = Inr (b, s')"
  shows "wf s' \<and> (pm_state s' = pm_state s \<or> pm_state s' = STOPPING)"
proof (cases "ev_ptr ev")
  case (EpNode p)
  then have m: "member s p" and safe: "heap s' p = None \<Longrightarrow> p \<notin> set (ccaList s) \<and> p \<notin> set (txList s)"
    using assms(2,3) by (auto simp: event_ok_def)
  consider "deregisterNode p s = Inr s'" | "readMsg k p s = Inr s'" | "s' = s"
    using assms(3) EpNode by (auto simp: processEvent_def split: if_splits)
  then show ?thesis
  proof cases
    case 1
    obtain n where n: "heap s p = Some n" "s' = departed (socket_ptr n) p n s"
      using deregisterNode_member [OF assms(1) m] 1 by auto
    with safe have "p \<notin> set (ccaList s)" "p \<notin> set (txList s)" by (auto simp: departed_def)
    then show ?thesis using wf_departed [OF assms(1) m n(1)] by (simp add: n(2) departed_def)
  next
    case 2
    then show ?thesis
      using readMsg_keeps_wf [OF assms(1) m 2] readMsg_pm_state [OF assms(1) m 2] safe by blast
  qed (use assms in simp)
qed (use assms in \<open>auto simp: processEvent_def split: if_splits\<close>)

lemma processEvents_keep_wf:
  "processEvents k evs s = Inr s' \<Longrightarrow> wf s \<Longrightarrow> orderly k evs s \<Longrightarrow>
     wf s' \<and> (pm_state s' = pm_state s \<or> pm_state s' = STOPPING)"
proof (induction evs arbitrary: s)
  case (Cons ev evs)
  from Cons.prems(1) obtain b s1 where s1: "processEvent k ev s = Inr (b, s1)"
      "(if b then processEvents k evs s1 else Inr s1) = Inr s'"
    by auto
  from processEvent_keeps_wf [OF Cons.prems(2) _ s1(1)] Cons.prems(3)
  have k1: "wf s1 \<and> (pm_state s1 = pm_state s \<or> pm_state s1 = STOPPING)" by simp
  show ?case
  proof (cases b)
    case True
    with Cons.IH [of s1] s1 k1 Cons.prems(3) show ?thesis by auto
  qed (use s1 k1 in auto)
qed simp

section \<open>The loop\<close>

definition polls_ok :: "kernel \<Rightarrow> int \<Rightarrow> sys \<Rightarrow> bool" where
  "polls_ok k ms s \<longleftrightarrow>
     (case k_epoll_wait k (Suc (io_tick (sio s))) of
        EpollErr e \<Rightarrow> True
      | EpollEvents evs \<Rightarrow>
          orderly k evs (s\<lparr>curTime := timespec_add_ms (curTime s) (ms mod 2 ^ 64), sio := tick (tick (sio s))\<rparr>))"

lemma interval_keeps_wf:
  assumes "wf s" and "polls_ok k ms s" and "interval k ms s = Inr s'"
  shows "wf s' \<and> (pm_state s' = pm_state s \<or> pm_state s' = STOPPING)"
proof -
  let ?s = "s\<lparr>curTime := timespec_add_ms (curTime s) (ms mod 2 ^ 64), sio := tick (tick (sio s))\<rparr>"
  have w: "wf ?s" using assms(1) by simp
  show ?thesis
  proof (cases "k_epoll_wait k (Suc (io_tick (sio s)))")
    case (EpollErr e)
    then show ?thesis using assms(1,3) by (auto simp: interval_def Let_def split: if_splits)
  next
    case (EpollEvents evs)
    show ?thesis
    proof (cases "evs = []")
      case True
      then show ?thesis using assms(1,3) EpollEvents by (auto simp: interval_def Let_def split: if_splits)
    next
      case False
      have "processPollerEvents k evs ?s = Inr s'"
        using assms(3) EpollEvents False by (auto simp: interval_def Let_def split: if_splits)
      then have "processEvents k evs ?s = Inr s'" by (auto simp: processPollerEvents_def)
      moreover have "orderly k evs ?s" using assms(2) EpollEvents by (simp add: polls_ok_def)
      ultimately show ?thesis using processEvents_keep_wf [OF _ w, of k evs s'] by simp
    qed
  qed
qed


text \<open>Which states the thread can be in at each loop head.\<close>

fun loc_ok :: "run_loc \<times> sys \<Rightarrow> bool" where
  "loc_ok (Outer, s) \<longleftrightarrow> pm_state s = STOPPING \<or> pm_state s = IDLE \<and> txList s = []"
| "loc_ok (Inner, s) \<longleftrightarrow> pm_state s = STOPPING \<or> pm_state s = TX_802514_FRAME \<or> pm_state s = IDLE \<and> txList s = []"
| "loc_ok (Done, s) \<longleftrightarrow> pm_state s = STOPPED \<or> pm_state s = STOPPING"

text \<open>
  What polling may report in one step of the thread: events of nodes of the medium, as the poller holds no other sockets, and
  no node that is on the transmit list or the clear-channel list leaves. The code does not rule such a departure out; it leads to the use of a deleted node (\<open>Medium_Faults\<close>).
\<close>

fun listed_stay :: "kernel \<Rightarrow> run_loc \<times> sys \<Rightarrow> bool" where
  "listed_stay k (Outer, s) \<longleftrightarrow> (pm_state s = IDLE \<longrightarrow> polls_ok k 1000 s)"
| "listed_stay k (Inner, s) \<longleftrightarrow> (txList s \<noteq> [] \<longrightarrow> polls_ok k 1 s)"
| "listed_stay k (Done, s) \<longleftrightarrow> True"

lemma outer_end_keeps:
  assumes "wf s" and "txList s = [] \<or> pm_state s = STOPPING" and "outer_end k s = Inr (l, s')"
  shows "wf s' \<and> loc_ok (l, s')"
proof (cases "pm_state s = STOPPING")
  case True
  then show ?thesis using assms(1,3) by (auto simp: outer_end_def)
next
  case False
  with assms(3) obtain s1 where s1: "regTimeout_loop k [] (regListMap (s\<lparr>pm_state := IDLE\<rparr>)) (s\<lparr>pm_state := IDLE\<rparr>) = Inr s1"
      "(if pm_state s1 \<noteq> STOPPING then Inr (Outer, s1) else Inr (Done, s1\<lparr>pm_state := STOPPED\<rparr>)) = (Inr (l, s') :: _ res)"
    by (auto simp: outer_end_def checkNodeRegistrationTimeout_def)
  from regTimeout_loop_keeps_wf [OF s1(1)] assms(1)
  have "wf s1" "pm_state s1 = IDLE" "txList s1 = txList s" by simp_all
  with s1(2) assms(2) False show ?thesis by auto
qed

lemma outer_step_keeps:
  assumes "wf s" and "loc_ok (Outer, s)" and "listed_stay k (Outer, s)" and "outer_step k s = Inr (l, s')"
  shows "wf s' \<and> loc_ok (l, s')"
proof (cases "pm_state s = IDLE")
  case False
  then show ?thesis using assms by (auto simp: outer_step_def)
next
  case True
  with assms(4) obtain s1 where s1: "interval k 1000 s = Inr s1"
    by (auto simp: outer_step_def)
  from interval_keeps_wf [OF assms(1) _ s1] assms(3) True
  have k1: "wf s1" "pm_state s1 = IDLE \<or> pm_state s1 = STOPPING" by auto
  let ?s2 = "if txList s1 \<noteq> [] then s1\<lparr>pm_state := TX_802514_FRAME\<rparr> else s1"
  show ?thesis
  proof (cases "pm_state s1 = STOPPING")
    case True
    with assms(4) s1 \<open>pm_state s = IDLE\<close> k1 show ?thesis by (auto simp: outer_step_def)
  next
    case False
    with assms(4) s1 \<open>pm_state s = IDLE\<close> have "processCcaList k ?s2 = Inr s'" "l = Inner"
      by (auto simp: outer_step_def Let_def)
    moreover from processCcaList_inv [OF this(1)] obtain w where "s' = ?s2\<lparr>ccaList := [], sio := w\<rparr>" by blast
    ultimately show ?thesis using k1 False wf_cca_empty [of ?s2] by auto
  qed
qed

context collision_policy
begin

lemma inner_step_keeps:
  assumes "wf s" and "loc_ok (Inner, s)" and "listed_stay k (Inner, s)" and "inner_step check k s = Inr (l, s')"
  shows "wf s' \<and> loc_ok (l, s')"
proof (cases "txList s = []")
  case True
  then show ?thesis using assms outer_end_keeps [of s] by (simp add: inner_step_def)
next
  case False
  with assms(4) obtain s1 where s1: "interval k 1 s = Inr s1" by (auto simp: inner_step_def)
  from interval_keeps_wf [OF assms(1) _ s1] assms(2,3) False
  have k1: "wf s1" "pm_state s1 = TX_802514_FRAME \<or> pm_state s1 = STOPPING" by auto
  show ?thesis
  proof (cases "pm_state s1 = STOPPING")
    case True
    then show ?thesis using assms(4) s1 False outer_end_keeps [OF k1(1)] by (auto simp: inner_step_def)
  next
    case go: False
    with assms(4) s1 False obtain s2 s3 where s2: "processCcaList k s1 = Inr s2" "check s2 = Inr s3"
        "processTx_loop k [] (txList s3) s3 = Inr s'" "l = Inner"
      by (auto simp: inner_step_def processTxList_def)
    from processCcaList_inv [OF s2(1)] obtain w where e: "s2 = s1\<lparr>ccaList := [], sio := w\<rparr>" by blast
    have "wf s2" using wf_cca_empty [OF k1(1)] by (simp add: e)
    from check_keeps [OF this s2(2)] have "wf s3" "pm_state s3 = TX_802514_FRAME" using e k1(2) go by simp_all
    with processTx_loop_keeps_wf [OF s2(3)] s2(4) show ?thesis by simp
  qed
qed

lemma run_step_keeps:
  assumes "wf s" and "loc_ok (l, s)" and "listed_stay k (l, s)" and "run_step check k (l, s) = Inr (l', s')"
  shows "wf s' \<and> loc_ok (l', s')"
proof (cases l)
  case Outer
  then show ?thesis using assms outer_step_keeps by auto
next
  case Inner
  then show ?thesis using assms inner_step_keeps by auto
next
  case Done
  then show ?thesis using assms by auto
qed

end

section \<open>Reachable states\<close>

text \<open>
  The thread of a medium with the other threads of the process: the simulator's thread adds nodes, whose addresses the allocator has not given out before, and stops
  the medium. The kernel may be another one at every step, so that what it does is not bound to the number of calls made. \<open>ok\<close> says
  which rounds of the thread are considered: with \<open>\<lambda>_ _. True\<close> all of them, with \<open>listed_stay\<close> those in which no node leaves that is still on a list.
\<close>

inductive medium_step :: "(kernel \<Rightarrow> run_loc \<times> sys \<Rightarrow> bool) \<Rightarrow> (sys \<Rightarrow> sys res) \<Rightarrow> kernel \<Rightarrow> run_loc \<times> sys \<Rightarrow> run_loc \<times> sys \<Rightarrow> bool"
  for ok check k where
  Run: "run_step check k c = Inr c' \<Longrightarrow> ok k c \<Longrightarrow> medium_step ok check k c c'"
| Join: "fresh s p sp \<Longrightarrow> join k p sp fd s = Inr s' \<Longrightarrow> medium_step ok check k (l, s) (l, s')"
| Stop: "medium_step ok check k (l, s) (l, stop s)"

inductive_cases medium_stepE: "medium_step ok check k c c'"

inductive reachable :: "(kernel \<Rightarrow> run_loc \<times> sys \<Rightarrow> bool) \<Rightarrow> (sys \<Rightarrow> sys res) \<Rightarrow> run_loc \<times> sys \<Rightarrow> bool" for ok check where
  Start: "reachable ok check (run_start now (empty_medium\<lparr>sio := w\<rparr>))"
| Step: "reachable ok check c \<Longrightarrow> medium_step ok check k c c' \<Longrightarrow> reachable ok check c'"

lemma join_loc:
  assumes "join k p sp fd s = Inr s'" and "loc_ok (l, s)"
  shows "loc_ok (l, s')"
  using assms(1) by (rule join_inv) (use assms(2) in \<open>cases l; auto\<close>)

context collision_policy
begin

lemma medium_step_keeps:
  assumes "medium_step listed_stay check k c c'" and "wf (snd c)" "loc_ok c"
  shows "wf (snd c') \<and> loc_ok c'"
  using assms
proof (cases rule: medium_step.cases)
  case Run
  then show ?thesis using assms(2,3) run_step_keeps [of "snd c" "fst c" k "fst c'" "snd c'"] by simp
next
  case (Join s p sp fd s' l)
  then show ?thesis using assms(2,3) join_keeps_wf [of s p sp k fd s'] join_loc by auto
next
  case (Stop l s)
  have "wf (stop s)" using assms(2) Stop by (simp add: stop_def)
  then show ?thesis using assms(3) Stop by (cases l) (auto simp: stop_def)
qed

lemma reachable_wf: "reachable listed_stay check c \<Longrightarrow> wf (snd c) \<and> loc_ok c"
proof (induction rule: reachable.induct)
  case (Start now w)
  then show ?case using wf_empty_medium by (simp add: run_start_def) (simp add: empty_medium_def)
next
  case (Step c k c')
  then show ?case using medium_step_keeps by blast
qed

end


section \<open>Steps without events\<close>

definition quiet :: "kernel \<Rightarrow> bool" where
  "quiet k \<longleftrightarrow> timers_ok k \<and> (\<forall>t. k_epoll_wait k t = EpollEvents [])"

lemma interval_quiet:
  assumes "quiet k"
  shows "\<exists>t w. interval k ms s = Inr (s\<lparr>curTime := t, sio := w\<rparr>) \<and> io_out w = io_out (sio s)"
  using assms
  by (intro exI [of _ "timespec_add_ms (curTime s) (ms mod 2 ^ 64)"] exI [of _ "tick (tick (tick (sio s)))"])
    (auto simp: quiet_def timers_ok_def interval_def Let_def)

lemma quiet_polls: "quiet k \<Longrightarrow> listed_stay k (l, s)"
  by (cases l) (simp_all add: polls_ok_def quiet_def)

lemma outer_end_returns:
  assumes "wf s" and "timers_ok k"
  shows "\<exists>c. outer_end k s = Inr c"
proof (cases "pm_state s = STOPPING")
  case False
  obtain s1 where "regTimeout_loop k [] (regListMap s) (s\<lparr>pm_state := IDLE\<rparr>) = Inr s1"
    using regTimeout_loop_outcome [OF assms(2), of "s\<lparr>pm_state := IDLE\<rparr>" "[]" "regListMap s"] assms(1) by auto
  with False show ?thesis
    by (cases "pm_state s1 = STOPPING") (simp_all add: outer_end_def checkNodeRegistrationTimeout_def)
qed (simp add: outer_end_def)

lemma processCcaList_returns:
  assumes "wf s" and "send_spec k"
  shows "\<exists>w. processCcaList k s = Inr (s\<lparr>ccaList := [], sio := w\<rparr>)"
  using processCca_loop_answers [OF assms(2), of "ccaList s" s] wf_live(4) [OF assms(1)]
  by (auto simp: processCcaList_def)

lemma frames_ok_frame [simp]:
  "frames_ok (s\<lparr>curTime := t\<rparr>) = frames_ok s" "frames_ok (s\<lparr>ccaList := l\<rparr>) = frames_ok s"
  "frames_ok (s\<lparr>pm_state := st\<rparr>) = frames_ok s"
  by (simp_all add: frames_ok_def pkt_of_def)

context collision_policy
begin

lemma quiet_inner_pass:
  assumes "wf s" and "frames_ok s" and "send_spec k" "quiet k" and "txList s \<noteq> []" "pm_state s = TX_802514_FRAME"
  shows "\<exists>s'. inner_step check k s = Inr (Inner, s') \<and> wf s' \<and> frames_ok s' \<and> pm_state s' = TX_802514_FRAME
    \<and> set (txList s') \<subseteq> set (txList s) \<and> ((\<forall>t. expired_at k t) \<longrightarrow> txList s' = [])"
proof -
  have tk: "timers_ok k" using assms(4) by (simp add: quiet_def)
  obtain t w where i: "interval k 1 s = Inr (s\<lparr>curTime := t, sio := w\<rparr>)" using interval_quiet [OF assms(4)] by blast
  let ?s1 = "s\<lparr>curTime := t, sio := w\<rparr>"
  have "wf ?s1" using assms(1) by simp
  from processCcaList_returns [OF this assms(3)] obtain w' where
    c: "processCcaList k ?s1 = Inr (?s1\<lparr>ccaList := [], sio := w'\<rparr>)" by blast
  let ?s2 = "?s1\<lparr>ccaList := [], sio := w'\<rparr>"
  have k2: "wf ?s2" "frames_ok ?s2" using wf_cca_empty [OF assms(1)] assms(2) by (simp_all add: wf_def)
  obtain s3 where s3: "check ?s2 = Inr s3" using check_returns [OF k2(1)] by blast
  from check_keeps [OF k2(1) s3] k2(2) have k3: "wf s3" "frames_ok s3" "txList s3 = txList s" "pm_state s3 = TX_802514_FRAME"
    using assms(6) by simp_all
  obtain s' ds where s': "processTx_loop k [] (txList s3) s3 = Inr s'" "wf s'" "frames_ok s'" "tx_outcome k s3 s' ds"
      "txList s' = filter (\<lambda>p. p \<notin> set ds) (txList s3)" "(\<forall>t. expired_at k t) \<longrightarrow> ds = txList s3"
    using processTx_loop_outcome [OF assms(3) tk k3(1) _ k3(2), of "[]" "txList s3"] by auto
  have "inner_step check k s = Inr (Inner, s')"
    using assms(5,6) i c s3 s'(1) by (simp add: inner_step_def processTxList_def)
  then show ?thesis using s' k3 by (auto simp: tx_outcome_def filter_empty_conv)
qed

lemma quiet_outer_step:
  assumes "wf s" and "frames_ok s" and "send_spec k" "quiet k" and "loc_ok (Outer, s)"
  shows "\<exists>s'. outer_step k s = Inr (Inner, s') \<and> wf s' \<and> frames_ok s' \<and> pm_state s' = pm_state s \<and> txList s' = txList s"
proof (cases "pm_state s = IDLE")
  case True
  obtain t w where i: "interval k 1000 s = Inr (s\<lparr>curTime := t, sio := w\<rparr>)" using interval_quiet [OF assms(4)] by blast
  let ?s1 = "s\<lparr>curTime := t, sio := w\<rparr>"
  have "wf ?s1" using assms(1) by simp
  from processCcaList_returns [OF this assms(3)] obtain w' where
    c: "processCcaList k ?s1 = Inr (?s1\<lparr>ccaList := [], sio := w'\<rparr>)" by blast
  moreover have "txList s = []" using True assms(5) by auto
  ultimately show ?thesis
    using True i wf_cca_empty [OF assms(1)] assms(2)
    by (simp add: outer_step_def) (simp add: wf_def)
qed (use assms in \<open>auto simp: outer_step_def\<close>)

lemma quiet_step_returns:
  assumes "wf s" and "frames_ok s" and "send_spec k" "quiet k" and "loc_ok (l, s)"
  shows "\<exists>c. run_step check k (l, s) = Inr c"
proof (cases l)
  case Outer
  then show ?thesis using quiet_outer_step [OF assms(1-4)] assms(5) by force
next
  case Inner
  have tk: "timers_ok k" using assms(4) by (simp add: quiet_def)
  consider "txList s = []" | "txList s \<noteq> []" "pm_state s = TX_802514_FRAME" | "txList s \<noteq> []" "pm_state s = STOPPING"
    using assms(5) Inner by auto
  then show ?thesis
  proof cases
    case 1
    then show ?thesis using Inner outer_end_returns [OF assms(1) tk] by (simp add: inner_step_def)
  next
    case 2
    then show ?thesis using Inner quiet_inner_pass [OF assms(1-4)] by fastforce
  next
    case 3
    obtain t w where "interval k 1 s = Inr (s\<lparr>curTime := t, sio := w\<rparr>)" using interval_quiet [OF assms(4)] by blast
    then show ?thesis using Inner 3 outer_end_returns [of "s\<lparr>curTime := t, sio := w\<rparr>" k] assms(1) tk
      by (simp add: inner_step_def)
  qed
qed simp

lemma transmissions_finish:
  assumes "wf s" and "frames_ok s" and "send_spec k" "quiet k" and "\<forall>t. expired_at k t"
    and "txList s \<noteq> []" "pm_state s = TX_802514_FRAME"
  shows "\<exists>s'. run_steps check k 2 (Inner, s) = Inr (Outer, s') \<and> wf s' \<and> txList s' = [] \<and> pm_state s' = IDLE"
proof -
  have tk: "timers_ok k" using assms(4) by (simp add: quiet_def)
  obtain s1 where s1: "inner_step check k s = Inr (Inner, s1)" "wf s1" "pm_state s1 = TX_802514_FRAME" "txList s1 = []"
    using quiet_inner_pass [OF assms(1-4,6,7)] assms(5) by blast
  obtain s2 ds where s2: "regTimeout_loop k [] (regListMap s1) (s1\<lparr>pm_state := IDLE\<rparr>) = Inr s2" "wf s2"
      "gone (s1\<lparr>pm_state := IDLE\<rparr>) s2 ds"
    using regTimeout_loop_outcome [OF tk, of "s1\<lparr>pm_state := IDLE\<rparr>" "[]" "regListMap s1"] s1(2) by auto
  then have "pm_state s2 = IDLE" "txList s2 = []" using s1(4) by (simp_all add: gone_def)
  then show ?thesis
    using s1 s2 by (simp add: numeral_2_eq_2 inner_step_def outer_end_def checkNodeRegistrationTimeout_def)
qed

lemma stop_finishes:
  assumes "wf s" and "quiet k" and "l \<noteq> Done"
  shows "\<exists>s'. run_steps check k 2 (l, stop s) = Inr (Done, s') \<and> pm_state s' = STOPPED"
proof -
  have inner: "\<exists>s'. inner_step check k (stop s) = Inr (Done, s') \<and> pm_state s' = STOPPED"
  proof (cases "txList s = []")
    case False
    obtain t w where "interval k 1 (stop s) = Inr ((stop s)\<lparr>curTime := t, sio := w\<rparr>)" using interval_quiet [OF assms(2)] by blast
    with False show ?thesis by (simp add: inner_step_def outer_end_def stop_def)
  qed (simp add: inner_step_def outer_end_def stop_def)
  have outer: "outer_step k (stop s) = Inr (Inner, stop s)" by (simp add: outer_step_def stop_def)
  show ?thesis using assms(3) inner outer by (cases l) (auto simp: numeral_2_eq_2)
qed

end


section \<open>Properties\<close>

text \<open>
  C1: the invariant of a medium holds in every state of either medium that is reached by orderly rounds: rounds in which the polls report only nodes of the medium and no
  node leaves while it is on the transmit list or the clear-channel list (\<open>listed_stay\<close>; a node that does breaks the invariant). Whatever else the kernel does at each step, whatever the thread
  reads, expires and transmits and however nodes with fresh addresses join and the medium is stopped meanwhile: no node is in both maps; the transmit list has no
  duplicates and holds exactly the registered nodes in \<open>TxState\<close>, each with its timer running and a packet; only
  registered nodes wait for a clear channel; and a medium that says it is \<open>IDLE\<close> has nobody on the air.
\<close>

theorem medium_invariant:
  assumes "reachable listed_stay check (l, s)" and "check = powerline_txCollisionCheck \<or> check = wireless_txCollisionCheck"
  shows "wf s \<and> loc_ok (l, s) \<and> (\<forall>p. \<not> (registering s p \<and> registered s p)) \<and> distinct (txList s)
    \<and> (\<forall>p. p \<in> set (txList s) \<longleftrightarrow> registered s p \<and> (\<exists>n pkt. heap s p = Some n \<and> curState n = Some TxState
         \<and> tmr_started (txTimer n) \<and> txPkt n = Some pkt))
    \<and> (\<forall>p \<in> set (ccaList s). registered s p) \<and> (pm_state s = IDLE \<longrightarrow> txList s = [])"
proof -
  have w: "wf s" and l: "loc_ok (l, s)"
    using assms powerline.reachable_wf [of "(l, s)"] wireless.reachable_wf [of "(l, s)"] by auto
  have "p \<in> set (txList s) \<longleftrightarrow> registered s p \<and> (\<exists>n pkt. heap s p = Some n \<and> curState n = Some TxState
         \<and> tmr_started (txTimer n) \<and> txPkt n = Some pkt)" for p
  proof
    assume "p \<in> set (txList s)"
    then obtain n where "heap s p = Some n" "tx_node n" "map_of (nodeHashMap s) (socket_ptr n) = Some p"
      using wf_txList [OF w] by blast
    then show "registered s p \<and> (\<exists>n pkt. heap s p = Some n \<and> curState n = Some TxState
         \<and> tmr_started (txTimer n) \<and> txPkt n = Some pkt)"
      by (auto simp: registered_def tx_node_def)
  next
    assume a: "registered s p \<and> (\<exists>n pkt. heap s p = Some n \<and> curState n = Some TxState
         \<and> tmr_started (txTimer n) \<and> txPkt n = Some pkt)"
    then obtain n where n: "heap s p = Some n" "curState n = Some TxState" "idle_node n \<or> tx_node n"
      using wf_registered [OF w] by (metis option.inject)
    then have "tx_node n" by (auto simp: idle_node_def)
    with n(1) a have "on_air (heap s) (nodeHashMap s) p" by (auto simp: on_air_def registered_def)
    with w show "p \<in> set (txList s)" by (simp add: wf_def wfc_defs)
  qed
  moreover have "pm_state s = IDLE \<longrightarrow> txList s = []" using l by (cases l) auto
  ultimately show ?thesis
    using w l wf_not_both [OF w] wf_distinct_tx [OF w] wf_cca_registered [OF w] by blast
qed

lemma reachable_example:
  "\<exists>s. reachable listed_stay powerline_txCollisionCheck (Outer, s) \<and> registering s 0x1000"
proof -
  let ?s = "empty_medium\<lparr>pm_state := IDLE, curTime := Timespec 0 0\<rparr>"
  have r: "reachable listed_stay powerline_txCollisionCheck (Outer, ?s)"
    using reachable.Start [of listed_stay powerline_txCollisionCheck "Timespec 0 0" "sio empty_medium"]
    by (simp add: run_start_def)
  have f: "fresh ?s 0x1000 0x2000" "wf ?s" using wf_empty_medium by (simp add: fresh_def empty_medium_def, simp)
  obtain s' where s': "join ok_kernel 0x1000 0x2000 7 ?s = Inr s'"
    using join_succeeds [OF ok_kernel_send_ok ok_kernel_timers ok_kernel_epoll, of "0x2000" "0x1000" 7 ?s] by auto
  then have "reachable listed_stay powerline_txCollisionCheck (Outer, s')"
    using r f(1) by (blast intro: reachable.Step medium_step.Join)
  with join_keeps_wf [OF f(2,1) s'] show ?thesis by blast
qed

theorem medium_invariant_witness:
  "\<exists>s. reachable listed_stay powerline_txCollisionCheck (Outer, s) \<and> registering s 0x1000 \<and> \<not> registered s 0x1000 \<and> wf s"
  using reachable_example medium_invariant [of powerline_txCollisionCheck Outer] by blast

text \<open>
  C14: while somebody transmits, nobody is told that the channel is clear. At the head of the transmission loop, in every
  state that the invariants allow, with a node on the air, once the wait has returned without a request to stop, every
  answer to a clear-channel request says busy.
\<close>

theorem busy_while_transmitting:
  assumes "wf s" and "loc_ok (Inner, s)" and "txList s \<noteq> []" and "polls_ok k 1 s" and "interval k 1 s = Inr s1"
    and "pm_state s1 \<noteq> STOPPING" and "send_ok k"
  shows "\<exists>w. processCcaList k s1 = Inr (s1\<lparr>ccaList := [], sio := w\<rparr>)
    \<and> (\<forall>fd. stream fd (io_out w) = stream fd (io_out (sio s1)) @
         concat (map (\<lambda>p. cca_con_msg (id_of s1 p) False) (filter (\<lambda>p. fd_of s1 p = fd) (ccaList s1))))"
proof -
  have k1: "wf s1" "pm_state s1 = TX_802514_FRAME"
    using interval_keeps_wf [OF assms(1,4,5)] assms(2,3,6) by auto
  have "concat (map (cca_answer s1 fd) l) =
      concat (map (\<lambda>p. cca_con_msg (id_of s1 p) False) (filter (\<lambda>p. fd_of s1 p = fd) l))" for fd l
    by (induction l) (simp_all add: cca_answer_def k1(2))
  then show ?thesis
    using processCca_loop_answers [of k "ccaList s1" s1] wf_live(4) [OF k1(1)] assms(7)
    by (auto simp: processCcaList_def send_ok_def)
qed

text \<open>
  C20: the thread's own work never faults. In any state that satisfies the invariant and in which every packet on the air that has not collided holds the frame it announces
  (\<open>frames_ok\<close>; the code does not check it), when sends and timers work and the wait reports no event, a step of either medium's loop returns, from every loop head.
\<close>

theorem quiet_steps_never_fault:
  assumes "wf s" and "frames_ok s" and "loc_ok (l, s)" and "send_spec k" "quiet k"
  shows "(\<exists>c. run_step powerline_txCollisionCheck k (l, s) = Inr c) \<and> (\<exists>c. run_step wireless_txCollisionCheck k (l, s) = Inr c)"
  using powerline.quiet_step_returns [OF assms(1,2,4,5,3)] wireless.quiet_step_returns [OF assms(1,2,4,5,3)] by blast

lemma quiet_ok_kernel: "quiet ok_kernel"
  using ok_kernel_timers by (simp add: quiet_def ok_kernel_def)

theorem busy_while_transmitting_witness:
  "\<exists>s s1 s2. txList s = [0x1000, 0x3000] \<and> interval ok_kernel 1 s = Inr s1 \<and> processCcaList ok_kernel s1 = Inr s2
    \<and> ccaList s2 = []"
proof (rule two_on_air)
  fix s
  assume s: "wf s" "txList s = [0x1000, 0x3000]"
  let ?s = "s\<lparr>pm_state := TX_802514_FRAME\<rparr>"
  obtain t w where i: "interval ok_kernel 1 ?s = Inr (?s\<lparr>curTime := t, sio := w\<rparr>)"
    using interval_quiet [OF quiet_ok_kernel] by blast
  have "polls_ok ok_kernel 1 ?s" using quiet_polls [OF quiet_ok_kernel, of Inner ?s] s(2) by simp
  moreover have "wf ?s" "loc_ok (Inner, ?s)" "txList ?s \<noteq> []" using s by simp_all
  ultimately obtain w' where
    "processCcaList ok_kernel (?s\<lparr>curTime := t, sio := w\<rparr>) = Inr (?s\<lparr>curTime := t, sio := w, ccaList := [], sio := w'\<rparr>)"
    using busy_while_transmitting [OF _ _ _ _ i _ ok_kernel_send_ok] by auto
  with i s(2) show ?thesis
    by - (rule exI [of _ ?s], rule exI [of _ "?s\<lparr>curTime := t, sio := w\<rparr>"], auto)
qed

theorem quiet_steps_never_fault_witness:
  "\<exists>s. txList s = [0x1000, 0x3000] \<and> (\<exists>c. run_step powerline_txCollisionCheck ok_kernel (Inner, s) = Inr c)"
proof (rule two_on_air)
  fix s
  assume s: "wf s" "txList s = [0x1000, 0x3000]" "pkt_of s 0x1000 = sample_packet 0x1000" "pkt_of s 0x3000 = sample_packet 0x3000"
  let ?s = "s\<lparr>pm_state := TX_802514_FRAME\<rparr>"
  have "wf ?s" "frames_ok ?s" "loc_ok (Inner, ?s)" using s(1) frames_ok_two [OF s(2-4)] by simp_all
  from quiet_steps_never_fault [OF this ok_kernel_specs(1) quiet_ok_kernel] s(2) show ?thesis
    by (intro exI [of _ ?s]) simp
qed

text \<open>
  C21: transmissions end. When the timers of all nodes on the air have expired, every packet on the air that has not collided holds the frame it announces, and no event arrives, either medium
  empties its transmit list and is back at \<open>IDLE\<close> at the head of the outer loop after two steps.
\<close>

theorem transmissions_end:
  assumes "wf s" and "frames_ok s" and "txList s \<noteq> []" "pm_state s = TX_802514_FRAME"
    and "send_spec k" "quiet k" and "\<forall>t. expired_at k t"
  shows "(\<exists>s'. run_steps powerline_txCollisionCheck k 2 (Inner, s) = Inr (Outer, s') \<and> txList s' = [] \<and> isIdle s')
    \<and> (\<exists>s'. run_steps wireless_txCollisionCheck k 2 (Inner, s) = Inr (Outer, s') \<and> txList s' = [] \<and> isIdle s')"
  using powerline.transmissions_finish [OF assms(1,2,5,6,7,3,4)] wireless.transmissions_finish [OF assms(1,2,5,6,7,3,4)]
  by (auto simp: isIdle_def)

theorem transmissions_end_witness:
  "\<exists>s s'. txList s = [0x1000, 0x3000] \<and> run_steps wireless_txCollisionCheck ok_kernel 2 (Inner, s) = Inr (Outer, s') \<and> isIdle s'"
proof (rule two_on_air)
  fix s
  assume s: "wf s" "txList s = [0x1000, 0x3000]" "pkt_of s 0x1000 = sample_packet 0x1000" "pkt_of s 0x3000 = sample_packet 0x3000"
  let ?s = "s\<lparr>pm_state := TX_802514_FRAME\<rparr>"
  have "wf ?s" "frames_ok ?s" "txList ?s \<noteq> []" "pm_state ?s = TX_802514_FRAME"
    using s(1,2) frames_ok_two [OF s(2-4)] by simp_all
  moreover have "\<forall>t. expired_at ok_kernel t" by (simp add: expired_at_def ok_kernel_def)
  ultimately obtain s' where "run_steps wireless_txCollisionCheck ok_kernel 2 (Inner, ?s) = Inr (Outer, s')" "isIdle s'"
    using transmissions_end [OF _ _ _ _ ok_kernel_specs(1) quiet_ok_kernel, of ?s] by blast
  with s(2) show ?thesis by (intro exI [of _ ?s] exI [of _ s']) simp
qed

text \<open>
  Stopping. Once \<^verbatim>\<open>stop\<close> has been called at a loop head, either medium's thread ends in state
  \<open>STOPPED\<close> within two steps that report no event, even with nodes still on the air.
\<close>

theorem stop_ends_thread:
  assumes "wf s" and "quiet k" and "l \<noteq> Done"
  shows "(\<exists>s'. run_steps powerline_txCollisionCheck k 2 (l, stop s) = Inr (Done, s') \<and> pm_state s' = STOPPED)
    \<and> (\<exists>s'. run_steps wireless_txCollisionCheck k 2 (l, stop s) = Inr (Done, s') \<and> pm_state s' = STOPPED)"
  using powerline.stop_finishes [OF assms] wireless.stop_finishes [OF assms] by blast

theorem stop_ends_thread_witness:
  "\<exists>s'. run_steps powerline_txCollisionCheck ok_kernel 2 (Outer, stop one_joined) = Inr (Done, s') \<and> pm_state s' = STOPPED"
  using stop_ends_thread [of one_joined ok_kernel Outer] one_joined_wf quiet_ok_kernel by auto

end
