(* ===== verification/Medium_Faults.thy ===== *)
theory Medium_Faults
  imports Medium_Loop
begin

text \<open>
  Where the medium leaves its invariant or does not return, as the code has it: a node that
  leaves while a list still refers to it, the unused \<^verbatim>\<open>removeNodeFromTxList\<close>, a confirm that
  arrives before \<^verbatim>\<open>addNode\<close> has finished, and a stop before the thread has begun.
\<close>

text \<open>The loop returns only on lists that hold nothing but the node.\<close>

lemma removeTx_loop_only: "removeTx_loop p l found = Some r \<Longrightarrow> set l \<subseteq> {p}"
proof (rule removeTx_loop.raw_induct [where P = "\<lambda>p l found r. set l \<subseteq> {p}"])
  fix f p l found r
  assume ih: "\<And>l found b y. f l found b = Some y \<Longrightarrow> set found \<subseteq> {l}"
    and r: "(case l of [] \<Rightarrow> Some (found, []) | x # xs \<Rightarrow> if x = p then f p xs True else f p l found) = Some r"
  show "set l \<subseteq> {p}"
  proof (cases l)
    case (Cons x xs)
    then show ?thesis using r ih [of p xs True r] ih [of p l found r] by (cases "x = p") simp_all
  qed simp
qed

lemma removeTx_loop_all: "set l \<subseteq> {p} \<Longrightarrow> removeTx_loop p l found = Some (found \<or> l \<noteq> [], [])"
  by (induction l arbitrary: found) (simp_all add: removeTx_loop.simps)

text \<open>
  \<^verbatim>\<open>removeNodeFromTxList\<close> removes a node from the list only if the list holds no other node; with any other
  node on the list it never returns.
\<close>

theorem removeNodeFromTxList_behaviour:
  "(set (txList s) \<subseteq> {p} \<and> txList s \<noteq> [] \<and> pm_state s = TX_802514_FRAME \<longrightarrow>
      removeNodeFromTxList p s = Inr (s\<lparr>txList := []\<rparr>))
   \<and> (\<not> set (txList s) \<subseteq> {p} \<longrightarrow> removeNodeFromTxList p s = Inl Diverge)"
proof (intro conjI impI)
  assume "\<not> set (txList s) \<subseteq> {p}"
  then have "removeTx_loop p (txList s) False = None" using removeTx_loop_only by fastforce
  then show "removeNodeFromTxList p s = Inl Diverge" by (simp add: removeNodeFromTxList_def)
qed (auto simp: removeNodeFromTxList_def removeTx_loop_all)

theorem removeNodeFromTxList_behaviour_witness:
  "removeNodeFromTxList 1 (empty_medium\<lparr>txList := [2, 1]\<rparr>) = Inl Diverge"
  using removeNodeFromTxList_behaviour [of "empty_medium\<lparr>txList := [2, 1]\<rparr>" 1] by simp

text \<open>
  A node that has been deleted is not made again by what the passes over the lists do, and no pass gets beyond it.
\<close>

lemma setTxPacket_deleted: "setTxPacket q pkt s = Inr s' \<Longrightarrow> heap s p = None \<Longrightarrow> heap s' p = None"
  by (auto simp: setTxPacket_def)

lemma node_send_deleted: "node_send k q msg s = Inr (rv, s') \<Longrightarrow> heap s' = heap s"
  by (auto dest: node_send_inv(1))

lemma txDone_deleted: "txDone q pkt s = Inr s' \<Longrightarrow> heap s p = None \<Longrightarrow> heap s' p = None"
  by (auto simp: txDone_def txPacket_def Let_def dest: setTxPacket_deleted split: if_splits)

lemma stopTxTimer_deleted: "stopTxTimer q s = Inr s' \<Longrightarrow> heap s p = None \<Longrightarrow> heap s' p = None"
  by (auto simp: stopTxTimer_def split: prod.splits)

lemma st_handleTxTimerExpired_deleted:
  "st_handleTxTimerExpired x q s = Inr (y, s') \<Longrightarrow> heap s p = None \<Longrightarrow> heap s' p = None"
  by (cases x) (auto dest!: setTxPacket_deleted stopTxTimer_deleted split: option.splits if_splits)

lemma handleTxTimerExpired_deleted: "handleTxTimerExpired q s = Inr s' \<Longrightarrow> heap s p = None \<Longrightarrow> heap s' p = None"
  by (auto simp: handleTxTimerExpired_def state_of_def install_state_def
      dest!: st_handleTxTimerExpired_deleted split: option.splits if_splits)

lemma txExpired_deleted:
  assumes "txExpired k q s = Inr s'" and "heap s p = None"
  shows "heap s' p = None"
proof -
  from assms(1) obtain s1 r s2 pkt s3 where s: "handleTxTimerExpired q s = Inr s1" "sendTxDoneIndication k q r s1 = Inr s2"
      "txDone q pkt s2 = Inr s3" "setTxPacket q None s3 = Inr s'"
    by (auto simp: txExpired_def split: option.splits)
  have "heap s1 p = None" using handleTxTimerExpired_deleted [OF s(1) assms(2)] .
  moreover have "heap s2 = heap s1" using sends_inv(2) [OF s(2)] by auto
  ultimately show ?thesis using txDone_deleted [OF s(3)] setTxPacket_deleted [OF s(4)] by simp
qed

lemma processTx_loop_stuck:
  "p \<in> set l \<Longrightarrow> heap s p = None \<Longrightarrow> \<exists>e. processTx_loop k seen l s = Inl e"
proof (induction l arbitrary: seen s)
  case (Cons q l)
  show ?case
  proof (cases "hasTxTimerExpired k q s")
    case (Inr r)
    obtain b s1 where r: "r = (b, s1)" by fastforce
    have s1: "s1 = s\<lparr>sio := tick (sio s)\<rparr>" using hasTxTimerExpired_inv Inr r by blast
    have "q \<noteq> p" using Inr Cons.prems(2) by (auto simp: hasTxTimerExpired_def)
    then have l: "p \<in> set l" using Cons.prems(1) by simp
    show ?thesis
    proof (cases b)
      case True
      show ?thesis
      proof (cases "txExpired k q s1")
        case (Inr s2)
        then have "heap s2 p = None" using txExpired_deleted Cons.prems(2) s1 by simp
        then have "\<exists>e. processTx_loop k seen l (s2\<lparr>txList := seen @ l\<rparr>) = Inl e" using Cons.IH [OF l] by simp
        then show ?thesis using \<open>hasTxTimerExpired k q s = Inr r\<close> r True Inr by simp
      qed (use Inr r True in simp)
    next
      case False
      have "\<exists>e. processTx_loop k (seen @ [q]) l s1 = Inl e" using Cons.IH [OF l, of s1] Cons.prems(2) s1 by simp
      then show ?thesis using Inr r False by simp
    qed
  qed simp
qed simp

lemma collide_loop_stuck: "p \<in> set l \<Longrightarrow> heap s p = None \<Longrightarrow> \<exists>e. collide_loop l s = Inl e"
proof (induction l arbitrary: s)
  case (Cons q l)
  show ?case
  proof (cases "q = p")
    case True
    then show ?thesis using Cons.prems by (simp add: getTxPacket_def)
  next
    case False
    then have l: "p \<in> set l" using Cons.prems(1) by simp
    show ?thesis
    proof (cases "collide_loop (q # l) s")
      case (Inr s')
      then obtain pkt s1 where s1: "setTxPacket q (Some (setCollided True pkt)) s = Inr s1" "collide_loop l s1 = Inr s'"
        by (auto split: option.splits)
      moreover obtain e where "collide_loop l s1 = Inl e"
        using Cons.IH [OF l] setTxPacket_deleted [OF s1(1) Cons.prems(2)] by blast
      ultimately have False by simp
      then show ?thesis ..
    qed (rule exI)
  qed
qed simp

lemma processCca_loop_stuck: "p \<in> set l \<Longrightarrow> heap s p = None \<Longrightarrow> \<exists>e. processCca_loop k l s = Inl e"
proof (induction l arbitrary: s)
  case (Cons q l)
  show ?case
  proof (cases "processCca_loop k (q # l) s")
    case (Inr s')
    then obtain s1 where s1: "sendCcaConfirm k q (pm_state s = IDLE) (s\<lparr>ccaList := l\<rparr>) = Inr s1" "processCca_loop k l s1 = Inr s'"
      and "heap s q \<noteq> None" by (auto simp: getNodeId_def)
    then have "p \<in> set l" "heap s1 p = None" using Cons.prems sends_inv(1) [OF s1(1)] by auto
    then obtain e where "processCca_loop k l s1 = Inl e" using Cons.IH by blast
    then have False using s1(2) by simp
    then show ?thesis ..
  qed (rule exI)
qed simp

text \<open>
  C33: a node that deregisters while it is on the transmit list, at whatever place, is deleted but stays on the list. The next pass over the
  list does not return: it ends in a fault, at the latest when it comes to the dangling pointer; so does the
  collision check of a powerline medium with another node on the air. If the node is the first on the list, the fault is the use of the deleted node.
  Likewise for a node that still waits for its clear-channel answer.
\<close>

theorem deregistration_leaves_dangling:
  assumes "wf s" and "member s p" and "send_spec k"
  shows "\<exists>s'. handleDeregistrationRequest k p s = Inr s' \<and> heap s' p = None
    \<and> txList s' = txList s \<and> ccaList s' = ccaList s
    \<and> (p \<in> set (txList s) \<longrightarrow> (\<exists>e. processTxList k s' = Inl e) \<and> (1 < length (txList s) \<longrightarrow> (\<exists>e. powerline_txCollisionCheck s' = Inl e)))
    \<and> (\<forall>ys. txList s = p # ys \<longrightarrow> processTxList k s' = Inl (MemErr ''use of a deleted node'')
         \<and> (ys \<noteq> [] \<longrightarrow> powerline_txCollisionCheck s' = Inl (MemErr ''use of a deleted node'')))
    \<and> (p \<in> set (ccaList s) \<longrightarrow> (\<exists>e. processCcaList k s' = Inl e))
    \<and> (\<forall>ys. ccaList s = p # ys \<longrightarrow> processCcaList k s' = Inl (MemErr ''use of a deleted node''))"
proof -
  have l: "live s p" using assms(1,2) wf_live(1,2) unfolding member_def by blast
  obtain n where n: "heap s p = Some n" "dn_medium n" "curState n \<noteq> None"
    using assms(1,2) by (cases rule: wf_member) (auto simp: node_class_defs)
  obtain w where w: "sendDeregistrationConfirm k p s = Inr (s\<lparr>sio := w\<rparr>)"
    using reply_told(3) [OF assms(3) l] by blast
  let ?s' = "departed (socket_ptr n) p n (s\<lparr>sio := w\<rparr>)"
  have run: "handleDeregistrationRequest k p s = Inr ?s'"
    using w n deregisterNode_member [of "s\<lparr>sio := w\<rparr>" p] assms(1,2)
    by (auto simp: handleDeregistrationRequest_def state_of_def st_handleDeregistrationRequest_def getMedium_def
        install_state_def)
  have h: "heap ?s' p = None" "txList ?s' = txList s" "ccaList ?s' = ccaList s" by (simp_all add: departed_def)
  have "\<exists>e. processTxList k ?s' = Inl e" if "p \<in> set (txList s)"
    using processTx_loop_stuck [of p "txList s" ?s' k "[]"] h that by (simp add: processTxList_def)
  moreover have "\<exists>e. powerline_txCollisionCheck ?s' = Inl e" if "p \<in> set (txList s)" "1 < length (txList s)"
    using collide_loop_stuck [of p "txList s" ?s'] h that by (simp add: powerline_txCollisionCheck_def)
  moreover have "\<exists>e. processCcaList k ?s' = Inl e" if "p \<in> set (ccaList s)"
    using processCca_loop_stuck [of p "ccaList s" ?s' k] h that by (simp add: processCcaList_def)
  moreover have "processTxList k ?s' = Inl (MemErr ''use of a deleted node'')" if "txList s = p # ys" for ys
    using h that by (simp add: processTxList_def hasTxTimerExpired_def)
  moreover have "powerline_txCollisionCheck ?s' = Inl (MemErr ''use of a deleted node'')" if "txList s = p # ys" "ys \<noteq> []" for ys
    using h that by (simp add: powerline_txCollisionCheck_def getTxPacket_def)
  moreover have "processCcaList k ?s' = Inl (MemErr ''use of a deleted node'')" if "ccaList s = p # ys" for ys
    using h that by (simp add: processCcaList_def getNodeId_def)
  ultimately show ?thesis using run h by (intro exI [of _ ?s']) blast
qed

theorem deregistration_leaves_dangling_witness:
  "\<exists>s s' e. wf s \<and> txList s = [0x1000, 0x3000] \<and> handleDeregistrationRequest ok_kernel 0x3000 s = Inr s'
    \<and> processTxList ok_kernel s' = Inl e"
proof (rule two_on_air)
  fix s
  assume s: "wf s" "txList s = [0x1000, 0x3000]"
  then have "member s 0x3000" using wf_txList [OF s(1), of "0x3000"] by (auto simp: member_def registered_def)
  from deregistration_leaves_dangling [OF s(1) this ok_kernel_specs(1)] s show ?thesis by auto
qed

text \<open>
  C36: \<^verbatim>\<open>addNode\<close> puts the node's socket into the poller before it puts the node into the registration map. If the
  thread of the medium handles the client's registration confirm in between, it aborts on the assertion
  of \<^verbatim>\<open>registerNode\<close>.
\<close>

theorem confirm_before_addNode_done_asserts:
  assumes "wf s" and "fresh s p sp" and "DeviceNode_new k p sp fd s = Inr s1" and "addNode_poll k p s1 = Inr s2"
    and "REG_CON_SZ \<le> length m"
  shows "handleRegistrationConfirm p m s2 = Inl (Assert ''n == 1'')"
  using assms(3)
proof (rule DeviceNode_new_inv)
  fix t w
  assume e: "s1 = set_node p (newcomer fd sp t) (s\<lparr>sio := w\<rparr>)"
  obtain o1 o2 where o: "strncpy 32 (drop 18 m) = Inr o1" "strncpy 32 (drop 50 m) = Inr o2"
    using strncpy_long [of 32 "drop 18 m"] strncpy_long [of 32 "drop 50 m"] assms(5)
    unfolding size_defs by fastforce
  have s2: "s2 = set_node p ((newcomer fd sp t)\<lparr>dn_medium := True\<rparr>) (s\<lparr>sio := tick w\<rparr>)"
    using assms(4) unfolding e
    by (auto simp: addNode_poll_def setMedium_def getSocketFd_def Let_def split: if_splits)
  have "fst (um_erase sp (regListMap s)) = 0"
    using assms(1,2) by (simp add: um.era_count fresh_def wf_um)
  then show ?thesis
    using o unfolding s2
    by (simp add: handleRegistrationConfirm_def state_of_def newcomer_def DeviceNode_pimpl_def stopRegistrationTimer_def
        timer_stop_def getMedium_def registerNode_def getNodeId_def case_prod_beta)
qed

theorem confirm_before_addNode_done_asserts_witness:
  "\<exists>s1 s2. DeviceNode_new ok_kernel 0x1000 0x2000 7 empty_medium = Inr s1 \<and> addNode_poll ok_kernel 0x1000 s1 = Inr s2
    \<and> handleRegistrationConfirm 0x1000 (replicate 82 0) s2 = Inl (Assert ''n == 1'')"
proof -
  obtain s1 s2 where s: "DeviceNode_new ok_kernel 0x1000 0x2000 7 empty_medium = Inr s1" "addNode_poll ok_kernel 0x1000 s1 = Inr s2"
    using one_joined_eq by (auto simp: join_def addNode_def)
  moreover have "fresh empty_medium 0x1000 0x2000" by (simp add: fresh_def empty_medium_def)
  ultimately show ?thesis
    using confirm_before_addNode_done_asserts [OF wf_empty_medium _ s, of "replicate 82 0"] by (auto simp: size_defs)
qed

section \<open>A stop that is lost\<close>

context collision_policy
begin

lemma idle_step:
  assumes "wf s" "txList s = []" "pm_state s = IDLE" and "l \<noteq> Done" and "send_spec k" "quiet k"
  shows "\<exists>l' s'. run_step check k (l, s) = Inr (l', s') \<and> l' \<noteq> Done \<and> wf s' \<and> txList s' = [] \<and> pm_state s' = IDLE"
proof (cases l)
  case Outer
  have "frames_ok s" using assms(2) by (simp add: frames_ok_def)
  then show ?thesis using Outer quiet_outer_step [of s k] assms by auto
next
  case Inner
  have tk: "timers_ok k" using assms(6) by (simp add: quiet_def)
  obtain s1 ds where s1: "regTimeout_loop k [] (regListMap s) (s\<lparr>pm_state := IDLE\<rparr>) = Inr s1" "wf s1"
      "gone (s\<lparr>pm_state := IDLE\<rparr>) s1 ds"
    using regTimeout_loop_outcome [OF tk, of "s\<lparr>pm_state := IDLE\<rparr>" "[]" "regListMap s"] assms(1) by auto
  then have "pm_state s1 = IDLE" "txList s1 = []" using assms(2) by (simp_all add: gone_def)
  then show ?thesis
    using Inner s1 assms(2,3) by (simp add: inner_step_def outer_end_def checkNodeRegistrationTimeout_def)
qed (use assms in simp)

lemma idle_forever:
  assumes "wf s" "txList s = []" "pm_state s = IDLE" and "l \<noteq> Done" and "send_spec k" "quiet k"
  shows "\<exists>l' s'. run_steps check k n (l, s) = Inr (l', s') \<and> l' \<noteq> Done \<and> pm_state s' = IDLE"
  using assms(1-4)
proof (induction n arbitrary: l s)
  case (Suc n)
  then show ?case using idle_step [OF Suc.prems assms(5,6)] by auto
qed simp

end

text \<open>
  C34: a stop that comes too early is lost. \<^verbatim>\<open>run\<close> sets the state to \<open>IDLE\<close> when the thread begins; if \<^verbatim>\<open>stop\<close> was called before that, as by the
  destructor of a simulator whose \<^verbatim>\<open>start\<close> has failed at once, the thread of either medium does not end, however many
  rounds it makes in which no event arrives, and \<^verbatim>\<open>waitForExit\<close> waits for ever. Called a moment later, the same stop ends the thread within two steps.
\<close>

theorem early_stop_lost:
  assumes "wf s" and "txList s = []" and "send_spec k" "quiet k"
  shows "(\<exists>l s'. run_steps powerline_txCollisionCheck k n (run_start now (stop s)) = Inr (l, s') \<and> l \<noteq> Done \<and> pm_state s' = IDLE)
    \<and> (\<exists>l s'. run_steps wireless_txCollisionCheck k n (run_start now (stop s)) = Inr (l, s') \<and> l \<noteq> Done \<and> pm_state s' = IDLE)
    \<and> (\<exists>s'. run_steps powerline_txCollisionCheck k 2 (Outer, stop (snd (run_start now s))) = Inr (Done, s'))
    \<and> (\<exists>s'. run_steps wireless_txCollisionCheck k 2 (Outer, stop (snd (run_start now s))) = Inr (Done, s'))"
proof -
  let ?s = "s\<lparr>pm_state := IDLE, curTime := now\<rparr>"
  have "run_start now (stop s) = (Outer, ?s)" by (simp add: run_start_def stop_def)
  moreover have "wf ?s" "txList ?s = []" "pm_state ?s = IDLE" using assms(1,2) by simp_all
  moreover have "snd (run_start now s) = ?s" by (simp add: run_start_def)
  ultimately show ?thesis
    using powerline.idle_forever [of ?s Outer k n] wireless.idle_forever [of ?s Outer k n]
      powerline.stop_finishes [of ?s k Outer] wireless.stop_finishes [of ?s k Outer] assms(3,4)
    by auto
qed

theorem early_stop_lost_witness:
  "\<exists>l s'. run_steps wireless_txCollisionCheck ok_kernel 1000 (run_start (Timespec 0 0) (stop empty_medium)) = Inr (l, s') \<and> l \<noteq> Done"
  using early_stop_lost [OF wf_empty_medium _ ok_kernel_specs(1) quiet_ok_kernel, of 1000 "Timespec 0 0"]
  by (auto simp: empty_medium_def)

end
