(* ===== verification/Medium_Thread.thy ===== *)
theory Medium_Thread
  imports Medium_Loop
begin

text \<open>
  What holds of every operation of a medium holds of its steps. The locale \<open>thread_rel\<close> takes a transitive relation \<open>R\<close> between states that every operation
  but the pass over the transmit list satisfies, and a relation \<open>D\<close> for that pass, and shows once, along the code of the event loop, the expiry and
  the two loops of the thread, that a round is in \<open>R\<close>, or in \<open>R\<close> up to the state in which it makes its collision check (\<open>check_state\<close>) and in \<open>D\<close> from there.
\<close>

section \<open>The collision check in a round\<close>

text \<open>
  The state in which a round of the transmission loop comes to its collision check: after the wait with its events, and after the clear-channel answers.
  \<open>None\<close> for a round that does not come to it.
\<close>

fun check_state :: "kernel \<Rightarrow> run_loc \<times> sys \<Rightarrow> sys option" where
  "check_state k (Inner, s) =
     (if txList s = [] then None
      else case interval k 1 s of
        Inl e \<Rightarrow> None
      | Inr s1 \<Rightarrow> if pm_state s1 = STOPPING then None
                else case processCcaList k s1 of Inl e \<Rightarrow> None | Inr s2 \<Rightarrow> Some s2)"
| "check_state k (l, s) = None"

section \<open>Relations of the operations\<close>

locale thread_rel =
  fixes check :: "sys \<Rightarrow> sys res" and k :: kernel and R :: "sys \<Rightarrow> sys \<Rightarrow> bool" and D :: "sys \<Rightarrow> sys \<Rightarrow> bool"
  assumes R_trans: "R s s1 \<Longrightarrow> R s1 s' \<Longrightarrow> R s s'"
    and R_same: "heap s' = heap s \<Longrightarrow> txList s' = txList s \<Longrightarrow> ccaList s' = ccaList s \<Longrightarrow> io_out (sio s') = io_out (sio s) \<Longrightarrow>
      tx_pkts_ok s' = tx_pkts_ok s \<Longrightarrow> tx_pkts_collided s' = tx_pkts_collided s \<Longrightarrow> R s s'"
    and R_failed: "heap s p = Some n \<Longrightarrow> R s (set_node p (n\<lparr>failedReads := x\<rparr>) s)"
    and R_join: "fresh s p sp \<Longrightarrow> join k p sp fd s = Inr s' \<Longrightarrow> R s s'"
    and R_confirm: "wf s \<Longrightarrow> member s p \<Longrightarrow> handleRegistrationConfirm p m s = Inr s' \<Longrightarrow> R s s'"
    and R_ask: "wf s \<Longrightarrow> member s p \<Longrightarrow> handleCcaRequest p s = Inr s' \<Longrightarrow> R s s'"
    and R_send: "wf s \<Longrightarrow> member s p \<Longrightarrow> heap s p = Some n \<Longrightarrow> accepted_msg (socket_ptr n) (msg_type_val MSG_TYPE_TX_DATA_IND) m \<Longrightarrow>
      handleDataIndication k p m s = Inr s' \<Longrightarrow> R s s'"
    and R_bye: "wf s \<Longrightarrow> member s p \<Longrightarrow> p \<notin> set (ccaList s) \<Longrightarrow> p \<notin> set (txList s) \<Longrightarrow> sendDeregistrationConfirm k p s = Inr s' \<Longrightarrow> R s s'"
    and R_departed: "heap s p = Some n \<Longrightarrow> p \<notin> set (ccaList s) \<Longrightarrow> p \<notin> set (txList s) \<Longrightarrow> R s (departed i p n s)"
    and R_gone: "gone s s' [p] \<Longrightarrow> heap s p = Some n \<Longrightarrow> p \<notin> set (ccaList s) \<Longrightarrow> p \<notin> set (txList s) \<Longrightarrow> R s s'"
    and R_answer: "processCcaList k s = Inr s' \<Longrightarrow> R s s'"
    and D_pass: "wf s \<Longrightarrow> check s = Inr s1 \<Longrightarrow> processTx_loop k [] (txList s1) s1 = Inr s' \<Longrightarrow> D s s'"
begin

lemma R_io: "io_out w = io_out (sio s) \<Longrightarrow> R s (s\<lparr>sio := w\<rparr>)"
  by (rule R_same) simp_all

section \<open>Events\<close>

lemma R_deregister:
  assumes "wf s" and "member s p" and "handleDeregistrationRequest k p s = Inr s'"
    and "p \<notin> set (ccaList s)" "p \<notin> set (txList s)"
  shows "R s s'"
proof -
  from assms(3) obtain s1 where s1: "sendDeregistrationConfirm k p s = Inr s1" "deregisterNode p s1 = Inr s'"
    by (auto simp: handleDeregistrationRequest_def st_handleDeregistrationRequest_def install_state_def split: prod.splits)
  obtain w where w: "s1 = s\<lparr>sio := w\<rparr>"
    using s1(1) by (auto simp: sendDeregistrationConfirm_def dest!: node_send_inv(1) split: prod.splits)
  obtain n where "heap s1 p = Some n" "s' = departed (socket_ptr n) p n s1"
    using deregisterNode_member [of s1 p] assms(1,2) s1(2) by (auto simp: w)
  then have "R s1 s'" using assms(4,5) R_departed [of s1 p n "socket_ptr n"] by (simp add: w)
  with R_bye [OF assms(1,2,4,5) s1(1)] show ?thesis by (rule R_trans)
qed

lemma R_dispatch:
  assumes "wf s" and "member s p" and "dispatch k p t m s = Inr s'" and "heap s p = Some n" "accepted_msg (socket_ptr n) t m"
    and "heap s' p = None \<Longrightarrow> p \<notin> set (ccaList s) \<and> p \<notin> set (txList s)"
  shows "R s s'"
proof -
  consider "handleRegistrationConfirm p m s = Inr s'" | "handleDeregistrationRequest k p s = Inr s'"
    | "handleCcaRequest p s = Inr s'" | "t = msg_type_val MSG_TYPE_TX_DATA_IND" "handleDataIndication k p m s = Inr s'" | "s' = s"
    using assms(3) unfolding dispatch_def by (metis Inr_inject)
  then show ?thesis
  proof cases
    case 2
    from assms(1,2) 2 have "heap s' p = None" by (rule handleDeregistrationRequest_inv) (simp add: departed_def)
    then show ?thesis using assms(6) by (intro R_deregister [OF assms(1,2) 2]) simp_all
  next
    case 4
    then show ?thesis using R_send [OF assms(1,2,4)] assms(5) by blast
  qed (use assms(1,2) R_confirm R_ask in \<open>auto intro: R_same\<close>)
qed

lemma R_readMsg:
  assumes "wf s" and "member s p" and "readMsg k p s = Inr s'"
    and "heap s' p = None \<Longrightarrow> p \<notin> set (ccaList s) \<and> p \<notin> set (txList s)"
  shows "R s s'"
  using assms(3)
proof (cases rule: readMsg_inv)
  case (ignored w)
  then show ?thesis by (simp add: R_io)
next
  case (failed n w)
  then show ?thesis using R_trans [OF R_io R_failed, of w s p n] by simp
next
  case (handled w t m n)
  have "R (s\<lparr>sio := w\<rparr>) s'"
    using assms handled by (intro R_dispatch [of _ p t m _ n]) simp_all
  with R_io [OF handled(2)] show ?thesis by (rule R_trans)
qed

lemma R_event:
  assumes "wf s" and "event_ok k ev s" and "processEvent k ev s = Inr (b, s')"
  shows "R s s'"
proof (cases "ev_ptr ev")
  case (EpNode p)
  then have m: "member s p" and safe: "heap s' p = None \<Longrightarrow> p \<notin> set (ccaList s) \<and> p \<notin> set (txList s)"
    using assms(2,3) by (auto simp: event_ok_def)
  consider "deregisterNode p s = Inr s'" | "readMsg k p s = Inr s'" | "s' = s"
    using assms(3) EpNode by (auto simp: processEvent_def split: if_splits)
  then show ?thesis
  proof cases
    case 1
    obtain n where n: "heap s p = Some n" "s' = departed (socket_ptr n) p n s"
      using deregisterNode_member [OF assms(1) m] 1 by auto
    moreover have "heap s' p = None" by (simp add: n(2) departed_def)
    ultimately show ?thesis using safe R_departed [OF n(1)] by simp
  next
    case 2
    then show ?thesis using safe by (rule R_readMsg [OF assms(1) m])
  qed (simp add: R_same)
qed (use assms(3) in \<open>auto simp: processEvent_def intro!: R_same split: if_splits\<close>)

lemma R_events:
  "processEvents k evs s = Inr s' \<Longrightarrow> wf s \<Longrightarrow> orderly k evs s \<Longrightarrow> R s s'"
proof (induction evs arbitrary: s)
  case (Cons ev evs)
  from Cons.prems(1) obtain b s1 where s1: "processEvent k ev s = Inr (b, s1)"
      "(if b then processEvents k evs s1 else Inr s1) = Inr s'"
    by auto
  have ok: "event_ok k ev s" using Cons.prems(3) by simp
  have r: "R s s1" using R_event [OF Cons.prems(2) ok s1(1)] .
  show ?case
  proof (cases b)
    case True
    have "R s1 s'"
      using True s1 processEvent_keeps_wf [OF Cons.prems(2) ok s1(1)] Cons.prems(3) by (intro Cons.IH) auto
    with r show ?thesis by (rule R_trans)
  qed (use s1 r in auto)
qed (simp add: R_same)

lemma R_interval:
  assumes "wf s" and "polls_ok k ms s" and "interval k ms s = Inr s'"
  shows "R s s'"
proof -
  let ?s = "s\<lparr>curTime := timespec_add_ms (curTime s) (ms mod 2 ^ 64), sio := tick (tick (sio s))\<rparr>"
  have v: "R s ?s" by (rule R_same) simp_all
  consider evs where "k_epoll_wait k (Suc (io_tick (sio s))) = EpollEvents evs" "processEvents k evs ?s = Inr s'"
    | "\<exists>t. s' = s\<lparr>curTime := t, sio := tick (tick (tick (sio s)))\<rparr>"
    using assms(3) by (auto simp: interval_def processPollerEvents_def Let_def split: if_splits epoll_res.splits)
  then show ?thesis
  proof cases
    case (1 evs)
    have "R ?s s'" using assms(1,2) 1 by (intro R_events [OF 1(2)]) (simp_all add: polls_ok_def)
    with v show ?thesis by (rule R_trans)
  next
    case 2
    then show ?thesis by (auto intro!: R_same)
  qed
qed

section \<open>Expiry\<close>

lemma R_expiry:
  "regTimeout_loop k seen rest s = Inr s' \<Longrightarrow> wf s \<Longrightarrow> regListMap s = seen @ rest \<Longrightarrow> R s s'"
proof (induction rest arbitrary: seen s)
  case (Cons e rest)
  obtain i p where e: "e = (i, p)" by fastforce
  from Cons.prems(1) e obtain b where b: "hasRegTimerExpired k p s = Inr (b, s\<lparr>sio := tick (sio s)\<rparr>)"
    by (auto dest: hasRegTimerExpired_inv)
  show ?case
  proof (cases b)
    case True
    have "(i, p) \<in> set (regListMap s)" using Cons.prems(3) e by simp
    then have reg: "registering s p"
      using um_entries [OF wf_um(1) [OF Cons.prems(2)], of i p] unfolding registering_def by blast
    then obtain n where n: "heap s p = Some n" "reg_node n" using Cons.prems(2) by (metis wf_registering)
    have "p \<notin> set (ccaList s)" using wf_cca_registered [OF Cons.prems(2)] wf_not_both [OF Cons.prems(2) reg] by blast
    moreover have "p \<notin> set (txList s)"
      using wf_txList [OF Cons.prems(2)] n class_disjoint(2) by (metis option.inject)
    moreover obtain s1 where s1: "handleRegTimerExpired p (s\<lparr>regListMap := seen @ rest, sio := tick (sio s)\<rparr>) = Inr s1"
        "gone s s1 [p]" "regListMap s1 = seen @ rest" "wf s1"
      using regTimer_expires(3) [OF Cons.prems(2) Cons.prems(3) [unfolded e] ok_kernel_timers] by blast
    ultimately have "R s s1" using R_gone n(1) by blast
    moreover from Cons.prems(1) b True e s1(1) have "regTimeout_loop k seen rest s1 = Inr s'" by auto
    from Cons.IH [OF this s1(4,3)] have "R s1 s'" .
    ultimately show ?thesis by (rule R_trans)
  next
    case False
    have "R (s\<lparr>sio := tick (sio s)\<rparr>) s'"
      using Cons.prems b e False Cons.IH [of "seen @ [e]" "s\<lparr>sio := tick (sio s)\<rparr>"] by auto
    then show ?thesis using R_trans [OF R_io, of "tick (sio s)" s s'] by simp
  qed
qed (simp add: R_same)

section \<open>The steps of the thread\<close>

lemma R_outer_end:
  assumes "wf s" and "outer_end k s = Inr (l, s')"
  shows "R s s'"
proof (cases "pm_state s = STOPPING")
  case True
  then show ?thesis using assms(2) by (auto simp: outer_end_def intro: R_same)
next
  case False
  with assms(2) obtain s1 where s1: "regTimeout_loop k [] (regListMap (s\<lparr>pm_state := IDLE\<rparr>)) (s\<lparr>pm_state := IDLE\<rparr>) = Inr s1"
      "(if pm_state s1 \<noteq> STOPPING then Inr (Outer, s1) else Inr (Done, s1\<lparr>pm_state := STOPPED\<rparr>)) = (Inr (l, s') :: _ res)"
    by (auto simp: outer_end_def checkNodeRegistrationTimeout_def)
  have "R s (s\<lparr>pm_state := IDLE\<rparr>)" by (rule R_same) simp_all
  moreover have "R (s\<lparr>pm_state := IDLE\<rparr>) s1" using assms(1) by (intro R_expiry [OF s1(1)]) simp_all
  moreover have "R s1 s'" using s1(2) by (intro R_same) (auto split: if_splits)
  ultimately show ?thesis using R_trans by blast
qed

lemma R_outer_step:
  assumes "wf s" and "listed_stay k (Outer, s)" and "outer_step k s = Inr (l, s')"
  shows "R s s'"
proof (cases "pm_state s = IDLE")
  case False
  then show ?thesis using assms(3) by (auto simp: outer_step_def intro: R_same)
next
  case True
  with assms(3) obtain s1 where s1: "interval k 1000 s = Inr s1" by (auto simp: outer_step_def)
  have r: "R s s1" using assms(2) True by (intro R_interval [OF assms(1) _ s1]) simp
  let ?s2 = "if txList s1 \<noteq> [] then s1\<lparr>pm_state := TX_802514_FRAME\<rparr> else s1"
  consider "s' = s1\<lparr>pm_state := STOPPED\<rparr>" | "processCcaList k ?s2 = Inr s'"
    using assms(3) s1 True by (auto simp: outer_step_def Let_def split: if_splits)
  then have "R s1 s'"
  proof cases
    case 2
    have "R s1 ?s2" by (rule R_same) simp_all
    then show ?thesis using R_answer [OF 2] by (rule R_trans)
  qed (simp add: R_same)
  with r show ?thesis by (rule R_trans)
qed

lemma R_inner_step:
  assumes "wf s" and "listed_stay k (Inner, s)" and "inner_step check k s = Inr (l, s')"
  shows "case check_state k (Inner, s) of None \<Rightarrow> R s s' | Some s1 \<Rightarrow> R s s1 \<and> wf s1 \<and> D s1 s'"
proof (cases "txList s = []")
  case True
  then show ?thesis using assms R_outer_end [of s] by (simp add: inner_step_def)
next
  case False
  with assms(3) obtain s1 where s1: "interval k 1 s = Inr s1" by (auto simp: inner_step_def)
  have polls: "polls_ok k 1 s" using assms(2) False by simp
  have r: "R s s1" using R_interval [OF assms(1) polls s1] .
  have w1: "wf s1" using interval_keeps_wf [OF assms(1) polls s1] by blast
  show ?thesis
  proof (cases "pm_state s1 = STOPPING")
    case True
    then have "R s1 s'" using assms(3) s1 False by (intro R_outer_end [OF w1, of l]) (simp add: inner_step_def)
    then show ?thesis using R_trans [OF r] False s1 True by simp
  next
    case go: False
    with assms(3) s1 False obtain s2 s3 where s2: "processCcaList k s1 = Inr s2" "check s2 = Inr s3"
        "processTx_loop k [] (txList s3) s3 = Inr s'"
      by (auto simp: inner_step_def processTxList_def)
    from processCcaList_inv [OF s2(1)] obtain w where e: "s2 = s1\<lparr>ccaList := [], sio := w\<rparr>" by blast
    have w2: "wf s2" using wf_cca_empty [OF w1] by (simp add: e)
    then show ?thesis using D_pass [OF w2 s2(2,3)] R_trans [OF r R_answer [OF s2(1)]] False s1 go s2(1) by simp
  qed
qed

text \<open>A round is in \<open>R\<close>, or in \<open>R\<close> up to its collision check and in \<open>D\<close> from there.\<close>

lemma run_step_rel:
  assumes "run_step check k c = Inr c'" and "listed_stay k c" and "wf (snd c)"
  shows "case check_state k c of None \<Rightarrow> R (snd c) (snd c') | Some s1 \<Rightarrow> R (snd c) s1 \<and> wf s1 \<and> D s1 (snd c')"
proof -
  obtain l s l' s' where c: "c = (l, s)" "c' = (l', s')" by fastforce
  show ?thesis
  proof (cases l)
    case Outer
    then show ?thesis using assms R_outer_step [of s l' s'] unfolding c by simp
  next
    case Inner
    then show ?thesis using assms R_inner_step [of s l' s'] unfolding c by (cases "check_state k (Inner, s)") (simp_all del: check_state.simps listed_stay.simps)
  next
    case Done
    then show ?thesis using assms unfolding c by (simp add: R_same)
  qed
qed

lemma medium_step_rel:
  assumes "medium_step listed_stay check k c c'" and "wf (snd c)"
  shows "R (snd c) (snd c') \<or> (\<exists>s1. R (snd c) s1 \<and> wf s1 \<and> D s1 (snd c'))"
  using assms(1)
proof (cases rule: medium_step.cases)
  case Run
  show ?thesis
  proof (cases "check_state k c")
    case None
    then show ?thesis using run_step_rel [OF Run assms(2)] by simp
  next
    case (Some s1)
    then show ?thesis using run_step_rel [OF Run assms(2)] by auto
  qed
next
  case (Join s p sp fd s' l)
  then show ?thesis using R_join by simp
next
  case (Stop l s)
  then show ?thesis by (simp add: stop_def R_same)
qed

end

end
