(* ===== verification/Medium_Spec.thy ===== *)
theory Medium_Spec
  imports Medium_Thread
begin

text \<open>
  What a medium promises, without tables, timers, sockets or messages: nodes register, become active,
  put a frame on the air that they have sent in a valid message, and leave, and the frames that did not collide are passed on, each transmission being counted once
  as passed on or as lost. The events of this abstract medium are labelled. The abstraction function \<open>view\<close> forgets the
  rest, and every step of a medium's thread, of its polling, its expiry and its transmissions, is a sequence of
  events of which only the last one, a \<open>Round\<close>, passes frames on; it takes place in the state in which the thread makes its collision check.
  The locale \<open>air_policy\<close> ties a collision check to whether the air is shared.
\<close>

section \<open>The abstract medium\<close>

text \<open>A packet buffer copied from an accepted data indication of node \<open>i\<close>.\<close>

definition stored_frame :: "u64 \<Rightarrow> byte list \<Rightarrow> bool" where
  "stored_frame i b \<longleftrightarrow> (HDR_SZ \<le> length b \<longrightarrow>
     unat (ntohs (hdr_len (hdr_of b))) = length b \<and> accepted_msg i (msg_type_val MSG_TYPE_TX_DATA_IND) b)"

lemma get_take: "off + n \<le> j \<Longrightarrow> get off n (take j buf) = get off n buf"
  by (simp add: get_def drop_take min_def)

lemma hdr_of_take: "HDR_SZ \<le> j \<Longrightarrow> hdr_of (take j buf) = hdr_of buf"
  by (simp add: hdr_of_def get_take size_defs)

lemma packet_stored_frame:
  assumes "NetSimPacket_new m p = Inr pkt" and "accepted_msg i (msg_type_val MSG_TYPE_TX_DATA_IND) m"
  shows "stored_frame i (pktBuffer pkt)"
proof -
  let ?n = "unat (ntohs (hdr_len (hdr_of m)))"
  have b: "pktBuffer pkt = take ?n m" "?n \<le> length m"
    using assms(1) by (auto simp: NetSimPacket_new_def hdr_of_def Let_def split: if_splits)
  then show ?thesis
    using assms(2) hdr_of_take [of ?n m] get_take [of 16 2 ?n m] by (auto simp: stored_frame_def accepted_msg_def size_defs)
qed


datatype phase = Registering | Active | OnAir "byte list" bool

record air_state =
  ids :: "nptr \<rightharpoonup> u64"
  phases :: "nptr \<rightharpoonup> phase"
  air :: "nptr list"
  asking :: "nptr list"
  aired :: "byte list list"
  passed :: int
  lost :: int

datatype air_event = Entered nptr u64 | Confirmed nptr | Sent nptr "byte list" | Asked nptr | Answered | Gone nptr | Round "nptr list"

fun flag_phase :: "phase \<Rightarrow> phase" where
  "flag_phase (OnAir b c) = OnAir b True"
| "flag_phase ph = ph"

text \<open>Everybody on the air collides.\<close>

definition collide :: "air_state \<Rightarrow> air_state" where
  "collide a = a\<lparr>phases := \<lambda>p. if p \<in> set (air a) then map_option flag_phase (phases a p) else phases a p\<rparr>"

text \<open>A transmission ends: its frame is passed on and counted, or it collided and is counted as lost.\<close>

definition finish :: "nptr \<Rightarrow> air_state \<Rightarrow> air_state" where
  "finish p a =
     (case phases a p of
        Some (OnAir b c) \<Rightarrow> a\<lparr>phases := (phases a)(p \<mapsto> Active), air := remove1 p (air a),
                            aired := aired a @ (if c then [] else [tx_image b]),
                            passed := (if c then passed a else passed a + 1), lost := (if c then lost a + 1 else lost a)\<rparr>
      | _ \<Rightarrow> a)"

inductive air_step :: "bool \<Rightarrow> air_event \<Rightarrow> air_state \<Rightarrow> air_state \<Rightarrow> bool" for shared where
  Enter: "phases a p = None \<Longrightarrow> air_step shared (Entered p i) a (a\<lparr>ids := (ids a)(p \<mapsto> i), phases := (phases a)(p \<mapsto> Registering)\<rparr>)"
| Confirm: "phases a p = Some Registering \<Longrightarrow> air_step shared (Confirmed p) a (a\<lparr>phases := (phases a)(p \<mapsto> Active)\<rparr>)"
| Send: "phases a p = Some Active \<Longrightarrow> ids a p = Some i \<Longrightarrow> stored_frame i b \<Longrightarrow>
    air_step shared (Sent p b) a (a\<lparr>phases := (phases a)(p \<mapsto> OnAir b False), air := air a @ [p]\<rparr>)"
| Ask: "phases a p = Some ph \<Longrightarrow> ph \<noteq> Registering \<Longrightarrow> air_step shared (Asked p) a (a\<lparr>asking := asking a @ [p]\<rparr>)"
| Answer: "air_step shared Answered a (a\<lparr>asking := []\<rparr>)"
| Leave: "p \<in> dom (phases a) \<Longrightarrow> p \<notin> set (air a) \<Longrightarrow> p \<notin> set (asking a) \<Longrightarrow>
    air_step shared (Gone p) a (a\<lparr>ids := (ids a)(p := None), phases := (phases a)(p := None)\<rparr>)"
| Deliver: "distinct ds \<Longrightarrow> set ds \<subseteq> set (air a) \<Longrightarrow>
    air_step shared (Round ds) a (fold finish ds (if shared \<and> 1 < length (air a) then collide a else a))"

inductive_cases RoundE: "air_step shared (Round ds) a a'"

fun air_run :: "bool \<Rightarrow> air_event list \<Rightarrow> air_state \<Rightarrow> air_state \<Rightarrow> bool" where
  "air_run shared [] a a' \<longleftrightarrow> a' = a"
| "air_run shared (e # es) a a' \<longleftrightarrow> (\<exists>a1. air_step shared e a a1 \<and> air_run shared es a1 a')"

lemma air_run_append: "air_run sh es a a1 \<Longrightarrow> air_run sh es' a1 a' \<Longrightarrow> air_run sh (es @ es') a a'"
  by (induction es arbitrary: a) auto

text \<open>The events before a round: they pass nothing on and end no transmission.\<close>

definition quiet_events :: "air_event list \<Rightarrow> bool" where
  "quiet_events es \<longleftrightarrow> (\<forall>e \<in> set es. \<forall>ds. e \<noteq> Round ds)"

lemma quiet_events_simps [simp]:
  "quiet_events []" "quiet_events (es @ es') \<longleftrightarrow> quiet_events es \<and> quiet_events es'"
  "quiet_events (e # es) \<longleftrightarrow> (\<forall>ds. e \<noteq> Round ds) \<and> quiet_events es"
  by (auto simp: quiet_events_def)

section \<open>The abstraction\<close>

definition phase_of :: "DeviceNode \<Rightarrow> phase" where
  "phase_of n =
     (case curState n of
        Some TxState \<Rightarrow> (case txPkt n of Some pkt \<Rightarrow> OnAir (pktBuffer pkt) (collision pkt) | None \<Rightarrow> Active)
      | Some ActiveState \<Rightarrow> Active
      | _ \<Rightarrow> Registering)"

lemma phase_of_class:
  "reg_node n \<Longrightarrow> phase_of n = Registering" "idle_node n \<Longrightarrow> phase_of n = Active"
  "tx_node n \<Longrightarrow> txPkt n = Some pkt \<Longrightarrow> phase_of n = OnAir (pktBuffer pkt) (collision pkt)"
  by (simp_all add: phase_of_def node_class_defs)

lemma phase_of_failed: "phase_of (n\<lparr>failedReads := x\<rparr>) = phase_of n"
  by (simp add: phase_of_def cong: option.case_cong node_state.case_cong)

definition view :: "sys \<Rightarrow> air_state" where
  "view s = \<lparr> ids = (\<lambda>p. map_option socket_ptr (heap s p)), phases = (\<lambda>p. map_option phase_of (heap s p)), air = txList s,
     asking = ccaList s, aired = mcasts (io_out (sio s)), passed = tx_pkts_ok s, lost = tx_pkts_collided s \<rparr>"

lemma view_simps [simp]:
  "ids (view s) p = map_option socket_ptr (heap s p)"
  "phases (view s) p = map_option phase_of (heap s p)" "air (view s) = txList s" "asking (view s) = ccaList s"
  "aired (view s) = mcasts (io_out (sio s))" "passed (view s) = tx_pkts_ok s" "lost (view s) = tx_pkts_collided s"
  by (simp_all add: view_def)

text \<open>States with a given view.\<close>

lemma view_eqI:
  assumes "\<And>p. map_option socket_ptr (heap s' p) = ids a p" "\<And>p. map_option phase_of (heap s' p) = phases a p"
    "txList s' = air a" "ccaList s' = asking a" "mcasts (io_out (sio s')) = aired a" "tx_pkts_ok s' = passed a" "tx_pkts_collided s' = lost a"
  shows "view s' = a"
  using assms by (simp add: view_def)

section \<open>Operations that multicast nothing\<close>

definition silent :: "sys \<Rightarrow> sys \<Rightarrow> bool" where
  "silent s s' \<longleftrightarrow> mcasts (io_out (sio s')) = mcasts (io_out (sio s))"

lemma sendMsg_loop_silent:
  "sendMsg_loop k fd m b w = Some x \<Longrightarrow> mcasts (io_out (snd x)) = mcasts (io_out w)"
  by (erule sendMsg_loop.raw_induct [rotated]) (auto simp: Let_def split: if_splits)

lemma node_send_silent: "node_send k p msg s = Inr (rv, s') \<Longrightarrow> silent s s'"
  by (auto simp: node_send_def sendMsg_def silent_def split: option.splits dest!: sendMsg_loop_silent)

lemma sends_silent:
  "sendRegistrationRequest k p s = Inr s' \<Longrightarrow> silent s s'" "sendDeregistrationConfirm k p s = Inr s' \<Longrightarrow> silent s s'"
  "sendCcaConfirm k p b s = Inr s' \<Longrightarrow> silent s s'" "sendTxDoneIndication k p r s = Inr s' \<Longrightarrow> silent s s'"
  by (auto simp: sendRegistrationRequest_def sendDeregistrationConfirm_def sendCcaConfirm_def sendTxDoneIndication_def
      dest: node_send_silent)

lemma setCloseOnExec_silent: "setCloseOnExec k sk b w = (rv, w') \<Longrightarrow> mcasts (io_out w') = mcasts (io_out w)"
  by (auto simp: setCloseOnExec_def Let_def split: if_splits)

lemma join_sends:
  assumes "join k p sp fd s = Inr s'"
  obtains rv w s3 where "setCloseOnExec k (Socket_new fd) True (sio s) = (rv, w)"
    "sendRegistrationRequest k p ((set_node p (DeviceNode_pimpl fd sp) s)\<lparr>sio := w\<rparr>) = Inr s3" "io_out (sio s') = io_out (sio s3)"
proof -
  obtain rv w where w: "setCloseOnExec k (Socket_new fd) True (sio s) = (rv, w)" by fastforce
  let ?s2 = "(set_node p (DeviceNode_pimpl fd sp) s)\<lparr>sio := w\<rparr>"
  from assms obtain s3 s4 n where s3: "sendRegistrationRequest k p ?s2 = Inr s3" "startRegistrationTimer k p s3 = Inr s4"
      "heap s4 p = Some n" "addNode k p (set_node p (n\<lparr>curState := Some RegisteringState\<rparr>) s4) = Inr s'"
    by (auto simp: join_def DeviceNode_new_def w)
  have "io_out (sio s4) = io_out (sio s3)"
    using s3(2) by (auto simp: startRegistrationTimer_def timer_start_def timer_arm_def Let_def split: if_splits)
  moreover have "io_out (sio s') = io_out (sio s4)"
    using s3(4) by (auto simp: addNode_def addNode_poll_def addNode_insert_def setMedium_def Let_def split: if_splits)
  ultimately show thesis using w s3(1) by (intro that) simp_all
qed

lemma join_silent:
  assumes "join k p sp fd s = Inr s'"
  shows "silent s s'"
  using assms by (rule join_sends) (auto dest!: sends_silent(1) setCloseOnExec_silent simp: silent_def)

lemma closing_silent: "mcasts (io_out (closing n w)) = mcasts (io_out w)"
  by (simp add: closing_out)

section \<open>One refinement lemma per operation\<close>

text \<open>All operations but the pass over the transmit list refine events other than rounds.\<close>

definition refines :: "bool \<Rightarrow> sys \<Rightarrow> sys \<Rightarrow> bool" where
  "refines shared s s' \<longleftrightarrow> (\<exists>es. quiet_events es \<and> air_run shared es (view s) (view s'))"

lemma refines_trans: "refines sh s s1 \<Longrightarrow> refines sh s1 s' \<Longrightarrow> refines sh s s'"
  unfolding refines_def by (metis air_run_append quiet_events_simps(2))

lemma refines_step: "air_step sh e (view s) a \<Longrightarrow> view s' = a \<Longrightarrow> \<forall>ds. e \<noteq> Round ds \<Longrightarrow> refines sh s s'"
  unfolding refines_def by (intro exI [of _ "[e]"]) simp

lemma refines_same: "view s' = view s \<Longrightarrow> refines sh s s'"
  unfolding refines_def by (intro exI [of _ "[]"]) simp

lemma view_frame [simp]:
  "view (s\<lparr>pm_state := st\<rparr>) = view s" "view (s\<lparr>curTime := t\<rparr>) = view s" "view (s\<lparr>regListMap := r\<rparr>) = view s"
  "view (s\<lparr>nodeHashMap := r\<rparr>) = view s" "mcasts (io_out w) = mcasts (io_out (sio s)) \<Longrightarrow> view (s\<lparr>sio := w\<rparr>) = view s"
  by (simp_all add: view_def)

lemma refines_frame:
  "heap s' = heap s \<Longrightarrow> txList s' = txList s \<Longrightarrow> ccaList s' = ccaList s \<Longrightarrow> io_out (sio s') = io_out (sio s) \<Longrightarrow>
    tx_pkts_ok s' = tx_pkts_ok s \<Longrightarrow> tx_pkts_collided s' = tx_pkts_collided s \<Longrightarrow> refines sh s s'"
  by (simp add: refines_same view_def)

lemma refines_failed: "heap s p = Some n \<Longrightarrow> refines sh s (set_node p (n\<lparr>failedReads := x\<rparr>) s)"
  by (intro refines_same view_eqI) (simp_all add: phase_of_failed)

lemma refines_bye:
  assumes "sendDeregistrationConfirm k p s = Inr s'"
  shows "refines sh s s'"
proof -
  obtain w where w: "s' = s\<lparr>sio := w\<rparr>"
    using assms by (auto simp: sendDeregistrationConfirm_def dest!: node_send_inv(1) split: prod.splits)
  then show ?thesis using sends_silent(2) [OF assms] by (intro refines_same) (simp add: silent_def)
qed

lemma refines_join:
  assumes "fresh s p sp" and "join k p sp fd s = Inr s'"
  shows "refines sh s s'"
proof (rule refines_step [OF air_step.Enter [where p = p and i = sp]])
  show "phases (view s) p = None" using assms(1) by (simp add: fresh_def)
  from assms(2) show "view s' = (view s)\<lparr>ids := (ids (view s))(p \<mapsto> sp), phases := (phases (view s))(p \<mapsto> Registering)\<rparr>"
    by (rule join_inv)
      (use join_silent [OF assms(2)] in \<open>intro view_eqI; auto simp: silent_def phase_of_def newcomer_def DeviceNode_pimpl_def\<close>)
qed simp

lemma refines_confirm:
  assumes "wf s" and "member s p" and "handleRegistrationConfirm p m s = Inr s'"
  shows "refines sh s s'"
  using assms
proof (rule handleRegistrationConfirm_inv)
  fix n o1 o2
  assume n: "heap s p = Some n" "reg_node n"
    and s': "s' = set_node p (confirmed o1 o2 n) (registered_as (socket_ptr n) p (s\<lparr>sio := tick (sio s)\<rparr>))"
  show ?thesis
  proof (rule refines_step [OF air_step.Confirm [where p = p]])
    show "phases (view s) p = Some Registering" using n by (simp add: phase_of_class)
    show "view s' = (view s)\<lparr>phases := (phases (view s))(p \<mapsto> Active)\<rparr>"
      unfolding s' using phase_of_class(2) [OF confirmed_idle(1) [OF n(2)]]
      by (intro view_eqI) (simp_all add: registered_as_def n(1) confirmed_def)
  qed simp
qed

lemma refines_send:
  assumes "wf s" and "member s p" and "heap s p = Some n0" "accepted_msg (socket_ptr n0) (msg_type_val MSG_TYPE_TX_DATA_IND) m"
    and "handleDataIndication k p m s = Inr s'"
  shows "refines sh s s'"
  using assms(1,2,5)
proof (rule handleDataIndication_inv)
  fix n pkt t
  assume n: "heap s p = Some n" "idle_node n" and pkt: "NetSimPacket_new m p = Inr pkt" and t: "tmr_started t"
    and s': "s' = set_node p (transmitting pkt t n) (s\<lparr>txList := txList s @ [p], sio := tick (tick (sio s))\<rparr>)"
  have "collision pkt = False" using pkt by (auto simp: NetSimPacket_new_def Let_def split: if_splits)
  then have ph: "phase_of (transmitting pkt t n) = OnAir (pktBuffer pkt) False" "socket_ptr (transmitting pkt t n) = socket_ptr n"
    by (simp_all add: phase_of_def transmitting_def)
  show ?thesis
  proof (rule refines_step [OF air_step.Send [where p = p and b = "pktBuffer pkt" and i = "socket_ptr n"]])
    show "phases (view s) p = Some Active" "ids (view s) p = Some (socket_ptr n)" using n by (simp_all add: phase_of_class)
    show "stored_frame (socket_ptr n) (pktBuffer pkt)" using packet_stored_frame [OF pkt] assms(3,4) n by simp
    show "view s' = (view s)\<lparr>phases := (phases (view s))(p \<mapsto> OnAir (pktBuffer pkt) False), air := air (view s) @ [p]\<rparr>"
      unfolding s' using ph n(1) by (intro view_eqI) simp_all
  qed simp
qed

lemma refines_ask:
  assumes "wf s" and "member s p" and "handleCcaRequest p s = Inr s'"
  shows "refines sh s s'"
proof -
  have s': "registered s p" "s' = s\<lparr>ccaList := ccaList s @ [p]\<rparr>" using handleCcaRequest_inv [OF assms] by auto
  obtain n where n: "heap s p = Some n" "idle_node n \<or> tx_node n" using assms(1) s'(1) by (rule wf_registered)
  then have "phase_of n \<noteq> Registering" by (auto simp: phase_of_def node_class_defs)
  then have "air_step sh (Asked p) (view s) ((view s)\<lparr>asking := asking (view s) @ [p]\<rparr>)"
    using n(1) by (intro air_step.Ask) simp_all
  then show ?thesis by (rule refines_step) (simp_all add: s'(2) view_def)
qed

lemma refines_departed:
  assumes "heap s p = Some n" and "p \<notin> set (ccaList s)" "p \<notin> set (txList s)"
  shows "refines sh s (departed i p n s)"
proof (rule refines_step [OF air_step.Leave [where p = p]])
  show "p \<in> dom (phases (view s))" using assms(1) by (simp add: dom_def)
  show "view (departed i p n s) = (view s)\<lparr>ids := (ids (view s))(p := None), phases := (phases (view s))(p := None)\<rparr>"
    by (rule view_eqI) (simp_all add: departed_def closing_silent)
qed (use assms in simp_all)

lemma processCca_loop_silent: "processCca_loop k l s = Inr s' \<Longrightarrow> silent s s'"
proof (induction l arbitrary: s)
  case (Cons p l)
  then obtain s2 where "sendCcaConfirm k p (pm_state s = IDLE) (s\<lparr>ccaList := l\<rparr>) = Inr s2" "processCca_loop k l s2 = Inr s'"
    by auto
  with sends_silent(3) Cons.IH show ?case by (fastforce simp: silent_def)
qed (simp add: silent_def)

lemma refines_answer:
  assumes "processCcaList k s = Inr s'"
  shows "refines sh s s'"
proof -
  obtain w where s': "s' = s\<lparr>ccaList := [], sio := w\<rparr>" using processCcaList_inv [OF assms] by blast
  have "mcasts (io_out w) = mcasts (io_out (sio s))"
    using processCca_loop_silent [of k "ccaList s" s s'] assms by (simp add: processCcaList_def silent_def s')
  then show ?thesis by (intro refines_step [OF air_step.Answer]) (simp_all add: s' view_def)
qed

lemma refines_gone:
  assumes "gone s s' [p]" and "heap s p = Some n" and "p \<notin> set (ccaList s)" "p \<notin> set (txList s)"
  shows "refines sh s s'"
proof (rule refines_step [OF air_step.Leave [where p = p]])
  show "p \<in> dom (phases (view s))" using assms(2) by (simp add: dom_def)
  show "view s' = (view s)\<lparr>ids := (ids (view s))(p := None), phases := (phases (view s))(p := None)\<rparr>"
    using assms(1) by (intro view_eqI) (auto simp: gone_def fd_closes_def)
qed (use assms in simp_all)

section \<open>Transmissions\<close>

lemma txPacket_mcast:
  assumes "txPacket p pkt s = Inr s'" and "wf_packet pkt"
  shows "mcasts (io_out (sio s')) = mcasts (io_out (sio s)) @ [tx_image (pktBuffer pkt)]"
proof -
  from assms(1) obtain pkt1 pkt2 where pkt: "setRSSI 127 pkt = Inr pkt1" "generateChecksum pkt1 = Inr pkt2"
    and rest: "mcasts (io_out (sio s')) = mcasts (io_out (sio s)) @ [pktBuffer pkt2]"
    by (auto simp: txPacket_def setTxPacket_def Let_def)
  have "RSSI_OFF < pktBufferLen pkt" using pkt(1) by (auto simp: setRSSI_def split: if_splits)
  from tx_image_ops [OF assms(2) this] pkt rest show ?thesis by auto
qed

lemma txDone_mcast:
  assumes "txDone p pkt s = Inr s'" and "wf_packet pkt" and "txDoneResult pkt = tx_result pkt0"
  shows "mcasts (io_out (sio s')) = mcasts (io_out (sio s)) @ (if collision pkt0 then [] else [tx_image (pktBuffer pkt)])"
  using assms txPacket_mcast [of p pkt s] by (auto simp: txDone_def tx_result_def tx_done_defs split: if_splits)

lemma txPacket_counts: "txPacket p pkt s = Inr s' \<Longrightarrow> tx_pkts_ok s' = tx_pkts_ok s \<and> tx_pkts_collided s' = tx_pkts_collided s"
  by (auto simp: txPacket_def setTxPacket_def Let_def)

lemma txDone_counts:
  assumes "txDone p pkt s = Inr s'" and "txDoneResult pkt = tx_result pkt0"
  shows "tx_pkts_ok s' = (if collision pkt0 then tx_pkts_ok s else tx_pkts_ok s + 1)"
    "tx_pkts_collided s' = (if collision pkt0 then tx_pkts_collided s + 1 else tx_pkts_collided s)"
  using assms by (auto simp: txDone_def tx_result_def tx_done_defs dest: txPacket_counts split: if_splits)

lemma view_txExpired:
  assumes "txExpired k p s = Inr s'" and "heap s p = Some n" and "tx_node n"
  shows "view (s'\<lparr>txList := remove1 p (txList s)\<rparr>) = finish p (view s)"
proof -
  obtain pkt where pkt: "txPkt n = Some pkt" "wf_packet pkt" using assms(3) by (auto simp: tx_node_def)
  obtain a b c w where s': "s' = set_node p (done_node n) (s\<lparr>tx_pkts_ok := a, tx_pkts_collided := b, tx_pkts_failed := c, sio := w\<rparr>)"
    using txExpired_inv [OF assms] by blast
  let ?pkt = "pkt\<lparr>txDoneResult := tx_result pkt\<rparr>"
  let ?s1 = "set_node p ((done_node n)\<lparr>txPkt := Some ?pkt\<rparr>) (s\<lparr>sio := tick (sio s)\<rparr>)"
  from assms(1) obtain s2 s3 where s2: "sendTxDoneIndication k p (tx_result pkt) ?s1 = Inr s2"
      "txDone p ?pkt s2 = Inr s3" "setTxPacket p None s3 = Inr s'"
    using handleTxTimerExpired_ok [OF assms(2,3) pkt(1)] assms(2) pkt(1) by (auto simp: txExpired_def getTxPacket_def)
  have "wf_packet ?pkt" using pkt(2) by (simp add: wf_packet_def)
  moreover have w: "w = sio s3" "a = tx_pkts_ok s3" "b = tx_pkts_collided s3"
    using s2(3) s' by (auto simp: setTxPacket_def dest: arg_cong [where f = sio] arg_cong [where f = tx_pkts_ok] arg_cong [where f = tx_pkts_collided])
  have "tx_pkts_ok s2 = tx_pkts_ok s" "tx_pkts_collided s2 = tx_pkts_collided s" using sends_inv(2) [OF s2(1)] by auto
  then have counts: "a = (if collision pkt then tx_pkts_ok s else tx_pkts_ok s + 1)"
      "b = (if collision pkt then tx_pkts_collided s + 1 else tx_pkts_collided s)"
    using txDone_counts [OF s2(2), of pkt] w(2,3) by simp_all
  ultimately
  have out: "mcasts (io_out w) = mcasts (io_out (sio s)) @ (if collision pkt then [] else [tx_image (pktBuffer pkt)])"
    using txDone_mcast [OF s2(2), of pkt] sends_silent(4) [OF s2(1)] w(1) by (simp add: silent_def)
  have ph: "phase_of n = OnAir (pktBuffer pkt) (collision pkt)" "phase_of (done_node n) = Active"
    using phase_of_class(3) [OF assms(3) pkt(1)] phase_of_class(2) [OF done_node_idle(1) [OF assms(3)]] by simp_all
  show ?thesis
    by (rule view_eqI) (use assms(2) ph out counts done_node_idle(2) in \<open>auto simp: finish_def s'\<close>)
qed

text \<open>One round of the pass: the transmission at the head has ended, or it has not.\<close>

lemma processTx_step:
  assumes "processTx_loop k seen (p # rest) s = Inr s'" and "wf s" and "txList s = seen @ p # rest"
  obtains (ended) n s2 where "heap s p = Some n" "tx_node n" "txExpired k p (s\<lparr>sio := tick (sio s)\<rparr>) = Inr s2"
      "processTx_loop k seen rest (s2\<lparr>txList := seen @ rest\<rparr>) = Inr s'" "wf (s2\<lparr>txList := seen @ rest\<rparr>)"
  | (waiting) "processTx_loop k (seen @ [p]) rest (s\<lparr>sio := tick (sio s)\<rparr>) = Inr s'"
proof -
  obtain n where n: "heap s p = Some n" "tx_node n" using wf_txList [OF assms(2), of p] assms(3) by auto
  from assms(1) obtain b where
    b: "hasTxTimerExpired k p s = Inr (b, s\<lparr>sio := tick (sio s)\<rparr>)" by (auto dest: hasTxTimerExpired_inv)
  show thesis
  proof (cases b)
    case True
    with assms(1) b obtain s2 where s2: "txExpired k p (s\<lparr>sio := tick (sio s)\<rparr>) = Inr s2"
        "processTx_loop k seen rest (s2\<lparr>txList := seen @ rest\<rparr>) = Inr s'" by auto
    from txExpired_inv [OF s2(1), of n] n obtain x y z w where e:
      "s2 = set_node p (done_node n) (s\<lparr>tx_pkts_ok := x, tx_pkts_collided := y, tx_pkts_failed := z, sio := w\<rparr>)" by auto
    have "wf (s2\<lparr>txList := seen @ rest\<rparr>)"
      using wfc_end_tx [OF assms(2) [unfolded wf_def assms(3)] n(1) done_node_idle(2) done_node_idle(1) [OF n(2)]]
      by (simp add: wf_def e)
    with n s2 show thesis by (rule ended)
  qed (use assms(1) b waiting in simp)
qed

lemma view_processTx:
  "processTx_loop k seen rest s = Inr s' \<Longrightarrow> wf s \<Longrightarrow> txList s = seen @ rest \<Longrightarrow>
     \<exists>ds. distinct ds \<and> set ds \<subseteq> set rest \<and> view s' = fold finish ds (view s)"
proof (induction rest arbitrary: seen s)
  case Nil
  then show ?case by (intro exI [of _ "[]"]) simp
next
  case (Cons p rest)
  have d: "p \<notin> set seen" "p \<notin> set rest" using Cons.prems(2,3) wf_distinct_tx [of s] by auto
  have v: "view (s\<lparr>sio := tick (sio s)\<rparr>) = view s" by simp
  from Cons.prems show ?case
  proof (cases rule: processTx_step)
    case (ended n s2)
    have "remove1 p (txList s) = seen @ rest" using Cons.prems(3) d by (simp add: remove1_append)
    then have v2: "view (s2\<lparr>txList := seen @ rest\<rparr>) = finish p (view s)"
      using view_txExpired [OF ended(3), of n] ended(1,2) v by simp
    from Cons.IH [OF ended(4,5)] obtain ds where "distinct ds" "set ds \<subseteq> set rest"
        "view s' = fold finish ds (view (s2\<lparr>txList := seen @ rest\<rparr>))" by auto
    then show ?thesis using d v2 by (intro exI [of _ "p # ds"]) auto
  next
    case waiting
    with Cons.prems Cons.IH [of "seen @ [p]" "s\<lparr>sio := tick (sio s)\<rparr>"] obtain ds where
      "distinct ds" "set ds \<subseteq> set rest" "view s' = fold finish ds (view s)" by auto
    then show ?thesis by (intro exI [of _ ds]) auto
  qed
qed

lemma view_flag_all:
  assumes "wf s"
  shows "view (flag_all {} s) = view s" "view (flag_all (set (txList s)) s) = collide (view s)"
proof -
  have ph: "phase_of (flagged n) = flag_phase (phase_of n)" if "tx_node n" for n
    using that by (auto simp: phase_of_def tx_node_def flagged_def setCollided_def)
  show "view (flag_all {} s) = view s" by (simp add: flag_all_def)
  show "view (flag_all (set (txList s)) s) = collide (view s)"
  proof (rule view_eqI)
    fix p
    show "map_option socket_ptr (heap (flag_all (set (txList s)) s) p) = ids (collide (view s)) p"
      using flagged_class(4) by (cases "heap s p") (simp_all add: flag_all_def collide_def)
    show "map_option phase_of (heap (flag_all (set (txList s)) s) p) = phases (collide (view s)) p"
    proof (cases "p \<in> set (txList s)")
      case True
      then obtain n where "heap s p = Some n" "tx_node n" using wf_txList [OF assms] by metis
      then show ?thesis using True ph by (simp add: flag_all_def collide_def)
    qed (simp add: flag_all_def collide_def)
  qed (simp_all add: collide_def)
qed

section \<open>The steps of the thread\<close>

text \<open>A collision check for an air that is shared, or not: it flags everybody on the air when there are two or more, or nobody.\<close>

locale air_policy =
  fixes check :: "sys \<Rightarrow> sys res" and shared :: bool
  assumes check_eq: "wf s \<Longrightarrow> check s = Inr (flag_all (if shared \<and> 1 < length (txList s) then set (txList s) else {}) s)"

sublocale air_policy \<subseteq> collision_policy check
  by unfold_locales (use check_eq in fastforce)

context air_policy
begin

lemma deliver_step:
  assumes "wf s" and "check s = Inr s1" and "processTx_loop k [] (txList s1) s1 = Inr s'"
  shows "\<exists>ds. air_step shared (Round ds) (view s) (view s')"
proof -
  have w1: "wf s1" using check_keeps [OF assms(1,2)] by blast
  have v1: "view s1 = (if shared \<and> 1 < length (air (view s)) then collide (view s) else view s)" "txList s1 = txList s"
    using check_eq [OF assms(1)] assms(2) view_flag_all [OF assms(1)] by (auto split: if_splits)
  obtain ds where "distinct ds" "set ds \<subseteq> set (txList s1)" "view s' = fold finish ds (view s1)"
    using view_processTx [OF assms(3) w1] by auto
  then show ?thesis using v1 air_step.Deliver [of ds "view s" shared] by auto
qed

end

text \<open>All operations but the pass are quiet events, and the pass is one round.\<close>

sublocale air_policy \<subseteq> air: thread_rel check k "refines shared" "\<lambda>s s'. \<exists>ds. air_step shared (Round ds) (view s) (view s')" for k
  using refines_trans refines_frame refines_failed refines_join refines_confirm refines_ask refines_send refines_bye
    refines_departed refines_gone refines_answer deliver_step
  by unfold_locales

context air_policy
begin

lemma medium_step_refines:
  assumes "medium_step listed_stay check k c c'" and "wf (snd c)"
  shows "\<exists>es es'. quiet_events es \<and> air_run shared (es @ es') (view (snd c)) (view (snd c')) \<and> (es' = [] \<or> (\<exists>ds. es' = [Round ds]))"
proof -
  from air.medium_step_rel [OF assms] consider "refines shared (snd c) (snd c')"
    | s1 ds where "refines shared (snd c) s1" "air_step shared (Round ds) (view s1) (view (snd c'))" by blast
  then show ?thesis
  proof cases
    case 1
    then obtain es where "quiet_events es" "air_run shared es (view (snd c)) (view (snd c'))" by (auto simp: refines_def)
    then show ?thesis by (intro exI [of _ es] exI [of _ "[]"]) simp
  next
    case (2 s1 ds)
    then obtain es where "quiet_events es" "air_run shared es (view (snd c)) (view s1)" by (auto simp: refines_def)
    then show ?thesis using air_run_append [of shared es _ "view s1" "[Round ds]"] 2(2) by (intro exI [of _ es] exI [of _ "[Round ds]"]) simp
  qed
qed

lemma reachable_refines:
  "reachable listed_stay check c \<Longrightarrow> \<exists>a es. phases a = Map.empty \<and> air a = [] \<and> asking a = [] \<and> air_run shared es a (view (snd c))"
proof (induction rule: reachable.induct)
  case (Start now w)
  then show ?case
    by (intro exI [of _ "view (snd (run_start now (empty_medium\<lparr>sio := w\<rparr>)))"] exI [of _ "[]"])
      (simp add: run_start_def view_def empty_medium_def)
next
  case (Step c k c')
  then obtain a es es' where a: "phases a = Map.empty" "air a = []" "asking a = []" "air_run shared es a (view (snd c))"
      "air_run shared es' (view (snd c)) (view (snd c'))"
    using medium_step_refines [OF Step.hyps(2)] reachable_wf [OF Step.hyps(1)] by metis
  then show ?case using air_run_append by blast
qed

end

interpretation shared_air: air_policy powerline_txCollisionCheck True
  by unfold_locales (simp add: powerline_check_eq)

interpretation open_air: air_policy wireless_txCollisionCheck False
  by unfold_locales (simp add: wireless_check_eq)

section \<open>What the abstract medium guarantees\<close>

text \<open>
  The nodes on the air are exactly those in the list, once each, and only members ask.
\<close>

definition air_ok :: "air_state \<Rightarrow> bool" where
  "air_ok a \<longleftrightarrow> distinct (air a) \<and> (\<forall>p. p \<in> set (air a) \<longleftrightarrow> (\<exists>b c. phases a p = Some (OnAir b c)))
     \<and> set (asking a) \<subseteq> dom (phases a)"

definition collided :: "air_state \<Rightarrow> nptr \<Rightarrow> bool" where
  "collided a p \<longleftrightarrow> (\<exists>b. phases a p = Some (OnAir b True))"

definition buf_of :: "air_state \<Rightarrow> nptr \<Rightarrow> byte list" where
  "buf_of a p = (case phases a p of Some (OnAir b c) \<Rightarrow> b | _ \<Rightarrow> [])"

text \<open>The effect of a round on the nodes \<open>ds\<close> whose transmissions end.\<close>

definition ended_air :: "nptr list \<Rightarrow> air_state \<Rightarrow> air_state" where
  "ended_air ds a = a\<lparr>phases := (\<lambda>p. if p \<in> set ds then Some Active else phases a p), air := filter (\<lambda>p. p \<notin> set ds) (air a),
     aired := aired a @ map (\<lambda>p. tx_image (buf_of a p)) (filter (\<lambda>p. \<not> collided a p) ds),
     passed := passed a + int (length (filter (\<lambda>p. \<not> collided a p) ds)), lost := lost a + int (length (filter (collided a) ds))\<rparr>"

lemma finish_ended:
  assumes "distinct (air a)" and "phases a p = Some (OnAir b c)"
  shows "finish p a = ended_air [p] a"
proof -
  have "remove1 p (air a) = filter (\<lambda>q. q \<notin> set [p]) (air a)"
    using assms(1) by (auto simp: distinct_remove1_removeAll removeAll_filter_not_eq intro!: filter_cong)
  then show ?thesis using assms(2) by (simp add: finish_def ended_air_def collided_def buf_of_def fun_upd_def)
qed

lemma ended_air_Cons:
  assumes "p \<notin> set ds"
  shows "ended_air ds (ended_air [p] a) = ended_air (p # ds) a"
proof -
  have ne: "q \<noteq> p" if "q \<in> set ds" for q using that assms by blast
  then have o: "collided (ended_air [p] a) q = collided a q" "buf_of (ended_air [p] a) q = buf_of a q" if "q \<in> set ds" for q
    using that by (simp_all add: collided_def buf_of_def ended_air_def)
  then have f: "filter (\<lambda>p. \<not> collided (ended_air [p'] a) p) ds = filter (\<lambda>p. \<not> collided a p) ds"
      "filter (collided (ended_air [p'] a)) ds = filter (collided a) ds" if "p' = p" for p'
    using that by (auto intro!: filter_cong)
  have m: "map (\<lambda>q. tx_image (buf_of (ended_air [p] a) q)) (filter (\<lambda>q. \<not> collided a q) ds) = map (\<lambda>q. tx_image (buf_of a q)) (filter (\<lambda>q. \<not> collided a q) ds)"
    using o(2) by auto
  show ?thesis
    unfolding ended_air_def [of ds "ended_air [p] a"] f [OF refl] m
    by (simp add: ended_air_def fun_eq_iff conj_commute)
qed

lemma fold_finish:
  "distinct (air a) \<Longrightarrow> distinct ds \<Longrightarrow> \<forall>p \<in> set ds. \<exists>b c. phases a p = Some (OnAir b c) \<Longrightarrow> fold finish ds a = ended_air ds a"
proof (induction ds arbitrary: a)
  case Nil
  then show ?case by (simp add: ended_air_def)
next
  case (Cons p ds)
  then obtain b c where "phases a p = Some (OnAir b c)" by auto
  then have f: "finish p a = ended_air [p] a" using finish_ended [OF Cons.prems(1)] by blast
  have "fold finish ds (ended_air [p] a) = ended_air ds (ended_air [p] a)"
    using Cons.prems by (intro Cons.IH) (auto simp: ended_air_def)
  then show ?case using f ended_air_Cons [of p ds a] Cons.prems(2) by simp
qed

lemma flag_phase_OnAir: "(\<exists>b c. flag_phase ph = OnAir b c) \<longleftrightarrow> (\<exists>b c. ph = OnAir b c)"
  by (cases ph) auto

lemma collide_keeps: "air_ok a \<Longrightarrow> air_ok (collide a)"
  by (auto simp: air_ok_def collide_def dom_def flag_phase_OnAir)

lemma collide_air:
  assumes "air_ok a"
  shows "collided (collide a) p \<longleftrightarrow> p \<in> set (air a)" "buf_of (collide a) p = buf_of a p" "air (collide a) = air a"
    "aired (collide a) = aired a" "passed (collide a) = passed a" "lost (collide a) = lost a"
proof -
  have "\<exists>b c. phases a p = Some (OnAir b c)" if "p \<in> set (air a)" using assms that by (simp add: air_ok_def)
  moreover have "p \<in> set (air a)" if "phases a p = Some (OnAir b c)" for b c using assms that unfolding air_ok_def by blast
  ultimately show "collided (collide a) p \<longleftrightarrow> p \<in> set (air a)" by (auto simp: collided_def collide_def)
  show "buf_of (collide a) p = buf_of a p"
  proof (cases "phases a p")
    case (Some ph)
    then show ?thesis by (cases ph) (simp_all add: buf_of_def collide_def)
  qed (simp add: buf_of_def collide_def)
qed (simp_all add: collide_def)

lemma air_ok_on: "air_ok a \<Longrightarrow> p \<in> set (air a) \<Longrightarrow> \<exists>b c. phases a p = Some (OnAir b c)"
  by (simp add: air_ok_def)

lemma round_effect:
  assumes "air_step sh (Round ds) a a'" and "air_ok a"
  shows "a' = ended_air ds (if sh \<and> 1 < length (air a) then collide a else a)" "distinct ds" "set ds \<subseteq> set (air a)"
proof -
  define a0 where "a0 = (if sh \<and> 1 < length (air a) then collide a else a)"
  from assms(1) have f: "distinct ds \<and> set ds \<subseteq> set (air a) \<and> a' = fold finish ds a0"
    unfolding a0_def One_nat_def by (rule RoundE) (intro conjI)
  then show d: "distinct ds" "set ds \<subseteq> set (air a)" by simp_all
  have ok: "air_ok a0" "air a0 = air a" using assms(2) collide_keeps collide_air(3) by (simp_all add: a0_def)
  then have "\<forall>p \<in> set ds. \<exists>b c. phases a0 p = Some (OnAir b c)" using d(2) air_ok_on [OF ok(1)] by auto
  then have "fold finish ds a0 = ended_air ds a0" using ok(1) d(1) by (intro fold_finish) (simp_all add: air_ok_def)
  then show "a' = ended_air ds (if sh \<and> 1 < length (air a) then collide a else a)" using f a0_def by simp
qed

lemma ended_air_ok: "air_ok a \<Longrightarrow> set ds \<subseteq> set (air a) \<Longrightarrow> air_ok (ended_air ds a)"
  by (auto simp: air_ok_def ended_air_def)

lemma air_step_ok:
  assumes "air_step sh e a a'" and "air_ok a"
  shows "air_ok a'"
  using assms(1)
proof (cases rule: air_step.cases)
  case (Deliver ds)
  from round_effect [OF assms(1) [unfolded Deliver(1)] assms(2)] show ?thesis
    using assms(2) ended_air_ok collide_keeps [of a] collide_air(3) [of a] by (cases "sh \<and> 1 < length (air a)") simp_all
qed (use assms(2) in \<open>auto simp: air_ok_def dom_def\<close>)

lemma air_run_ok: "air_run sh es a a' \<Longrightarrow> air_ok a \<Longrightarrow> air_ok a'"
  by (induction es arbitrary: a) (auto intro: air_step_ok)

text \<open>Quiet events put nodes on the air with frames that have not collided, and change nothing about those that are on the air already.\<close>

definition grows :: "air_state \<Rightarrow> air_state \<Rightarrow> bool" where
  "grows a a' \<longleftrightarrow> aired a' = aired a \<and> passed a' = passed a \<and> lost a' = lost a
     \<and> (\<exists>new. air a' = air a @ new \<and> (\<forall>p \<in> set new. \<not> collided a' p)) \<and> (\<forall>p \<in> set (air a). phases a' p = phases a p)"

lemma grows_trans:
  assumes "grows a a1" and "grows a1 a'"
  shows "grows a a'"
proof -
  obtain new new' where n: "air a1 = air a @ new" "\<forall>p \<in> set new. \<not> collided a1 p" "air a' = air a1 @ new'" "\<forall>p \<in> set new'. \<not> collided a' p"
    using assms unfolding grows_def by blast
  then have "\<forall>p \<in> set (new @ new'). \<not> collided a' p" using assms(2) by (auto simp: grows_def collided_def)
  then show ?thesis using assms n unfolding grows_def by (intro conjI exI [of _ "new @ new'"]) auto
qed

lemma quiet_step_grows:
  assumes "air_step sh e a a'" and "\<forall>ds. e \<noteq> Round ds" and "air_ok a"
  shows "grows a a'"
  using assms(1)
proof (cases rule: air_step.cases)
  case (Send p i b)
  then have "p \<notin> set (air a)" using assms(3) by (auto simp: air_ok_def)
  then show ?thesis using Send by (auto simp: grows_def collided_def)
next
  case (Enter p i)
  then have "p \<notin> set (air a)" using assms(3) by (auto simp: air_ok_def)
  then show ?thesis using Enter by (auto simp: grows_def)
next
  case (Confirm p)
  then have "p \<notin> set (air a)" using assms(3) by (auto simp: air_ok_def)
  then show ?thesis using Confirm by (auto simp: grows_def)
qed (use assms(2) in \<open>auto simp: grows_def\<close>)

lemma quiet_run_grows: "air_run sh es a a' \<Longrightarrow> quiet_events es \<Longrightarrow> air_ok a \<Longrightarrow> grows a a'"
proof (induction es arbitrary: a)
  case Nil
  then show ?case by (simp add: grows_def)
next
  case (Cons e es)
  then obtain a1 where "air_step sh e a a1" "air_run sh es a1 a'" by auto
  then show ?case using Cons quiet_step_grows air_step_ok grows_trans by (metis quiet_events_simps(3))
qed

lemma lost_grows: "air_run sh es a a' \<Longrightarrow> air_ok a \<Longrightarrow> lost a \<le> lost a'"
proof (induction es arbitrary: a)
  case (Cons e es)
  then obtain a1 where a1: "air_step sh e a a1" "air_run sh es a1 a'" by auto
  have "lost a \<le> lost a1"
  proof (cases "\<exists>ds. e = Round ds")
    case True
    then obtain ds where "air_step sh (Round ds) a a1" using a1(1) by blast
    from round_effect(1) [OF this Cons.prems(2)] show ?thesis
      using collide_air(6) [OF Cons.prems(2)] by (cases "sh \<and> 1 < length (air a)") (simp_all add: ended_air_def)
  next
    case False
    then show ?thesis using quiet_step_grows [OF a1(1) _ Cons.prems(2)] by (simp add: grows_def)
  qed
  then show ?case using Cons.IH [OF a1(2) air_step_ok [OF a1(1) Cons.prems(2)]] by simp
qed simp

text \<open>
  Nothing overlapping and nothing that has collided is passed on by the abstract medium. With shared air, a round that finds two or more on the air passes nothing on, and everybody
  then on the air is counted as lost or stays on it collided. A frame that has collided stays on the air as such until it is counted as
  lost, whatever else happens; so it can be passed on in no run in which the count of lost frames stays the same.
\<close>

lemma overlapping_round:
  assumes "air_step True (Round ds) a a'" and "air_ok a" and "1 < length (air a)"
  shows "aired a' = aired a" "passed a' = passed a" "lost a' = lost a + int (length ds)"
    "p \<in> set (air a) \<Longrightarrow> p \<in> set ds \<or> collided a' p"
proof -
  have r: "a' = ended_air ds (collide a)" "set ds \<subseteq> set (air a)" using round_effect [OF assms(1,2)] assms(3) by simp_all
  have "filter (\<lambda>p. \<not> collided (collide a) p) ds = []" "filter (collided (collide a)) ds = ds"
    using r(2) collide_air(1) [OF assms(2)] by (auto simp: filter_empty_conv intro!: filter_True)
  then show "aired a' = aired a" "passed a' = passed a" "lost a' = lost a + int (length ds)"
    using collide_air [OF assms(2)] by (simp_all add: r(1) ended_air_def)
  show "p \<in> set ds \<or> collided a' p" if "p \<in> set (air a)"
    using that collide_air(1) [OF assms(2), of p] by (auto simp: r(1) ended_air_def collided_def)
qed

lemma collided_stays:
  assumes "air_run sh es a a'" and "air_ok a" and "collided a p"
  shows "lost a \<le> lost a' \<and> (lost a' = lost a \<longrightarrow> collided a' p)"
  using assms
proof (induction es arbitrary: a)
  case (Cons e es)
  then obtain a1 where a1: "air_step sh e a a1" "air_run sh es a1 a'" by auto
  have ok: "air_ok a1" using air_step_ok [OF a1(1) Cons.prems(2)] .
  have on: "p \<in> set (air a)" using Cons.prems(2,3) unfolding air_ok_def collided_def by blast
  have "lost a < lost a1 \<or> lost a1 = lost a \<and> collided a1 p"
  proof (cases "\<exists>ds. e = Round ds")
    case True
    then obtain ds where ds: "e = Round ds" by blast
    let ?a = "if sh \<and> 1 < length (air a) then collide a else a"
    have r: "a1 = ended_air ds ?a" "distinct ds" "set ds \<subseteq> set (air a)" using round_effect [OF a1(1) [unfolded ds] Cons.prems(2)] by simp_all
    have c: "collided ?a p" "lost ?a = lost a" using Cons.prems(3) collide_air [OF Cons.prems(2)] on by simp_all
    show ?thesis
    proof (cases "p \<in> set ds")
      case True
      then have "filter (collided ?a) ds \<noteq> []" using c(1) by (auto simp: filter_empty_conv)
      then show ?thesis using c(2) by (simp add: r(1) ended_air_def)
    next
      case False
      then have "collided a1 p" using c(1) by (simp add: r(1) ended_air_def collided_def)
      moreover have "lost a \<le> lost a1" using c(2) by (simp add: r(1) ended_air_def)
      ultimately show ?thesis by auto
    qed
  next
    case False
    then show ?thesis using quiet_step_grows [OF a1(1) _ Cons.prems(2)] on Cons.prems(3) by (auto simp: grows_def collided_def)
  qed
  moreover have "lost a1 \<le> lost a'" if "collided a1 p" using Cons.IH [OF a1(2) ok that] by blast
  moreover have "lost a1 \<le> lost a'"
    using a1(2) ok lost_grows by blast
  ultimately show ?case using Cons.IH [OF a1(2) ok] by auto
qed simp

context air_policy
begin

lemma round_refines:
  assumes "run_step check k c = Inr c'" and "listed_stay k c" and "wf (snd c)"
  shows "check_state k c = None \<Longrightarrow> \<exists>es. quiet_events es \<and> air_run shared es (view (snd c)) (view (snd c'))"
    "check_state k c = Some s1 \<Longrightarrow>
       \<exists>es ds. quiet_events es \<and> air_run shared es (view (snd c)) (view s1) \<and> air_step shared (Round ds) (view s1) (view (snd c'))"
  using air.run_step_rel [OF assms] by (auto simp: refines_def)

lemma reachable_air_ok:
  assumes "reachable listed_stay check c"
  shows "air_ok (view (snd c))"
proof -
  obtain a es where "phases a = Map.empty" "air a = []" "asking a = []" "air_run shared es a (view (snd c))"
    using reachable_refines [OF assms] by blast
  moreover from this have "air_ok a" by (simp add: air_ok_def)
  ultimately show ?thesis using air_run_ok by blast
qed

lemma step_refines:
  assumes "reachable listed_stay check c" and "medium_step listed_stay check k c c'"
  shows "(\<exists>es es'. quiet_events es \<and> air_run shared (es @ es') (view (snd c)) (view (snd c')) \<and> (es' = [] \<or> (\<exists>ds. es' = [Round ds])))
    \<and> (run_step check k c = Inr c' \<and> listed_stay k c \<longrightarrow> (case check_state k c of
         None \<Rightarrow> \<exists>es. quiet_events es \<and> air_run shared es (view (snd c)) (view (snd c'))
       | Some s1 \<Rightarrow> \<exists>es ds. quiet_events es \<and> air_run shared es (view (snd c)) (view s1) \<and> air_step shared (Round ds) (view s1) (view (snd c'))))
    \<and> (\<exists>a es. phases a = Map.empty \<and> air a = [] \<and> asking a = [] \<and> air_run shared es a (view (snd c'))) \<and> air_ok (view (snd c'))"
proof -
  have r: "reachable listed_stay check c'" using assms by (rule reachable.Step)
  have w: "wf (snd c)" using reachable_wf [OF assms(1)] by blast
  have "case check_state k c of
         None \<Rightarrow> \<exists>es. quiet_events es \<and> air_run shared es (view (snd c)) (view (snd c'))
       | Some s1 \<Rightarrow> \<exists>es ds. quiet_events es \<and> air_run shared es (view (snd c)) (view s1) \<and> air_step shared (Round ds) (view s1) (view (snd c'))"
    if "run_step check k c = Inr c'" "listed_stay k c"
    using round_refines [OF that w] by (cases "check_state k c") (simp_all del: check_state.simps)
  then show ?thesis using medium_step_refines [OF assms(2) w] reachable_refines [OF r] reachable_air_ok [OF r] by blast
qed

end



end
