(* ===== verification/Medium_Collisions.thy ===== *)
theory Medium_Collisions
  imports Medium_Spec
begin

text \<open>
  Collisions over the whole life of a transmission. The history of a run records which nodes on the air have met: shared a collision check with another node since
  they went on the air. On the powerline medium the collision flags of the packets are exactly this history, so what is multicast is decided by it: a frame is passed on if
  its sender has been alone at every check, and never otherwise.
\<close>

section \<open>The history of a medium\<close>

text \<open>Who is on the air at the collision check of a round, and who meets another node there.\<close>

definition at_check :: "kernel \<Rightarrow> run_loc \<times> sys \<Rightarrow> nptr list" where
  "at_check k c = (case check_state k c of None \<Rightarrow> [] | Some s \<Rightarrow> txList s)"

definition meeting :: "kernel \<Rightarrow> run_loc \<times> sys \<Rightarrow> nptr set" where
  "meeting k c = (if 1 < length (at_check k c) then set (at_check k c) else {})"

text \<open>
  \<open>history check c met\<close>: the medium has come to \<open>c\<close>, and \<open>met\<close> are the nodes on the air that have met another one since they went on it. The record
  begins in a state of the medium in which no packet on the air has collided, such as the one in which the thread begins. A node
  that is no longer on the transmit list after a round has ended its transmission and is forgotten; its next one begins anew.
\<close>

definition unmet :: "run_loc \<times> sys \<Rightarrow> bool" where
  "unmet c \<longleftrightarrow> wf (snd c) \<and> loc_ok c \<and> air_ok (view (snd c)) \<and> (\<forall>p \<in> set (txList (snd c)). \<not> collision (pkt_of (snd c) p))"

inductive history :: "(sys \<Rightarrow> sys res) \<Rightarrow> run_loc \<times> sys \<Rightarrow> nptr set \<Rightarrow> bool" for check where
  Start: "unmet c \<Longrightarrow> history check c {}"
| Round: "history check c met \<Longrightarrow> run_step check k c = Inr c' \<Longrightarrow> listed_stay k c \<Longrightarrow>
    history check c' ((met \<union> meeting k c) \<inter> set (txList (snd c')))"
| Join: "history check (l, s) met \<Longrightarrow> fresh s p sp \<Longrightarrow> join k p sp fd s = Inr s' \<Longrightarrow> history check (l, s') met"
| Stop: "history check (l, s) met \<Longrightarrow> history check (l, stop s) met"

text \<open>Every reachable state has a history.\<close>

lemma unmet_start: "unmet (run_start now (empty_medium\<lparr>sio := w\<rparr>))"
  using wf_empty_medium by (simp add: unmet_def run_start_def air_ok_def) (simp add: empty_medium_def)

lemma reachable_history: "reachable listed_stay check c \<Longrightarrow> \<exists>met. history check c met"
proof (induction rule: reachable.induct)
  case (Start now w)
  then show ?case using unmet_start history.Start by blast
next
  case (Step c k c')
  from Step.hyps(2) Step.IH show ?case by (cases rule: medium_step.cases) (blast intro: history.intros)+
qed

context air_policy
begin

lemma history_ok: "history check c met \<Longrightarrow> wf (snd c) \<and> loc_ok c \<and> air_ok (view (snd c))"
proof (induction rule: history.induct)
  case (Start c)
  then show ?case by (simp add: unmet_def)
next
  case (Round c met k c')
  then have w: "wf (snd c)" "loc_ok c" "air_ok (view (snd c))" by simp_all
  have m: "medium_step listed_stay check k c c'" using Round.hyps(2,3) by (rule medium_step.Run)
  obtain es es' where "air_run shared (es @ es') (view (snd c)) (view (snd c'))" using medium_step_refines [OF m w(1)] by blast
  then show ?case using medium_step_keeps [OF m w(1,2)] air_run_ok w(3) by blast
next
  case (Join l s met p sp k fd s')
  then have w: "wf s" "loc_ok (l, s)" "air_ok (view s)" by simp_all
  obtain es where "air_run shared es (view s) (view s')" using refines_join [OF Join.hyps(2,3), of shared] by (auto simp: refines_def)
  then show ?case using medium_step_keeps [OF medium_step.Join [OF Join.hyps(2,3), of listed_stay check l]] w air_run_ok by auto
next
  case (Stop l s met)
  then show ?case using medium_step_keeps [OF medium_step.Stop [of listed_stay check undefined l s]] by (simp add: stop_def)
qed

end

section \<open>The flags are the history\<close>

lemma collided_view:
  "collided (view s) p \<longleftrightarrow> (\<exists>n. heap s p = Some n \<and> (\<exists>b. phase_of n = OnAir b True))"
  by (auto simp: collided_def)

lemma tx_node_view:
  assumes "wf s" and "p \<in> set (txList s)"
  shows "collided (view s) p \<longleftrightarrow> collision (pkt_of s p)" "buf_of (view s) p = pktBuffer (pkt_of s p)"
proof -
  obtain n where n: "heap s p = Some n" "tx_node n" using wf_txList [OF assms] by blast
  then obtain pkt where "txPkt n = Some pkt" by (auto simp: tx_node_def)
  with n phase_of_class(3) [OF n(2) this]
  show "collided (view s) p \<longleftrightarrow> collision (pkt_of s p)" "buf_of (view s) p = pktBuffer (pkt_of s p)"
    by (auto simp: collided_def pkt_of_def buf_of_def)
qed

text \<open>What a round does to a powerline medium, up to its check and from there.\<close>

lemma round_air:
  assumes "history powerline_txCollisionCheck c met" and "run_step powerline_txCollisionCheck k c = Inr c'" and "listed_stay k c"
  shows "check_state k c = None \<Longrightarrow> grows (view (snd c)) (view (snd c'))"
    "check_state k c = Some s1 \<Longrightarrow> wf s1 \<and> air_ok (view s1) \<and> grows (view (snd c)) (view s1) \<and> (\<exists>ds. air_step True (Round ds) (view s1) (view (snd c')))"
proof -
  have w: "wf (snd c)" and a: "air_ok (view (snd c))" using shared_air.history_ok [OF assms(1)] by simp_all
  note refine = shared_air.round_refines [OF assms(2,3) w]
  show "grows (view (snd c)) (view (snd c'))" if "check_state k c = None"
    using refine(1) [OF that] quiet_run_grows a by blast
  assume s1: "check_state k c = Some s1"
  obtain es ds where es: "quiet_events es" "air_run True es (view (snd c)) (view s1)" "air_step True (Round ds) (view s1) (view (snd c'))"
    using refine(2) [OF s1] by blast
  moreover have "wf s1" using shared_air.air.run_step_rel [OF assms(2,3) w] s1 by simp
  ultimately show "wf s1 \<and> air_ok (view s1) \<and> grows (view (snd c)) (view s1) \<and> (\<exists>ds. air_step True (Round ds) (view s1) (view (snd c')))"
    using quiet_run_grows [OF es(2,1) a] air_run_ok [OF es(2) a] by blast
qed

lemma grows_collided:
  assumes "grows a a'" and "p \<in> set (air a')"
  shows "collided a' p \<longleftrightarrow> p \<in> set (air a) \<and> collided a p"
  using assms by (auto simp: grows_def collided_def)

lemma history_flags:
  "history powerline_txCollisionCheck c met \<Longrightarrow> met = {p \<in> set (txList (snd c)). collided (view (snd c)) p}"
proof (induction rule: history.induct)
  case (Start c)
  then show ?case using tx_node_view(1) [of "snd c"] by (auto simp: unmet_def)
next
  case (Round c met k c')
  note air = round_air [OF Round.hyps]
  show ?case
  proof (cases "check_state k c")
    case None
    then have "meeting k c = {}" by (simp add: meeting_def at_check_def)
    then show ?thesis using grows_collided [OF air(1) [OF None]] Round.IH by auto
  next
    case (Some s1)
    then obtain ds where ok: "air_ok (view s1)" and g: "grows (view (snd c)) (view s1)" and ds: "air_step True (Round ds) (view s1) (view (snd c'))"
      using air(2) by blast
    have l: "at_check k c = txList s1" using Some by (simp add: at_check_def)
    have sub: "set (txList (snd c)) \<subseteq> set (txList s1)" using g by (auto simp: grows_def)
    have e: "view (snd c') = ended_air ds (if 1 < length (txList s1) then collide (view s1) else view s1)"
      using round_effect(1) [OF ds ok] by simp
    have t: "set (txList (snd c')) = set (txList s1) - set ds"
      using arg_cong [OF e, where f = air] collide_air(3) [OF ok] by (auto simp: ended_air_def split: if_splits)
    have "collided (view (snd c')) p \<longleftrightarrow> p \<in> met \<union> meeting k c" if p: "p \<in> set (txList (snd c'))" for p
    proof -
      have "p \<notin> set ds" "p \<in> set (txList s1)" using p t by auto
      then have "collided (view (snd c')) p \<longleftrightarrow> 1 < length (txList s1) \<or> collided (view s1) p"
        using collide_air(1) [OF ok, of p] by (simp add: e) (simp add: ended_air_def collided_def)
      then show ?thesis using grows_collided [OF g] \<open>p \<in> set (txList s1)\<close> Round.IH by (auto simp: meeting_def l)
    qed
    then show ?thesis by blast
  qed
next
  case (Join l s met p sp k fd s')
  have "wf s" using shared_air.history_ok [OF Join.hyps(1)] by simp
  moreover have "p \<notin> set (txList s)" using Join.hyps(2) wf_txList [OF \<open>wf s\<close>] by (metis fresh_def option.distinct(1))
  moreover have "txList s' = txList s" "\<forall>q. q \<noteq> p \<longrightarrow> heap s' q = heap s q"
    using Join.hyps(3) by (rule join_inv, simp)+
  ultimately show ?case using Join.IH by (auto simp: collided_def)
qed (simp add: stop_def collided_def)

lemma distinct_single: "distinct ds \<Longrightarrow> set ds \<subseteq> {p} \<Longrightarrow> ds = [] \<or> ds = [p]"
  by (cases ds; cases "tl ds") auto

text \<open>A round that comes to its check, in the terms of the history.\<close>

lemma round_by_history:
  assumes "history powerline_txCollisionCheck c met" and "run_step powerline_txCollisionCheck k c = Inr c'" and "listed_stay k c"
    and "check_state k c = Some s1"
  obtains ds where "distinct ds" "set ds \<subseteq> set (txList s1)" "txList (snd c') = filter (\<lambda>p. p \<notin> set ds) (txList s1)" "distinct (txList s1)"
    "mcasts (io_out (sio (snd c'))) = mcasts (io_out (sio (snd c))) @ map (\<lambda>p. tx_image (pktBuffer (pkt_of s1 p))) (filter (\<lambda>p. p \<notin> met \<union> meeting k c) ds)"
    "tx_pkts_ok (snd c') = tx_pkts_ok (snd c) + int (length (filter (\<lambda>p. p \<notin> met \<union> meeting k c) ds))"
    "tx_pkts_collided (snd c') = tx_pkts_collided (snd c) + int (length (filter (\<lambda>p. p \<in> met \<union> meeting k c) ds))"
proof -
  obtain ds where w: "wf s1" and ok: "air_ok (view s1)" and g: "grows (view (snd c)) (view s1)"
    and ds: "air_step True (Round ds) (view s1) (view (snd c'))"
    using round_air(2) [OF assms] by blast
  define a where "a = (if 1 < length (txList s1) then collide (view s1) else view s1)"
  note r = round_effect [OF ds ok]
  have e: "view (snd c') = ended_air ds a" using r(1) by (simp add: a_def)
  have sub: "set ds \<subseteq> set (txList s1)" using r(3) by simp
  have a: "air a = txList s1" "aired a = mcasts (io_out (sio (snd c)))" "passed a = tx_pkts_ok (snd c)" "lost a = tx_pkts_collided (snd c)"
    using collide_air(3-6) [OF ok] g by (simp_all add: a_def grows_def)
  have l: "at_check k c = txList s1" using assms(4) by (simp add: at_check_def)
  have c: "collided a p \<longleftrightarrow> p \<in> met \<union> meeting k c" if "p \<in> set ds" for p
  proof -
    have p: "p \<in> set (txList s1)" using that sub by blast
    have "collided a p \<longleftrightarrow> 1 < length (txList s1) \<or> collided (view s1) p" using collide_air(1) [OF ok, of p] p by (auto simp: a_def)
    then show ?thesis using grows_collided [OF g, of p] p history_flags [OF assms(1)] by (auto simp: meeting_def l)
  qed
  then have f: "filter (\<lambda>p. \<not> collided a p) ds = filter (\<lambda>p. p \<notin> met \<union> meeting k c) ds" "filter (collided a) ds = filter (\<lambda>p. p \<in> met \<union> meeting k c) ds"
    by (auto intro!: filter_cong)
  have b: "map (\<lambda>p. tx_image (buf_of a p)) (filter Q ds) = map (\<lambda>p. tx_image (pktBuffer (pkt_of s1 p))) (filter Q ds)" for Q
    using tx_node_view(2) [OF w] collide_air(2) [OF ok] sub by (auto simp: a_def)
  show thesis
  proof (rule that [of ds])
    show "txList (snd c') = filter (\<lambda>p. p \<notin> set ds) (txList s1)"
      using arg_cong [OF e, where f = air] by (simp add: ended_air_def a)
    show "mcasts (io_out (sio (snd c'))) = mcasts (io_out (sio (snd c))) @ map (\<lambda>p. tx_image (pktBuffer (pkt_of s1 p))) (filter (\<lambda>p. p \<notin> met \<union> meeting k c) ds)"
      using arg_cong [OF e, where f = aired] b by (simp add: ended_air_def a f)
    show "tx_pkts_ok (snd c') = tx_pkts_ok (snd c) + int (length (filter (\<lambda>p. p \<notin> met \<union> meeting k c) ds))"
      using arg_cong [OF e, where f = passed] by (simp add: ended_air_def a f)
    show "tx_pkts_collided (snd c') = tx_pkts_collided (snd c) + int (length (filter (\<lambda>p. p \<in> met \<union> meeting k c) ds))"
      using arg_cong [OF e, where f = lost] by (simp add: ended_air_def a f)
  qed (use r(2) sub wf_distinct_tx [OF w] in simp_all)
qed

lemma round_without_check:
  assumes "history powerline_txCollisionCheck c met" and "run_step powerline_txCollisionCheck k c = Inr c'" and "listed_stay k c"
    and "check_state k c = None"
  shows "mcasts (io_out (sio (snd c'))) = mcasts (io_out (sio (snd c)))" "tx_pkts_ok (snd c') = tx_pkts_ok (snd c)"
    "tx_pkts_collided (snd c') = tx_pkts_collided (snd c)"
  using round_air(1) [OF assms] by (simp_all add: grows_def)

section \<open>Properties\<close>

text \<open>
  C3: on the powerline medium a frame is passed on exactly when it has been alone. In every orderly round of a medium with a history, at most one frame is
  multicast, and only in a round that comes to its collision check. That happens if and only if a single node is on the air at the check, it has never met another node at a check since it went on the
  air, and it leaves the air in this round; what is multicast is then the image of the packet it holds in the state of the check.
\<close>

theorem powerline_passes_lone_frames:
  assumes "history powerline_txCollisionCheck c met" and "run_step powerline_txCollisionCheck k c = Inr c'" and "listed_stay k c"
  shows "case check_state k c of
      None \<Rightarrow> mcasts (io_out (sio (snd c'))) = mcasts (io_out (sio (snd c)))
    | Some s1 \<Rightarrow>
        if \<exists>p. txList s1 = [p] \<and> p \<notin> met \<and> txList (snd c') = []
        then mcasts (io_out (sio (snd c'))) = mcasts (io_out (sio (snd c))) @ [tx_image (pktBuffer (pkt_of s1 (hd (txList s1))))]
          \<and> tx_pkts_ok (snd c') = tx_pkts_ok (snd c) + 1
        else mcasts (io_out (sio (snd c'))) = mcasts (io_out (sio (snd c))) \<and> tx_pkts_ok (snd c') = tx_pkts_ok (snd c)"
proof (cases "check_state k c")
  case None
  then show ?thesis using round_without_check [OF assms] by simp
next
  case (Some s1)
  obtain ds where ds: "distinct ds" "set ds \<subseteq> set (txList s1)" "txList (snd c') = filter (\<lambda>p. p \<notin> set ds) (txList s1)"
      "mcasts (io_out (sio (snd c'))) = mcasts (io_out (sio (snd c))) @ map (\<lambda>p. tx_image (pktBuffer (pkt_of s1 p))) (filter (\<lambda>p. p \<notin> met \<union> meeting k c) ds)"
      "tx_pkts_ok (snd c') = tx_pkts_ok (snd c) + int (length (filter (\<lambda>p. p \<notin> met \<union> meeting k c) ds))"
    by (rule round_by_history [OF assms Some])
  have l: "at_check k c = txList s1" using Some by (simp add: at_check_def)
  show ?thesis
  proof (cases "\<exists>p. txList s1 = [p] \<and> p \<notin> met \<and> txList (snd c') = []")
    case True
    then obtain p where p: "txList s1 = [p]" "p \<notin> met" "txList (snd c') = []" by blast
    then have "ds = [p]" using ds(1-3) distinct_single [of ds p] by auto
    then show ?thesis using True p ds(4,5) Some by (simp add: meeting_def l del: check_state.simps)
  next
    case False
    have "filter (\<lambda>p. p \<notin> met \<union> meeting k c) ds = []"
    proof (cases "1 < length (txList s1)")
      case True
      then show ?thesis using ds(2) by (auto simp: filter_empty_conv meeting_def l)
    next
      case short: False
      then consider "txList s1 = []" | p where "txList s1 = [p]" by (cases "txList s1") auto
      then show ?thesis
      proof cases
        case (2 p)
        then have "ds = [] \<or> ds = [p]" using ds(1,2) distinct_single [of ds p] by simp
        then show ?thesis using False 2 ds(3) by auto
      qed (use ds(2) in simp)
    qed
    then show ?thesis using False ds(4,5) Some by (simp del: check_state.simps)
  qed
qed

text \<open>
  C11: overlapping frames are lost, however long they overlap. On a powerline medium with a history, the packets on the air that are marked as collided are exactly those of the nodes that have
  met another node at a collision check since they went on the air. As long as there is such a node, and in every round in which
  nodes meet, nothing is multicast and nothing counted as sent, and every transmission that ends in the round is counted as collided. So a frame that has overlapped
  is never passed on, also when its sender is alone by the time its timer expires.
\<close>

theorem powerline_overlap_collides:
  assumes "history powerline_txCollisionCheck c met" and "run_step powerline_txCollisionCheck k c = Inr c'" and "listed_stay k c"
  shows "(\<forall>p \<in> set (txList (snd c)). collision (pkt_of (snd c) p) \<longleftrightarrow> p \<in> met)
    \<and> (met \<union> meeting k c \<noteq> {} \<longrightarrow>
         mcasts (io_out (sio (snd c'))) = mcasts (io_out (sio (snd c))) \<and> tx_pkts_ok (snd c') = tx_pkts_ok (snd c)
         \<and> tx_pkts_collided (snd c') =
             tx_pkts_collided (snd c) + int (length (filter (\<lambda>p. p \<notin> set (txList (snd c'))) (at_check k c))))"
proof (intro conjI impI)
  have w: "wf (snd c)" using shared_air.history_ok [OF assms(1)] by simp
  show "\<forall>p \<in> set (txList (snd c)). collision (pkt_of (snd c) p) \<longleftrightarrow> p \<in> met"
    using history_flags [OF assms(1)] tx_node_view(1) [OF w] by blast
  assume ne: "met \<union> meeting k c \<noteq> {}"
  have "mcasts (io_out (sio (snd c'))) = mcasts (io_out (sio (snd c))) \<and> tx_pkts_ok (snd c') = tx_pkts_ok (snd c)
         \<and> tx_pkts_collided (snd c') =
             tx_pkts_collided (snd c) + int (length (filter (\<lambda>p. p \<notin> set (txList (snd c'))) (at_check k c)))"
  proof (cases "check_state k c")
    case None
    then show ?thesis using round_without_check [OF assms] by (simp add: at_check_def)
  next
    case (Some s1)
    obtain ds where ds: "distinct ds" "set ds \<subseteq> set (txList s1)" "txList (snd c') = filter (\<lambda>p. p \<notin> set ds) (txList s1)" "distinct (txList s1)"
        "mcasts (io_out (sio (snd c'))) = mcasts (io_out (sio (snd c))) @ map (\<lambda>p. tx_image (pktBuffer (pkt_of s1 p))) (filter (\<lambda>p. p \<notin> met \<union> meeting k c) ds)"
        "tx_pkts_ok (snd c') = tx_pkts_ok (snd c) + int (length (filter (\<lambda>p. p \<notin> met \<union> meeting k c) ds))"
        "tx_pkts_collided (snd c') = tx_pkts_collided (snd c) + int (length (filter (\<lambda>p. p \<in> met \<union> meeting k c) ds))"
      by (rule round_by_history [OF assms Some])
    have l: "at_check k c = txList s1" using Some by (simp add: at_check_def)
    have "met \<subseteq> set (txList s1)"
      using history_flags [OF assms(1)] round_air(2) [OF assms Some] by (auto simp: grows_def)
    then have all: "set (txList s1) \<subseteq> met \<union> meeting k c"
      using ne by (cases "txList s1"; cases "tl (txList s1)") (auto simp: meeting_def l)
    then have f: "filter (\<lambda>p. p \<notin> met \<union> meeting k c) ds = []" "filter (\<lambda>p. p \<in> met \<union> meeting k c) ds = ds"
      using ds(2) by (auto simp: filter_empty_conv intro!: filter_True)
    have "set (filter (\<lambda>p. p \<notin> set (txList (snd c'))) (txList s1)) = set ds" using ds(2,3) by auto
    then have "length (filter (\<lambda>p. p \<notin> set (txList (snd c'))) (txList s1)) = length ds"
      using ds(1,4) by (metis distinct_card distinct_filter)
    then show ?thesis using ds(5-7) f l by simp
  qed
  then show "mcasts (io_out (sio (snd c'))) = mcasts (io_out (sio (snd c)))" "tx_pkts_ok (snd c') = tx_pkts_ok (snd c)"
      "tx_pkts_collided (snd c') = tx_pkts_collided (snd c) + int (length (filter (\<lambda>p. p \<notin> set (txList (snd c'))) (at_check k c)))"
    by simp_all
qed

text \<open>A round without events comes to its check with the nodes and packets it began with, and ends all transmissions whose timers have expired.\<close>

lemma quiet_round:
  assumes "wf s" "frames_ok s" "txList s \<noteq> []" "pm_state s = TX_802514_FRAME" and "send_spec k" "quiet k" "\<forall>t. expired_at k t"
  obtains s1 s' where "check_state k (Inner, s) = Some s1" "txList s1 = txList s" "\<And>p. pkt_of s1 p = pkt_of s p"
    "run_step powerline_txCollisionCheck k (Inner, s) = Inr (Inner, s')" "txList s' = []" "listed_stay k (Inner, s)"
proof -
  obtain t w where i: "interval k 1 s = Inr (s\<lparr>curTime := t, sio := w\<rparr>)" using interval_quiet [OF assms(6)] by blast
  let ?s1 = "s\<lparr>curTime := t, sio := w\<rparr>"
  have "wf ?s1" using assms(1) by simp
  from processCcaList_returns [OF this assms(5)] obtain w' where
    c: "processCcaList k ?s1 = Inr (?s1\<lparr>ccaList := [], sio := w'\<rparr>)" by blast
  obtain s' where "inner_step powerline_txCollisionCheck k s = Inr (Inner, s')" "txList s' = []"
    using powerline.quiet_inner_pass [OF assms(1,2,5,6,3,4)] assms(7) by blast
  then show thesis
    using i c assms(3,4) quiet_polls [OF assms(6), of Inner s]
    by (intro that [of "?s1\<lparr>ccaList := [], sio := w'\<rparr>" s']) (simp_all add: pkt_of_def)
qed

lemma unmet_on_air:
  assumes "wf s" "pm_state s = TX_802514_FRAME" "dom (heap s) = set (txList s)" "\<forall>p \<in> set (txList s). \<not> collision (pkt_of s p)" "ccaList s = []"
  shows "unmet (Inner, s)"
proof -
  have "phases (view s) p = None" if "p \<notin> set (txList s)" for p using that assms(3) by (auto simp: dom_def)
  moreover have "\<exists>b c. phases (view s) p = Some (OnAir b c)" if on: "p \<in> set (txList s)" for p
  proof -
    obtain n where n: "heap s p = Some n" "tx_node n" using wf_txList [OF assms(1) on] by blast
    then obtain pkt where "txPkt n = Some pkt" by (auto simp: tx_node_def)
    with n phase_of_class(3) [OF n(2) this] show ?thesis by simp
  qed
  ultimately have "air_ok (view s)"
    unfolding air_ok_def using wf_distinct_tx [OF assms(1)] assms(5) by (metis empty_iff empty_subsetI list.set(1) option.distinct(1) view_simps(3,4))
  then show ?thesis using assms by (simp add: unmet_def)
qed

theorem powerline_passes_lone_frames_witness:
  "\<exists>s s'. history powerline_txCollisionCheck (Inner, s) {} \<and> txList s = [0x1000]
    \<and> run_step powerline_txCollisionCheck ok_kernel (Inner, s) = Inr (Inner, s') \<and> txList s' = []
    \<and> mcasts (io_out (sio s')) = mcasts (io_out (sio s)) @ [tx_image sample_msg]"
proof -
  have f: "fresh empty_medium 0x1000 0x2000" "txList empty_medium = []" "(0x2000 :: u64) \<noteq> 0"
    by (simp_all add: fresh_def empty_medium_def)
  obtain s0 n where s0: "wf s0" "txList s0 = [0x1000]" "heap s0 = (heap empty_medium)(0x1000 \<mapsto> n)" "txPkt n = Some (sample_packet 0x1000)"
    by (rule grow_medium [OF wf_empty_medium f(1,3)]) (simp add: f(2))
  let ?s = "s0\<lparr>pm_state := TX_802514_FRAME, ccaList := []\<rparr>"
  have p: "pkt_of ?s 0x1000 = sample_packet 0x1000" using s0(3,4) by (simp add: pkt_of_def)
  have s: "wf ?s" "frames_ok ?s" "txList ?s \<noteq> []" "pm_state ?s = TX_802514_FRAME"
    using s0(1,2) p sample_msg_valid(4) wf_cca_empty [OF s0(1)] by (simp_all add: frames_ok_def sample_packet_def) (simp_all add: wf_def)
  have e: "\<forall>t. expired_at ok_kernel t" by (simp add: expired_at_def ok_kernel_def)
  obtain s1 s' where r: "check_state ok_kernel (Inner, ?s) = Some s1" "txList s1 = txList ?s" "pkt_of s1 0x1000 = pkt_of ?s 0x1000"
      "run_step powerline_txCollisionCheck ok_kernel (Inner, ?s) = Inr (Inner, s')" "txList s' = []" "listed_stay ok_kernel (Inner, ?s)"
    using quiet_round [OF s ok_kernel_specs(1) quiet_ok_kernel e] by blast
  have "unmet (Inner, ?s)" using s(1) s0(2,3) p by (intro unmet_on_air) (simp_all add: empty_medium_def sample_packet_def)
  then have h: "history powerline_txCollisionCheck (Inner, ?s) {}" by (rule history.Start)
  have "mcasts (io_out (sio s')) = mcasts (io_out (sio ?s)) @ [tx_image sample_msg]"
    using powerline_passes_lone_frames [OF h r(4,6)] r(1,2,3,5) s0(2) p by (simp add: sample_packet_def del: check_state.simps)
  then show ?thesis using h r(4,5) s0(2) by (intro exI [of _ ?s] exI [of _ s']) simp
qed

theorem powerline_overlap_collides_witness:
  "\<exists>s s'. history powerline_txCollisionCheck (Inner, s) {} \<and> txList s = [0x1000, 0x3000] \<and> meeting ok_kernel (Inner, s) = {0x1000, 0x3000}
    \<and> run_step powerline_txCollisionCheck ok_kernel (Inner, s) = Inr (Inner, s') \<and> txList s' = []
    \<and> mcasts (io_out (sio s')) = mcasts (io_out (sio s)) \<and> tx_pkts_collided s' = tx_pkts_collided s + 2"
proof (rule two_on_air)
  fix s0
  assume s0: "wf s0" "txList s0 = [0x1000, 0x3000]" "pkt_of s0 0x1000 = sample_packet 0x1000" "pkt_of s0 0x3000 = sample_packet 0x3000"
    "dom (heap s0) = {0x1000, 0x3000}"
  let ?s = "s0\<lparr>pm_state := TX_802514_FRAME, ccaList := []\<rparr>"
  have p: "pkt_of ?s 0x1000 = sample_packet 0x1000" "pkt_of ?s 0x3000 = sample_packet 0x3000" using s0(3,4) by (simp_all add: pkt_of_def)
  have s: "wf ?s" "frames_ok ?s" "txList ?s \<noteq> []" "pm_state ?s = TX_802514_FRAME"
    using s0(1,2) frames_ok_two [of ?s, OF _ p] wf_cca_empty [OF s0(1)] by simp_all (simp_all add: wf_def)
  have e: "\<forall>t. expired_at ok_kernel t" by (simp add: expired_at_def ok_kernel_def)
  obtain s1 s' where r: "check_state ok_kernel (Inner, ?s) = Some s1" "txList s1 = txList ?s"
      "run_step powerline_txCollisionCheck ok_kernel (Inner, ?s) = Inr (Inner, s')" "txList s' = []" "listed_stay ok_kernel (Inner, ?s)"
    using quiet_round [OF s ok_kernel_specs(1) quiet_ok_kernel e] by blast
  have "unmet (Inner, ?s)" using s(1) s0(2,5) p by (intro unmet_on_air) (simp_all add: sample_packet_def)
  then have h: "history powerline_txCollisionCheck (Inner, ?s) {}" by (rule history.Start)
  have l: "at_check ok_kernel (Inner, ?s) = [0x1000, 0x3000]" using r(1,2) s0(2) by (simp add: at_check_def del: check_state.simps)
  then have m: "meeting ok_kernel (Inner, ?s) = {0x1000, 0x3000}" by (simp add: meeting_def)
  show ?thesis
    using powerline_overlap_collides [OF h r(3,5)] h r(3,4) m l s0(2) by (intro exI [of _ ?s] exI [of _ s']) simp
qed

end
