(* ===== verification/Medium_Setup.thy ===== *)
theory Medium_Setup
  imports Medium_Loop
begin

text \<open>
  Construction, start and destruction of a medium (\<^verbatim>\<open>PhysicalMedium_pimpl\<close> and \<^verbatim>\<open>PhysicalMedium::start\<close> in
  \<^verbatim>\<open>src/src/sim/PhysicalMedium.cpp\<close>). A new medium is where the reachable states begin; the destructor frees
  all nodes.
\<close>

section \<open>Construction and start\<close>

record medium_env =
  med_name :: string
  epfd :: int
  mcastsockfd :: int
  mcastport :: int

text \<open>
  \<^verbatim>\<open>NetworkSimulator::getUnblocker\<close>: the unblocker is a function-local static, made on its first use; \<open>inst\<close> is that
  static before the call.
\<close>

definition getUnblocker :: "kernel \<Rightarrow> SocketUnblocker option \<Rightarrow> io \<Rightarrow> (SocketUnblocker \<times> io) res" where
  "getUnblocker k inst w = (case inst of Some ub \<Rightarrow> Inr (ub, w) | None \<Rightarrow> SocketUnblocker_new k w)"

text \<open>
  \<^verbatim>\<open>PhysicalMedium_pimpl::PhysicalMedium_pimpl\<close>. The multicast socket and its option are not checked. \<^verbatim>\<open>curTime\<close> is
  left unset by the source; \<^verbatim>\<open>run\<close> sets it before it is used.
\<close>

definition PhysicalMedium_pimpl ::
  "kernel \<Rightarrow> string \<Rightarrow> int \<Rightarrow> SocketUnblocker option \<Rightarrow> io \<Rightarrow> (SocketUnblocker \<times> medium_env \<times> sys) res" where
  "PhysicalMedium_pimpl k nameIn mcastPort inst w =
     bindE (getUnblocker k inst w) (\<lambda>(ub, w0).
      let ep = k_epoll_create k (io_tick w0); w1 = tick w0
      in if ep < 0 then Inl (Throw ''epoll_create error'')
         else if k_epoll_ctl k (io_tick w1) (getReadPipe ub) < 0
         then Inl (Throw ''PhysicalMedium_pimpl: failed to add unblocker to poller'')
         else let w2 = tick w1
              in if k_timer_create k (io_tick w2) = - 1
                 then Inl (Throw ''PhysicalMedium_pimpl: failed to create timer'')
                 else let w3 = tick w2; mc = k_socket k (io_tick w3); w4 = tick (tick w3)
                      in bindE (assertE ''pcap.fake'' (k_pcap_open k (io_tick w4))) (\<lambda>_.
                         bindE (assertE ''pcap.dumper'' (k_pcap_open k (io_tick (tick w4)))) (\<lambda>_.
                         Inr (ub, \<lparr> med_name = nameIn, epfd = ep, mcastsockfd = mc, mcastport = mcastPort \<rparr>,
                              \<lparr> heap = Map.empty, sio = tick (tick w4), pm_state = STOPPED, curTime = Timespec 0 0,
                                nodeHashMap = [], regListMap = [], ccaList = [], txList = [],
                                tx_pkts_ok = 0, tx_pkts_collided = 0, tx_pkts_failed = 0 \<rparr>))))"

definition PowerlineMedium_new ::
  "kernel \<Rightarrow> SocketUnblocker option \<Rightarrow> io \<Rightarrow> (SocketUnblocker \<times> medium_env \<times> sys) res" where
  "PowerlineMedium_new k inst w = PhysicalMedium_pimpl k ''PLC'' HANADU_MCAST_TX_PORT inst w"

definition WirelessMedium_new ::
  "kernel \<Rightarrow> SocketUnblocker option \<Rightarrow> io \<Rightarrow> (SocketUnblocker \<times> medium_env \<times> sys) res" where
  "WirelessMedium_new k inst w = PhysicalMedium_pimpl k ''AIR'' WIRELESS_MCAST_TX_PORT inst w"

definition medium_start :: "kernel \<Rightarrow> sys \<Rightarrow> sys res" where
  "medium_start k s =
     (if k_pthread_create k (io_tick (sio s)) \<noteq> 0 then Inl (Throw ''PacketArbitrator failed to start'')
      else Inr (s\<lparr>sio := tick (sio s)\<rparr>))"

text \<open>The beginning of \<^verbatim>\<open>run\<close>, up to its loop. The only reading of the clock in the thread needs no count of its own.\<close>

definition run_init :: "kernel \<Rightarrow> sys \<Rightarrow> (run_loc \<times> sys) res" where
  "run_init k s =
     (case k_clock_gettime k (io_tick (sio s)) of
        None \<Rightarrow> Inl (Throw ''clock_gettime: unrecoverable error'')
      | Some now \<Rightarrow> Inr (run_start now s))"

section \<open>Destruction\<close>

text \<open>
  The two loops of \<^verbatim>\<open>~PhysicalMedium_pimpl\<close>, over the map that \<open>upd\<close> replaces: the entry is erased, then the node is
  deleted.
\<close>

fun delete_nodes :: "((u64 \<times> nptr) list \<Rightarrow> sys \<Rightarrow> sys) \<Rightarrow> (u64 \<times> nptr) list \<Rightarrow> sys \<Rightarrow> sys res" where
  "delete_nodes upd [] s = Inr s"
| "delete_nodes upd ((i, p) # rest) s =
     bindE (getNodeId p s) (\<lambda>nid.
     bindE (assertE ''iter->first == node->getNodeId()'' (i = nid)) (\<lambda>_.
     bindE (delete_node p (upd rest s)) (delete_nodes upd rest)))"

definition PhysicalMedium_delete :: "medium_env \<Rightarrow> sys \<Rightarrow> sys res" where
  "PhysicalMedium_delete e s =
     (let s1 = s\<lparr>sio := tick (emit (CloseFd (epfd e)) (tick (sio s)))\<rparr>
      in bindE (delete_nodes (\<lambda>m. regListMap_update (\<lambda>_. m)) (regListMap s1) s1) (\<lambda>s2.
         bindE (delete_nodes (\<lambda>m. nodeHashMap_update (\<lambda>_. m)) (nodeHashMap s2) s2) (\<lambda>s3.
         Inr (if mcastsockfd e \<noteq> - 1 then s3\<lparr>sio := emit (CloseFd (mcastsockfd e)) (tick (sio s3))\<rparr> else s3))))"

section \<open>Properties\<close>

lemma PhysicalMedium_pimpl_inv:
  assumes "PhysicalMedium_pimpl k nm port inst w = Inr (ub, e, s)"
  shows "\<exists>w'. s = empty_medium\<lparr>sio := w'\<rparr>"
  using assms by (auto simp: PhysicalMedium_pimpl_def empty_medium_def Let_def split: if_splits)

lemma constructed_reachable:
  assumes "PhysicalMedium_pimpl k nm port inst w = Inr (ub, e, s)" and "run_init k s = Inr c"
  shows "reachable ok check c"
proof -
  obtain w' where s: "s = empty_medium\<lparr>sio := w'\<rparr>" using PhysicalMedium_pimpl_inv [OF assms(1)] by blast
  from assms(2) obtain now where "c = run_start now (empty_medium\<lparr>sio := w'\<rparr>)"
    by (auto simp: run_init_def s split: option.splits)
  then show ?thesis using reachable.Start by metis
qed

definition without :: "sys \<Rightarrow> nptr set \<Rightarrow> nptr \<rightharpoonup> DeviceNode" where
  "without s P = (\<lambda>q. if q \<in> P then None else heap s q)"

lemma fd_closes_cong: "(\<And>p. p \<in> set ds \<Longrightarrow> fd_of s1 p = fd_of s p) \<Longrightarrow> fd_closes s1 ds = fd_closes s ds"
  by (induction ds) (auto simp: fd_closes_def)

lemma delete_nodes_all:
  assumes frame: "\<And>r s h w. upd r (s\<lparr>heap := h, sio := w\<rparr>) = (upd r s)\<lparr>heap := h, sio := w\<rparr>" "\<And>r r' s. upd r (upd r' s) = upd r s"
    and "\<forall>(i, p) \<in> set l. \<exists>n. heap s p = Some n \<and> socket_ptr n = i" and "distinct (map snd l)" and "upd l s = s"
  shows "\<exists>w. delete_nodes upd l s = Inr ((upd [] s)\<lparr>heap := without s (snd ` set l), sio := w\<rparr>)
    \<and> io_out w = io_out (sio s) @ fd_closes s (map snd l)"
  using assms(3-5)
proof (induction l arbitrary: s)
  case Nil
  then have "without s {} = heap s" "upd [] s = s" by (simp_all add: without_def)
  then show ?case by (intro exI [of _ "sio s"]) (simp add: fd_closes_def)
next
  case (Cons e l)
  obtain i p where e: "e = (i, p)" by fastforce
  from Cons.prems(1) e obtain n where n: "heap s p = Some n" "socket_ptr n = i" by auto
  have u: "upd r s = (upd r s)\<lparr>heap := heap s, sio := sio s\<rparr>" for r
    using frame(1) [where s = s and r = r and h = "heap s" and w = "sio s"] by simp
  have h: "heap (upd r s) = heap s" "sio (upd r s) = sio s" for r
    by (subst u, simp)+
  let ?s1 = "(upd l s)\<lparr>heap := (heap s)(p := None), sio := closing n (sio s)\<rparr>"
  have d: "delete_node p (upd l s) = Inr ?s1" using delete_node_ok [of "upd l s" p n] n(1) h by simp
  have other: "q \<noteq> p" if "(j, q) \<in> set l" for j q using that Cons.prems(2) e by force
  have "\<forall>(j, q) \<in> set l. \<exists>n. heap ?s1 q = Some n \<and> socket_ptr n = j"
    using Cons.prems(1) other by auto
  moreover have "upd l ?s1 = ?s1" using frame by simp
  ultimately obtain w where w: "delete_nodes upd l ?s1 = Inr ((upd [] ?s1)\<lparr>heap := without ?s1 (snd ` set l), sio := w\<rparr>)"
      "io_out w = io_out (sio ?s1) @ fd_closes ?s1 (map snd l)"
    using Cons.IH [of ?s1] Cons.prems(2) e by auto
  have "without ?s1 (snd ` set l) = without s (snd ` set (e # l))"
    by (auto simp: without_def e fun_eq_iff)
  moreover have "upd [] ?s1 = (upd [] s)\<lparr>heap := (heap s)(p := None), sio := closing n (sio s)\<rparr>"
    using frame by simp
  moreover have "fd_closes ?s1 (map snd l) = fd_closes s (map snd l)"
    by (rule fd_closes_cong) (auto simp: fd_of_def dest: other)
  moreover have "fd_closes s (map snd (e # l)) = (if sock_fd (dn_socket n) \<noteq> - 1 then [CloseFd (sock_fd (dn_socket n))] else [])
      @ fd_closes s (map snd l)"
    using n(1) e by (simp add: fd_closes_def fd_of_def)
  moreover have "delete_nodes upd (e # l) s = delete_nodes upd l ?s1"
    using n d e by (simp add: getNodeId_def)
  ultimately show ?case using w by (intro exI [of _ w]) (simp add: closing_out)
qed


lemma table_pointers_distinct:
  assumes "um_wf m" and "\<forall>(i, p) \<in> set m. \<exists>n. h p = Some n \<and> socket_ptr n = i"
  shows "distinct (map snd m)"
proof -
  have "inj_on snd (set m)"
  proof (rule inj_onI)
    fix x y
    assume e: "x \<in> set m" "y \<in> set m" "snd x = snd y"
    have "\<exists>n. h (snd x) = Some n \<and> socket_ptr n = fst x" "\<exists>n. h (snd y) = Some n \<and> socket_ptr n = fst y"
      using bspec [OF assms(2) e(1)] bspec [OF assms(2) e(2)] by (simp_all add: case_prod_beta)
    with e(3) show "x = y" by (auto simp: prod_eq_iff)
  qed
  moreover have "distinct m" using assms(1) by (simp add: um_wf_def distinct_map)
  ultimately show ?thesis by (simp add: distinct_map)
qed

lemma wf_table_entries:
  assumes "wf s"
  shows "\<forall>(i, p) \<in> set (regListMap s). \<exists>n. heap s p = Some n \<and> socket_ptr n = i"
    and "\<forall>(i, p) \<in> set (nodeHashMap s). \<exists>n. heap s p = Some n \<and> socket_ptr n = i"
    and "snd ` set (regListMap s) = {p. registering s p}" "snd ` set (nodeHashMap s) = {p. registered s p}"
proof -
  note m = um_entries [OF wf_um(1) [OF assms]] um_entries [OF wf_um(2) [OF assms]]
  show "\<forall>(i, p) \<in> set (regListMap s). \<exists>n. heap s p = Some n \<and> socket_ptr n = i"
    using reg_entry [OF wf_entries [OF assms]] m(1) by blast
  show "\<forall>(i, p) \<in> set (nodeHashMap s). \<exists>n. heap s p = Some n \<and> socket_ptr n = i"
    using hash_entry [OF wf_entries [OF assms]] m(2) by blast
  show "snd ` set (regListMap s) = {p. registering s p}" using m(1) by (force simp: registering_def image_iff)
  show "snd ` set (nodeHashMap s) = {p. registered s p}" using m(2) by (force simp: registered_def image_iff)
qed

lemma PhysicalMedium_delete_frees:
  assumes "wf s"
  shows "\<exists>s'. PhysicalMedium_delete e s = Inr s' \<and> regListMap s' = [] \<and> nodeHashMap s' = []
    \<and> (\<forall>p. heap s' p = (if member s p then None else heap s p))
    \<and> io_out (sio s') = io_out (sio s) @ [CloseFd (epfd e)]
         @ fd_closes s (map snd (regListMap s)) @ fd_closes s (map snd (nodeHashMap s))
         @ (if mcastsockfd e \<noteq> - 1 then [CloseFd (mcastsockfd e)] else [])"
proof -
  let ?s1 = "s\<lparr>sio := tick (emit (CloseFd (epfd e)) (tick (sio s)))\<rparr>"
  let ?R = "{p. registering s p}" and ?H = "{p. registered s p}"
  note ent = wf_table_entries [OF assms]
  note dist = table_pointers_distinct [OF wf_um(1) [OF assms] ent(1)] table_pointers_distinct [OF wf_um(2) [OF assms] ent(2)]
  obtain w2 where w2: "delete_nodes (\<lambda>m. regListMap_update (\<lambda>_. m)) (regListMap s) ?s1 =
      Inr (?s1\<lparr>regListMap := [], heap := without ?s1 ?R, sio := w2\<rparr>)"
      "io_out w2 = io_out (sio ?s1) @ fd_closes ?s1 (map snd (regListMap s))"
    using delete_nodes_all [of "\<lambda>m. regListMap_update (\<lambda>_. m)" "regListMap s" ?s1] ent(1,3) dist(1) by auto
  let ?s2 = "?s1\<lparr>regListMap := [], heap := without ?s1 ?R, sio := w2\<rparr>"
  have nr: "\<not> registering s p" if "registered s p" for p using that wf_not_both [OF assms] by blast
  have h2: "heap ?s2 p = heap s p" if "registered s p" for p using nr [OF that] by (simp add: without_def)
  have "\<forall>(i, p) \<in> set (nodeHashMap s). \<exists>n. heap ?s2 p = Some n \<and> socket_ptr n = i"
    using ent(2,4) h2 by fastforce
  then obtain w3 where w3: "delete_nodes (\<lambda>m. nodeHashMap_update (\<lambda>_. m)) (nodeHashMap s) ?s2 =
      Inr (?s2\<lparr>nodeHashMap := [], heap := without ?s2 ?H, sio := w3\<rparr>)"
      "io_out w3 = io_out (sio ?s2) @ fd_closes ?s2 (map snd (nodeHashMap s))"
    using delete_nodes_all [of "\<lambda>m. nodeHashMap_update (\<lambda>_. m)" "nodeHashMap s" ?s2] ent(4) dist(2) by auto
  have "fd_closes ?s1 (map snd (regListMap s)) = fd_closes s (map snd (regListMap s))"
    by (simp add: fd_closes_def)
  moreover have "fd_closes ?s2 (map snd (nodeHashMap s)) = fd_closes s (map snd (nodeHashMap s))"
  proof -
    have "fd_of ?s2 p = fd_of s p" if "p \<in> set (map snd (nodeHashMap s))" for p
    proof -
      have "registered s p" using that ent(4) by auto
      then show ?thesis using h2 by (simp add: fd_of_def)
    qed
    then show ?thesis by (rule fd_closes_cong)
  qed
  moreover have "without ?s2 ?H p = (if member s p then None else heap s p)" for p
    by (simp add: without_def member_def)
  ultimately show ?thesis
    using w2 w3 by (simp add: PhysicalMedium_delete_def)
qed

text \<open>
  The same as a relation of the medium before and after: \<open>torn_down\<close>. It does not change when something happens before that leaves the nodes
  and the record of the output as they are, \<open>same_nodes\<close>.
\<close>

definition same_nodes :: "sys \<Rightarrow> sys \<Rightarrow> bool" where
  "same_nodes s s' \<longleftrightarrow> heap s' = heap s \<and> regListMap s' = regListMap s \<and> nodeHashMap s' = nodeHashMap s \<and> io_out (sio s') = io_out (sio s)"

definition torn_down :: "medium_env \<Rightarrow> sys \<Rightarrow> sys \<Rightarrow> bool" where
  "torn_down e s s' \<longleftrightarrow> regListMap s' = [] \<and> nodeHashMap s' = [] \<and> (\<forall>p. heap s' p = (if member s p then None else heap s p))
     \<and> io_out (sio s') = io_out (sio s) @ [CloseFd (epfd e)]
         @ fd_closes s (map snd (regListMap s)) @ fd_closes s (map snd (nodeHashMap s))
         @ (if mcastsockfd e \<noteq> - 1 then [CloseFd (mcastsockfd e)] else [])"

lemma PhysicalMedium_delete_torn: "wf s \<Longrightarrow> \<exists>s'. PhysicalMedium_delete e s = Inr s' \<and> torn_down e s s'"
  unfolding torn_down_def by (rule PhysicalMedium_delete_frees)

lemma same_nodes_refl: "same_nodes s s"
  by (simp add: same_nodes_def)

lemma same_nodes_trans: "same_nodes s1 s2 \<Longrightarrow> same_nodes s2 s3 \<Longrightarrow> same_nodes s1 s3"
  by (simp add: same_nodes_def)

lemma torn_down_same:
  assumes "same_nodes s s1"
  shows "torn_down e s1 s' \<longleftrightarrow> torn_down e s s'"
proof -
  have m: "heap s1 = heap s" "regListMap s1 = regListMap s" "nodeHashMap s1 = nodeHashMap s" "io_out (sio s1) = io_out (sio s)"
    using assms by (simp_all add: same_nodes_def)
  then have "member s1 p \<longleftrightarrow> member s p" "fd_closes s1 ds = fd_closes s ds" for p ds
    by (simp_all add: member_def registering_def registered_def fd_closes_def fd_of_def)
  then show ?thesis unfolding torn_down_def using m by simp
qed

text \<open>
  C24: destroying a medium frees all it owns. The destructor returns; every node that was registering or registered
  is deleted, once, with its socket closed, both maps are empty, no other object is touched, and the poller
  and the multicast socket are closed.
\<close>

theorem medium_destructor_frees:
  assumes "wf s" and "mcastsockfd e \<noteq> - 1"
  shows "\<exists>s'. PhysicalMedium_delete e s = Inr s' \<and> regListMap s' = [] \<and> nodeHashMap s' = []
    \<and> (\<forall>p. heap s' p = (if member s p then None else heap s p))
    \<and> io_out (sio s') = io_out (sio s) @ [CloseFd (epfd e)]
         @ fd_closes s (map snd (regListMap s)) @ fd_closes s (map snd (nodeHashMap s)) @ [CloseFd (mcastsockfd e)]"
  using PhysicalMedium_delete_frees [OF assms(1), of e] assms(2) by simp

theorem medium_destructor_frees_witness:
  "\<exists>s'. PhysicalMedium_delete \<lparr>med_name = ''PLC'', epfd = 8, mcastsockfd = 5, mcastport = 22411\<rparr> one_registered = Inr s'
    \<and> heap s' 0x1000 = None \<and> last (io_out (sio s')) = CloseFd 5"
  using medium_destructor_frees [of one_registered "\<lparr>med_name = ''PLC'', epfd = 8, mcastsockfd = 5, mcastport = 22411\<rparr>"]
    one_registered_wf by (auto simp: member_def)

end
