(* ===== verification/Simulator.thy ===== *)
theory Simulator
  imports Medium_Setup
begin

text \<open>
  \<^verbatim>\<open>src/src/sim/Simulator.cpp\<close>: the simulator accepts node connections on two server sockets and adds a node to the medium
  of the socket, until it is unblocked or waiting fails too often. \<open>ns_io\<close> is the record of the main thread's system calls; the
  media have their own. The \<^verbatim>\<open>do while(0)\<close> of \<^verbatim>\<open>acceptConnections\<close> makes its \<^verbatim>\<open>continue\<close> leave the loop, so an interrupted
  \<^verbatim>\<open>select\<close> is a round without clients.
\<close>

section \<open>State\<close>

datatype AcceptStatus = ACCEPT_UNBLOCK | ACCEPT_OK | ACCEPT_TIMEOUT | ACCEPT_ERROR

record NetworkSimulator =
  ns_debug :: bool
  ns_stop :: bool
  plcMedium :: sys
  wlMedium :: sys
  plcEnv :: medium_env
  wlEnv :: medium_env
  hanServer :: "ServerSocket option"
  airServer :: "ServerSocket option"
  acceptFdSet :: "int list"
  ns_unblocker :: SocketUnblocker
  ns_io :: io

section \<open>Accepting connections\<close>

definition server_fd :: "ServerSocket option \<Rightarrow> int res" where
  "server_fd srv = (case srv of None \<Rightarrow> Inl (MemErr ''server socket is NULL'') | Some s \<Rightarrow> Inr (sock_fd s))"

definition setupAcceptFdSet :: "NetworkSimulator \<Rightarrow> (int \<times> NetworkSimulator) res" where
  "setupAcceptFdSet ns =
     bindE (server_fd (hanServer ns)) (\<lambda>hfd.
     if hfd < 0 then Inl (Throw ''Invalid Hanadu Socket'')
     else bindE (FD_SET hfd []) (\<lambda>fds1.
       bindE (server_fd (airServer ns)) (\<lambda>afd.
       if afd < 0 then Inl (Throw ''Invalid Wireless Socket'')
       else let m1 = (if afd > hfd then afd else hfd)
            in bindE (FD_SET afd fds1) (\<lambda>fds2.
               let ufd = getReadPipe (ns_unblocker ns)
               in if ufd < 0 then Inl (Throw ''Invalid Unblocker'')
                  else bindE (FD_SET ufd fds2) (\<lambda>fds3.
                       Inr (if ufd > m1 then ufd else m1, ns\<lparr>acceptFdSet := fds3\<rparr>))))))"

definition EWOULDBLOCK :: int where "EWOULDBLOCK = 11"

text \<open>\<^verbatim>\<open>if (client != -1) close(client)\<close>.\<close>

definition close_client :: "int \<Rightarrow> io \<Rightarrow> io" where
  "close_client c w = (if c \<noteq> - 1 then emit (CloseFd c) (tick w) else w)"

text \<open>
  The part of \<^verbatim>\<open>acceptConnections\<close> after \<^verbatim>\<open>select\<close> reported \<open>count\<close> descriptors, of which \<open>ready\<close> are set. The assertion
  of the wireless branch is about the Hanadu client, as in the source.
\<close>

definition accept_ready ::
  "kernel \<Rightarrow> int \<Rightarrow> int \<Rightarrow> int \<Rightarrow> int \<Rightarrow> int list \<Rightarrow> io \<Rightarrow> (AcceptStatus \<times> int \<times> int \<times> io) res" where
  "accept_ready k hfd afd ufd count ready w =
     (let (han, rv1, count1, w1) =
            (if hfd \<in> set ready
             then let c = k_accept k (io_tick w) hfd in (c, if c < 0 then ACCEPT_ERROR else ACCEPT_OK, count - 1, tick w)
             else (- 1, ACCEPT_OK, count, w))
      in bindE (if afd \<in> set ready
                then let c = k_accept k (io_tick w1) afd
                     in if c < 0
                        then bindE (assertE ''*hanClient != EWOULDBLOCK'' (han \<noteq> EWOULDBLOCK)) (\<lambda>_.
                             Inr (c, ACCEPT_ERROR, count1 - 1, tick w1))
                        else Inr (c, rv1, count1 - 1, tick w1)
                else Inr (- 1, rv1, count1, w1)) (\<lambda>(air, rv2, count2, w2).
         let (rv3, han3, air3, count3, w3) =
               (if ufd \<in> set ready
                then (ACCEPT_UNBLOCK, - 1, - 1, count2 - 1, close_client air (close_client han (tick w2)))
                else (rv2, han, air, count2, w2))
         in if count3 \<noteq> 0
            then Inr (if rv3 = ACCEPT_OK then ACCEPT_ERROR else rv3, - 1, - 1, close_client air3 (close_client han3 w3))
            else Inr (rv3, han3, air3, w3)))"

definition acceptConnections :: "kernel \<Rightarrow> NetworkSimulator \<Rightarrow> (AcceptStatus \<times> int \<times> int \<times> NetworkSimulator) res" where
  "acceptConnections k ns =
     bindE (setupAcceptFdSet ns) (\<lambda>(fdmax, ns1).
     if fdmax > 0 then
       (case k_select k (io_tick (ns_io ns1)) (acceptFdSet ns1) None of
          SelErr e \<Rightarrow>
            if e = EINTR then Inr (ACCEPT_OK, - 1, - 1, ns1\<lparr>ns_io := tick (ns_io ns1)\<rparr>)
            else Inr (ACCEPT_ERROR, - 1, - 1, ns1\<lparr>ns_io := tick (ns_io ns1)\<rparr>)
        | SelReady count ready \<Rightarrow>
            if count = 0 then Inr (ACCEPT_TIMEOUT, - 1, - 1, ns1\<lparr>ns_io := tick (ns_io ns1)\<rparr>)
            else bindE (server_fd (hanServer ns1)) (\<lambda>hfd.
                 bindE (server_fd (airServer ns1)) (\<lambda>afd.
                 bindE (accept_ready k hfd afd (getReadPipe (ns_unblocker ns1)) count ready (tick (ns_io ns1)))
                   (\<lambda>(rv, han, air, w). Inr (rv, han, air, ns1\<lparr>ns_io := w\<rparr>)))))
     else Inr (ACCEPT_ERROR, - 1, - 1, ns1))"

section \<open>The accept loop\<close>

text \<open>
  A server socket ready to listen, as \<^verbatim>\<open>start\<close> sets it up: the results of \<^verbatim>\<open>setBlocking\<close>, \<^verbatim>\<open>setCloseOnExec\<close> and \<^verbatim>\<open>setReuseAddress\<close>
  are ignored.
\<close>

definition setup_server :: "kernel \<Rightarrow> ServerSocket \<Rightarrow> io \<Rightarrow> io res" where
  "setup_server k srv w =
     (let (r1, w1) = setBlocking k srv False w; (r2, w2) = setCloseOnExec k srv True w1
      in bindE (setReuseAddress k srv True w2) (\<lambda>(r3, w3).
         bindE (bindAnyAddress k srv w3) (\<lambda>w4. setPassive k srv 20 w4)))"

text \<open>New nodes for the accepted clients; the addresses of the node and of its socket come from the allocator.\<close>

definition add_client :: "kernel \<Rightarrow> int \<Rightarrow> sys \<Rightarrow> io \<Rightarrow> (sys \<times> io) res" where
  "add_client k fd m w =
     (if fd \<noteq> - 1
      then bindE (join k (k_new k (io_tick w)) (k_new k (Suc (io_tick w))) fd m) (\<lambda>m1. Inr (m1, tick (tick w)))
      else Inr (m, w))"

definition add_clients :: "kernel \<Rightarrow> int \<Rightarrow> int \<Rightarrow> NetworkSimulator \<Rightarrow> NetworkSimulator res" where
  "add_clients k han air ns =
     bindE (add_client k han (plcMedium ns) (ns_io ns)) (\<lambda>(m1, w1).
     bindE (add_client k air (wlMedium ns) w1) (\<lambda>(m2, w2).
     Inr (ns\<lparr>plcMedium := m1, wlMedium := m2, ns_io := w2\<rparr>)))"

definition delete_servers :: "NetworkSimulator \<Rightarrow> NetworkSimulator" where
  "delete_servers ns =
     (let del = (\<lambda>srv w. case srv of None \<Rightarrow> w | Some s \<Rightarrow> Socket_delete s w)
      in ns\<lparr>ns_io := del (airServer ns) (del (hanServer ns) (ns_io ns))\<rparr>)"

text \<open>One round of the loop of \<^verbatim>\<open>start\<close>; \<open>Inl\<close> is the exception, \<open>True\<close> means another round.\<close>

definition start_round :: "kernel \<Rightarrow> int \<Rightarrow> NetworkSimulator \<Rightarrow> (bool \<times> int \<times> NetworkSimulator) res" where
  "start_round k errCount ns =
     bindE (acceptConnections k ns) (\<lambda>(rv, han, air, ns1).
     bindE (case rv of
              ACCEPT_OK \<Rightarrow> bindE (add_clients k han air ns1) (\<lambda>ns2. Inr (0, ns2))
            | ACCEPT_TIMEOUT \<Rightarrow> Inr (0, ns1)
            | ACCEPT_ERROR \<Rightarrow> if errCount + 1 > 5 then Inl (Throw ''Fatal error in acceptConnections'')
                             else Inr (errCount + 1, ns1)
            | ACCEPT_UNBLOCK \<Rightarrow> Inr (errCount, ns1)) (\<lambda>(err, ns2).
     Inr (\<not> ns_stop ns2 \<and> rv \<noteq> ACCEPT_UNBLOCK, err, ns2)))"

text \<open>\<open>fuel\<close> bounds the number of rounds; \<open>None\<close> is a loop that is still running.\<close>

fun start_loop :: "nat \<Rightarrow> kernel \<Rightarrow> int \<Rightarrow> NetworkSimulator \<Rightarrow> NetworkSimulator res option" where
  "start_loop 0 k errCount ns = None"
| "start_loop (Suc fuel) k errCount ns =
     (case start_round k errCount ns of
        Inl e \<Rightarrow> Some (Inl e)
      | Inr (again, err, ns1) \<Rightarrow> if again then start_loop fuel k err ns1 else Some (Inr (delete_servers ns1)))"

definition sim_listen :: "kernel \<Rightarrow> NetworkSimulator \<Rightarrow> NetworkSimulator res" where
  "sim_listen k ns =
     bindE (ServerSocket_new k HANADU_NODE_PORT (ns_io ns)) (\<lambda>(han, w1).
     bindE (ServerSocket_new k WIRELESS_NODE_PORT w1) (\<lambda>(air, w2).
     bindE (setup_server k han w2) (\<lambda>w3.
     bindE (setup_server k air w3) (\<lambda>w4.
     Inr (ns\<lparr>hanServer := Some han, airServer := Some air, ns_io := w4\<rparr>)))))"

definition sim_start :: "nat \<Rightarrow> kernel \<Rightarrow> NetworkSimulator \<Rightarrow> NetworkSimulator res option" where
  "sim_start fuel k ns =
     (case sim_listen k ns of Inl e \<Rightarrow> Some (Inl e) | Inr ns1 \<Rightarrow> start_loop fuel k 0 ns1)"

text \<open>
  The simulator as an exception in \<^verbatim>\<open>start\<close> leaves it for the destructor: before the loop nothing has happened to the media; a descriptor that
  cannot be waited for throws before any call; a node whose construction or addition throws is in no table of its medium; and after too many
  errors both server sockets have been deleted.
\<close>

definition round_left :: "kernel \<Rightarrow> NetworkSimulator \<Rightarrow> NetworkSimulator" where
  "round_left k ns =
     (case acceptConnections k ns of
        Inl e \<Rightarrow> ns
      | Inr (rv, han, air, ns1) \<Rightarrow>
          if rv = ACCEPT_OK
          then (case add_client k han (plcMedium ns1) (ns_io ns1) of
                  Inl e \<Rightarrow> ns1
                | Inr (m1, w1) \<Rightarrow> ns1\<lparr>plcMedium := m1, ns_io := w1\<rparr>)
          else delete_servers ns1)"

fun start_left :: "nat \<Rightarrow> kernel \<Rightarrow> int \<Rightarrow> NetworkSimulator \<Rightarrow> NetworkSimulator" where
  "start_left 0 k errCount ns = ns"
| "start_left (Suc fuel) k errCount ns =
     (case start_round k errCount ns of
        Inl e \<Rightarrow> round_left k ns
      | Inr (again, err, ns1) \<Rightarrow> if again then start_left fuel k err ns1 else delete_servers ns1)"

definition sim_left :: "nat \<Rightarrow> kernel \<Rightarrow> NetworkSimulator \<Rightarrow> NetworkSimulator" where
  "sim_left fuel k ns = (case sim_listen k ns of Inl e \<Rightarrow> ns | Inr ns1 \<Rightarrow> start_left fuel k 0 ns1)"

definition sim_stop :: "kernel \<Rightarrow> NetworkSimulator \<Rightarrow> NetworkSimulator" where
  "sim_stop k ns = ns\<lparr>ns_stop := True, ns_io := unblock k (ns_unblocker ns) (ns_io ns)\<rparr>"

section \<open>Construction and destruction\<close>

text \<open>
  \<^verbatim>\<open>NetworkSimulator::NetworkSimulator\<close>; \<open>getres\<close> is \<^verbatim>\<open>clock_getres\<close>. The first medium makes the unblocker; the clock is
  checked only after the media have been made with it. From here on the simulator and the two media are separate
  threads, each with its own record of the calls it makes.
\<close>

definition NetworkSimulator_new ::
  "kernel \<Rightarrow> (int \<Rightarrow> timespec option) \<Rightarrow> bool \<Rightarrow> io \<Rightarrow> NetworkSimulator res" where
  "NetworkSimulator_new k getres dbg w =
     (let clockid = get_highres_clock getres
      in bindE (PowerlineMedium_new k None w) (\<lambda>(ub, e1, m1).
         bindE (WirelessMedium_new k (Some ub) (sio m1)) (\<lambda>(_, e2, m2).
         if clockid = - 1 then Inl (Throw ''Failed to get high resolution clock'')
         else bindE (medium_start k m1) (\<lambda>m1'.
              bindE (medium_start k m2) (\<lambda>m2'.
              Inr \<lparr> ns_debug = dbg, ns_stop = False, plcMedium = m1', wlMedium = m2', plcEnv = e1, wlEnv = e2,
                    hanServer = None, airServer = None, acceptFdSet = [], ns_unblocker = ub, ns_io = sio m2' \<rparr>)))))"

text \<open>
  \<^verbatim>\<open>NetworkSimulator::~NetworkSimulator\<close>: both media are stopped, their threads awaited, and deleted. \<open>finish\<close> stands for
  the rest of a medium's thread after it has been stopped.
\<close>

definition NetworkSimulator_delete :: "(sys \<Rightarrow> sys res) \<Rightarrow> (sys \<Rightarrow> sys res) \<Rightarrow> NetworkSimulator \<Rightarrow> NetworkSimulator res" where
  "NetworkSimulator_delete finish1 finish2 ns =
     bindE (finish1 (stop (plcMedium ns))) (\<lambda>m1.
     bindE (finish2 (stop (wlMedium ns))) (\<lambda>m2.
     bindE (PhysicalMedium_delete (plcEnv ns) m1) (\<lambda>m1'.
     bindE (PhysicalMedium_delete (wlEnv ns) m2) (\<lambda>m2'.
     Inr (ns\<lparr>plcMedium := m1', wlMedium := m2'\<rparr>)))))"


section \<open>Properties\<close>

text \<open>Both server sockets open, all descriptors small enough for an \<^verbatim>\<open>fd_set\<close>.\<close>

definition listening :: "NetworkSimulator \<Rightarrow> int \<Rightarrow> int \<Rightarrow> int \<Rightarrow> bool" where
  "listening ns hfd afd ufd \<longleftrightarrow> server_fd (hanServer ns) = Inr hfd \<and> server_fd (airServer ns) = Inr afd
     \<and> getReadPipe (ns_unblocker ns) = ufd \<and> 0 < hfd \<and> hfd < 1024 \<and> 0 \<le> afd \<and> afd < 1024 \<and> 0 \<le> ufd \<and> ufd < 1024"

lemma listening_frame [simp]:
  "listening (ns\<lparr>ns_io := w\<rparr>) hfd afd ufd = listening ns hfd afd ufd"
  "listening (ns\<lparr>acceptFdSet := x\<rparr>) hfd afd ufd = listening ns hfd afd ufd"
  by (simp_all add: listening_def)

lemma setupAcceptFdSet_ok:
  "listening ns hfd afd ufd \<Longrightarrow>
     \<exists>fdmax. setupAcceptFdSet ns = Inr (fdmax, ns\<lparr>acceptFdSet := [hfd, afd, ufd]\<rparr>) \<and> 0 < fdmax"
  by (auto simp: listening_def setupAcceptFdSet_def FD_SET_def Let_def)

lemma acceptConnections_select:
  assumes "listening ns hfd afd ufd" and "ns1 = ns\<lparr>acceptFdSet := [hfd, afd, ufd]\<rparr>"
    and "w1 = tick (ns_io ns)"
  shows "acceptConnections k ns =
    (case k_select k (io_tick (ns_io ns)) [hfd, afd, ufd] None of
       SelErr e \<Rightarrow> Inr (if e = EINTR then ACCEPT_OK else ACCEPT_ERROR, - 1, - 1, ns1\<lparr>ns_io := w1\<rparr>)
     | SelReady count ready \<Rightarrow>
         if count = 0 then Inr (ACCEPT_TIMEOUT, - 1, - 1, ns1\<lparr>ns_io := w1\<rparr>)
         else bindE (accept_ready k hfd afd ufd count ready w1) (\<lambda>(rv, han, air, w). Inr (rv, han, air, ns1\<lparr>ns_io := w\<rparr>)))"
proof -
  obtain fdmax where f: "setupAcceptFdSet ns = Inr (fdmax, ns1)" "0 < fdmax"
    using setupAcceptFdSet_ok [OF assms(1)] assms(2) by blast
  have "server_fd (hanServer ns1) = Inr hfd" "server_fd (airServer ns1) = Inr afd" "getReadPipe (ns_unblocker ns1) = ufd"
    using assms(1,2) by (simp_all add: listening_def)
  then show ?thesis
    using f assms(2,3) by (simp add: acceptConnections_def split: select_res.splits)
qed

text \<open>The client a ready server socket yields.\<close>

definition accepted :: "kernel \<Rightarrow> nat \<Rightarrow> int \<Rightarrow> int list \<Rightarrow> int" where
  "accepted k t fd ready = (if fd \<in> set ready then k_accept k t fd else - 1)"

definition closes :: "int \<Rightarrow> io_event list" where
  "closes c = (if c = - 1 then [] else [CloseFd c])"

lemma close_client_out [simp]: "io_out (close_client c w) = io_out w @ closes c"
  by (simp add: close_client_def closes_def)

lemma close_client_tick [simp]: "io_tick (close_client c w) = (if c = - 1 then io_tick w else Suc (io_tick w))"
  by (simp add: close_client_def)

text \<open>The number of descriptors \<^verbatim>\<open>select\<close> should have reported, and the outcome without the unblocker.\<close>

definition ready_count :: "int \<Rightarrow> int \<Rightarrow> int \<Rightarrow> int list \<Rightarrow> int" where
  "ready_count hfd afd ufd ready = of_bool (hfd \<in> set ready) + of_bool (afd \<in> set ready) + of_bool (ufd \<in> set ready)"

definition accept_failed :: "int \<Rightarrow> int \<Rightarrow> int \<Rightarrow> int \<Rightarrow> int list \<Rightarrow> bool" where
  "accept_failed c1 c2 hfd afd ready \<longleftrightarrow> (hfd \<in> set ready \<and> c1 < 0) \<or> (afd \<in> set ready \<and> c2 < 0)"

lemma accept_ready_outcome:
  assumes "c1 = accepted k (io_tick w) hfd ready"
    and "c2 = accepted k (if hfd \<in> set ready then Suc (io_tick w) else io_tick w) afd ready"
    and "\<not> (c1 = EWOULDBLOCK \<and> afd \<in> set ready \<and> c2 < 0)"
  shows "\<exists>w'. accept_ready k hfd afd ufd count ready w =
     Inr (if ufd \<in> set ready then (ACCEPT_UNBLOCK, - 1, - 1, w')
          else if count \<noteq> ready_count hfd afd ufd ready then (ACCEPT_ERROR, - 1, - 1, w')
          else (if accept_failed c1 c2 hfd afd ready then ACCEPT_ERROR else ACCEPT_OK, c1, c2, w'))
     \<and> io_out w' = io_out w @ (if ufd \<in> set ready \<or> count \<noteq> ready_count hfd afd ufd ready then closes c1 @ closes c2 else [])
     \<and> io_tick w' \<le> io_tick w + 5"
proof -
  have c: "close_client (- 1) v = v" for v by (simp add: close_client_def)
  note d = accept_ready_def ready_count_def accept_failed_def c
  consider "hfd \<notin> set ready" "afd \<notin> set ready" | "hfd \<in> set ready" "afd \<notin> set ready"
    | "hfd \<notin> set ready" "afd \<in> set ready" | "hfd \<in> set ready" "afd \<in> set ready" by blast
  then show ?thesis
  proof cases
    case 1
    then have "c1 = - 1" "c2 = - 1" using assms(1,2) by (simp_all add: accepted_def)
    with 1 show ?thesis by (simp add: d closes_def)
  next
    case 2
    then have "k_accept k (io_tick w) hfd = c1" "c2 = - 1" using assms(1,2) by (simp_all add: accepted_def)
    with 2 show ?thesis by (cases "c1 < 0") (simp_all add: d closes_def)
  next
    case 3
    then have "c1 = - 1" "k_accept k (io_tick w) afd = c2" "c1 \<noteq> EWOULDBLOCK"
      using assms(1,2) by (simp_all add: accepted_def EWOULDBLOCK_def)
    with 3 show ?thesis by (cases "c2 < 0") (simp_all add: d closes_def)
  next
    case 4
    then have "k_accept k (io_tick w) hfd = c1" "k_accept k (Suc (io_tick w)) afd = c2" using assms(1,2) by (simp_all add: accepted_def)
    with 4 assms(3) show ?thesis by (cases "c1 < 0"; cases "c2 < 0") (simp_all add: d closes_def)
  qed
qed

text \<open>The two clients of a round: the calls of \<^verbatim>\<open>accept\<close> come after \<^verbatim>\<open>select\<close>, the Hanadu one first.\<close>

definition round_clients :: "kernel \<Rightarrow> NetworkSimulator \<Rightarrow> int \<Rightarrow> int \<Rightarrow> int list \<Rightarrow> int \<times> int" where
  "round_clients k ns hfd afd ready =
     (let t = Suc (io_tick (ns_io ns))
      in (accepted k t hfd ready, accepted k (if hfd \<in> set ready then Suc t else t) afd ready))"

text \<open>
  The wireless branch does not hit its assertion, which tests the Hanadu client against \<^verbatim>\<open>EWOULDBLOCK\<close>.
\<close>

definition no_stray_assert :: "int \<Rightarrow> int \<Rightarrow> int \<Rightarrow> int list \<Rightarrow> bool" where
  "no_stray_assert c1 c2 afd ready \<longleftrightarrow> \<not> (c1 = EWOULDBLOCK \<and> afd \<in> set ready \<and> c2 < 0)"

lemma acceptConnections_ready:
  assumes "listening ns hfd afd ufd" and "k_select k (io_tick (ns_io ns)) [hfd, afd, ufd] None = SelReady count ready"
    and "count \<noteq> 0" and "round_clients k ns hfd afd ready = (c1, c2)" and "no_stray_assert c1 c2 afd ready"
  shows "\<exists>w'. acceptConnections k ns =
     Inr (if ufd \<in> set ready then (ACCEPT_UNBLOCK, - 1, - 1, ns\<lparr>acceptFdSet := [hfd, afd, ufd], ns_io := w'\<rparr>)
          else if count \<noteq> ready_count hfd afd ufd ready then (ACCEPT_ERROR, - 1, - 1, ns\<lparr>acceptFdSet := [hfd, afd, ufd], ns_io := w'\<rparr>)
          else (if accept_failed c1 c2 hfd afd ready then ACCEPT_ERROR else ACCEPT_OK, c1, c2,
                ns\<lparr>acceptFdSet := [hfd, afd, ufd], ns_io := w'\<rparr>))
     \<and> io_out w' = io_out (ns_io ns) @
         (if ufd \<in> set ready \<or> count \<noteq> ready_count hfd afd ufd ready then closes c1 @ closes c2 else [])
     \<and> io_tick w' \<le> io_tick (ns_io ns) + 6"
proof -
  let ?w = "tick (ns_io ns)"
  have c: "c1 = accepted k (io_tick ?w) hfd ready"
      "c2 = accepted k (if hfd \<in> set ready then Suc (io_tick ?w) else io_tick ?w) afd ready"
    using assms(4) by (auto simp: round_clients_def Let_def)
  obtain w' where w': "accept_ready k hfd afd ufd count ready ?w =
     Inr (if ufd \<in> set ready then (ACCEPT_UNBLOCK, - 1, - 1, w')
          else if count \<noteq> ready_count hfd afd ufd ready then (ACCEPT_ERROR, - 1, - 1, w')
          else (if accept_failed c1 c2 hfd afd ready then ACCEPT_ERROR else ACCEPT_OK, c1, c2, w'))"
     "io_out w' = io_out ?w @ (if ufd \<in> set ready \<or> count \<noteq> ready_count hfd afd ufd ready then closes c1 @ closes c2 else [])"
     "io_tick w' \<le> io_tick ?w + 5"
    using accept_ready_outcome [OF c, of ufd count] assms(5) by (auto simp: no_stray_assert_def)
  note eq = acceptConnections_select [OF assms(1) refl refl, of k]
  show ?thesis
    unfolding eq using assms(2,3) w' by (intro exI [of _ w']) simp
qed

text \<open>
  The wireless branch aborts: a client of the wireless server could not be accepted while the Hanadu server's client has the
  descriptor whose number is \<^verbatim>\<open>EWOULDBLOCK\<close>.
\<close>

definition stray_assert :: "kernel \<Rightarrow> NetworkSimulator \<Rightarrow> int \<Rightarrow> int \<Rightarrow> select_res \<Rightarrow> bool" where
  "stray_assert k ns hfd afd res =
     (case res of
        SelErr e \<Rightarrow> False
      | SelReady count ready \<Rightarrow>
          (case round_clients k ns hfd afd ready of (c1, c2) \<Rightarrow> count \<noteq> 0 \<and> \<not> no_stray_assert c1 c2 afd ready))"

lemma accept_ready_stray:
  assumes "c1 = accepted k (io_tick w) hfd ready"
    and "c2 = accepted k (if hfd \<in> set ready then Suc (io_tick w) else io_tick w) afd ready"
    and "\<not> no_stray_assert c1 c2 afd ready"
  shows "accept_ready k hfd afd ufd count ready w = Inl (Assert ''*hanClient != EWOULDBLOCK'')"
proof -
  have c: "c1 = EWOULDBLOCK" "afd \<in> set ready" "c2 < 0" using assms(3) by (simp_all add: no_stray_assert_def)
  moreover have "hfd \<in> set ready" using assms(1) c(1) by (auto simp: accepted_def EWOULDBLOCK_def split: if_splits)
  ultimately show ?thesis using assms(1,2) by (simp add: accept_ready_def accepted_def EWOULDBLOCK_def)
qed

text \<open>
  C22: one round of waiting for connections on two open server sockets whose descriptors fit an \<^verbatim>\<open>fd_set\<close>, for every outcome of \<^verbatim>\<open>select\<close> and
  \<^verbatim>\<open>accept\<close>. An interrupted \<^verbatim>\<open>select\<close> counts as a successful round without clients,
  any other failure as an error, and no ready descriptor as a time-out. When descriptors are ready, both clients
  are handed to the caller if \<^verbatim>\<open>select\<close> reported exactly the ready descriptors and no unblocking was requested;
  otherwise every client that was accepted is closed again, and the status says whether it was an unblock or an
  error. The one outcome that aborts is a failing \<^verbatim>\<open>accept\<close> of the wireless server after the Hanadu server's has returned the
  descriptor 11, the value of \<^verbatim>\<open>EWOULDBLOCK\<close>: the assertion of the wireless branch tests the wrong variable.
\<close>

theorem acceptConnections_outcome:
  assumes "listening ns hfd afd ufd" and "k_select k (io_tick (ns_io ns)) [hfd, afd, ufd] None = res"
  shows "if stray_assert k ns hfd afd res then acceptConnections k ns = Inl (Assert ''*hanClient != EWOULDBLOCK'')
    else \<exists>rv han air ns'. acceptConnections k ns = Inr (rv, han, air, ns')
    \<and> plcMedium ns' = plcMedium ns \<and> wlMedium ns' = wlMedium ns
    \<and> (case res of
         SelErr e \<Rightarrow> rv = (if e = EINTR then ACCEPT_OK else ACCEPT_ERROR) \<and> han = - 1 \<and> air = - 1
           \<and> io_out (ns_io ns') = io_out (ns_io ns)
       | SelReady count ready \<Rightarrow> (case round_clients k ns hfd afd ready of (c1, c2) \<Rightarrow>
           if count = 0 then rv = ACCEPT_TIMEOUT \<and> han = - 1 \<and> air = - 1 \<and> io_out (ns_io ns') = io_out (ns_io ns)
           else if ufd \<in> set ready \<or> count \<noteq> ready_count hfd afd ufd ready
           then rv = (if ufd \<in> set ready then ACCEPT_UNBLOCK else ACCEPT_ERROR) \<and> han = - 1 \<and> air = - 1
             \<and> io_out (ns_io ns') = io_out (ns_io ns) @ closes c1 @ closes c2
           else rv = (if accept_failed c1 c2 hfd afd ready then ACCEPT_ERROR else ACCEPT_OK) \<and> han = c1 \<and> air = c2
             \<and> io_out (ns_io ns') = io_out (ns_io ns)))"
proof (cases res)
  case (SelErr e)
  then show ?thesis using assms(2) by (simp add: acceptConnections_select [OF assms(1) refl refl] stray_assert_def)
next
  case (SelReady count ready)
  obtain c1 c2 where c: "round_clients k ns hfd afd ready = (c1, c2)" by fastforce
  have stray: "stray_assert k ns hfd afd res \<longleftrightarrow> count \<noteq> 0 \<and> \<not> no_stray_assert c1 c2 afd ready"
    by (simp add: stray_assert_def SelReady c)
  consider "count = 0" | "count \<noteq> 0" "no_stray_assert c1 c2 afd ready" | "count \<noteq> 0" "\<not> no_stray_assert c1 c2 afd ready" by blast
  then show ?thesis
  proof cases
    case 1
    then show ?thesis using assms(2) SelReady c by (simp add: acceptConnections_select [OF assms(1) refl refl] stray_assert_def)
  next
    case 2
    then show ?thesis
      using acceptConnections_ready [OF assms(1) _ 2(1) c 2(2)] assms(2) SelReady c stray
      by (cases "ufd \<in> set ready"; cases "count = ready_count hfd afd ufd ready") auto
  next
    case 3
    have "c1 = accepted k (io_tick (tick (ns_io ns))) hfd ready"
        "c2 = accepted k (if hfd \<in> set ready then Suc (io_tick (tick (ns_io ns))) else io_tick (tick (ns_io ns))) afd ready"
      using c by (auto simp: round_clients_def Let_def)
    from accept_ready_stray [OF this 3(2)] show ?thesis
      using assms(2) SelReady stray 3 by (simp add: acceptConnections_select [OF assms(1) refl refl])
  qed
qed


text \<open>A simulator whose servers have the descriptors 5 and 6 and whose unblocker reads from 3.\<close>

definition demo_sim :: NetworkSimulator where
  "demo_sim = \<lparr> ns_debug = False, ns_stop = False, plcMedium = empty_medium, wlMedium = empty_medium,
     plcEnv = \<lparr>med_name = ''PLC'', epfd = 8, mcastsockfd = 9, mcastport = HANADU_MCAST_TX_PORT\<rparr>,
     wlEnv = \<lparr>med_name = ''AIR'', epfd = 10, mcastsockfd = 12, mcastport = WIRELESS_MCAST_TX_PORT\<rparr>,
     hanServer = Some \<lparr>sock_fd = 5, readFdSet = [], srv_port = HANADU_NODE_PORT\<rparr>,
     airServer = Some \<lparr>sock_fd = 6, readFdSet = [], srv_port = WIRELESS_NODE_PORT\<rparr>,
     acceptFdSet = [], ns_unblocker = \<lparr>ubp_read = 3, ubp_write = 4\<rparr>, ns_io = \<lparr>io_tick = 0, io_out = []\<rparr> \<rparr>"

lemma demo_sim_listening: "listening demo_sim 5 6 3"
  by (simp add: listening_def demo_sim_def server_fd_def getReadPipe_def)

lemma demo_sim_simps [simp]: "ns_io demo_sim = \<lparr>io_tick = 0, io_out = []\<rparr>" "ns_stop demo_sim = False"
  "plcMedium demo_sim = empty_medium" "wlMedium demo_sim = empty_medium"
  by (simp_all add: demo_sim_def)

text \<open>The working kernel, with the given answers of \<^verbatim>\<open>select\<close> and \<^verbatim>\<open>accept\<close>.\<close>

definition accept_kernel :: "select_res \<Rightarrow> (int \<Rightarrow> int) \<Rightarrow> kernel" where
  "accept_kernel r acc = ok_kernel\<lparr>k_select := \<lambda>t fds tmo. r, k_accept := \<lambda>t. acc\<rparr>"

lemma accept_kernel_simps [simp]:
  "k_select (accept_kernel r acc) t fds tmo = r" "k_accept (accept_kernel r acc) t fd = acc fd"
  by (simp_all add: accept_kernel_def)

theorem acceptConnections_outcome_witness:
  "(\<exists>rv han air ns'. acceptConnections (accept_kernel (SelReady 2 [5, 6]) (\<lambda>fd. fd + 15)) demo_sim = Inr (rv, han, air, ns')
      \<and> rv = ACCEPT_OK \<and> han = 20 \<and> air = 21)
    \<and> acceptConnections (accept_kernel (SelReady 2 [5, 6]) (\<lambda>fd. if fd = 5 then 11 else - 1)) demo_sim = Inl (Assert ''*hanClient != EWOULDBLOCK'')"
proof
  note d = stray_assert_def round_clients_def no_stray_assert_def EWOULDBLOCK_def accepted_def ready_count_def accept_failed_def
  show "\<exists>rv han air ns'. acceptConnections (accept_kernel (SelReady 2 [5, 6]) (\<lambda>fd. fd + 15)) demo_sim = Inr (rv, han, air, ns')
      \<and> rv = ACCEPT_OK \<and> han = 20 \<and> air = 21"
    using acceptConnections_outcome [OF demo_sim_listening refl, of "accept_kernel (SelReady 2 [5, 6]) (\<lambda>fd. fd + 15)"]
    by (auto simp: d)
  show "acceptConnections (accept_kernel (SelReady 2 [5, 6]) (\<lambda>fd. if fd = 5 then 11 else - 1)) demo_sim = Inl (Assert ''*hanClient != EWOULDBLOCK'')"
    using acceptConnections_outcome [OF demo_sim_listening refl, of "accept_kernel (SelReady 2 [5, 6]) (\<lambda>fd. if fd = 5 then 11 else - 1)"]
    by (simp add: d)
qed

section \<open>The loop of start\<close>

text \<open>
  C35: what a round does with an error. When \<^verbatim>\<open>select\<close> reports both servers ready, the Hanadu client is accepted and the
  wireless \<^verbatim>\<open>accept\<close> fails, the round is counted as an error and the accepted client is lost: it is not added to a
  medium and its descriptor is not closed. The same holds the other way round.
\<close>

theorem accept_error_drops_client:
  assumes "listening ns hfd afd ufd" and "k_select k (io_tick (ns_io ns)) [hfd, afd, ufd] None = SelReady 2 [hfd, afd]"
    and "ufd \<noteq> hfd" "ufd \<noteq> afd" and "\<not> ns_stop ns" and "err < 5"
    and "round_clients k ns hfd afd [hfd, afd] = (c1, c2)"
    and "(0 \<le> c1 \<and> c2 < 0 \<and> c1 \<noteq> EWOULDBLOCK) \<or> (c1 < 0 \<and> 0 \<le> c2)"
  shows "\<exists>ns'. start_round k err ns = Inr (True, err + 1, ns')
    \<and> plcMedium ns' = plcMedium ns \<and> wlMedium ns' = wlMedium ns \<and> io_out (ns_io ns') = io_out (ns_io ns)"
proof -
  have "no_stray_assert c1 c2 afd [hfd, afd]" "accept_failed c1 c2 hfd afd [hfd, afd]"
    using assms(8) by (auto simp: no_stray_assert_def accept_failed_def EWOULDBLOCK_def)
  moreover have "2 = ready_count hfd afd ufd [hfd, afd]" using assms(3,4) by (simp add: ready_count_def)
  ultimately obtain w where "acceptConnections k ns = Inr (ACCEPT_ERROR, c1, c2, ns\<lparr>acceptFdSet := [hfd, afd, ufd], ns_io := w\<rparr>)"
      "io_out w = io_out (ns_io ns)"
    using acceptConnections_ready [OF assms(1,2) _ assms(7)] assms(3,4) by auto
  then show ?thesis using assms(5,6) by (simp add: start_round_def)
qed

theorem accept_error_drops_client_witness:
  "\<exists>ns'. start_round (accept_kernel (SelReady 2 [5, 6]) (\<lambda>fd. if fd = 5 then 20 else - 1)) 0 demo_sim = Inr (True, 1, ns')
    \<and> plcMedium ns' = empty_medium \<and> io_out (ns_io ns') = []"
  using accept_error_drops_client [OF demo_sim_listening, of "accept_kernel (SelReady 2 [5, 6]) (\<lambda>fd. if fd = 5 then 20 else - 1)" 0 20 "- 1"]
  by (auto simp: round_clients_def EWOULDBLOCK_def accepted_def)

lemma delete_servers_listening:
  assumes "listening ns hfd afd ufd"
  shows "\<exists>w. delete_servers ns = ns\<lparr>ns_io := w\<rparr> \<and> io_out w = io_out (ns_io ns) @ [CloseFd hfd, CloseFd afd]"
proof -
  obtain a b where "hanServer ns = Some a" "airServer ns = Some b" "sock_fd a = hfd" "sock_fd b = afd"
    using assms by (auto simp: listening_def server_fd_def split: option.splits)
  moreover have "hfd \<noteq> - 1" "afd \<noteq> - 1" using assms by (auto simp: listening_def)
  ultimately show ?thesis
    by (intro exI [of _ "emit (CloseFd afd) (tick (emit (CloseFd hfd) (tick (ns_io ns))))"])
      (simp add: delete_servers_def Socket_delete_def)
qed

text \<open>
  Unblocking ends the accept loop. When the unblocker's pipe is ready, whatever else is, \<^verbatim>\<open>start\<close> returns in that round: clients accepted
  in the same round are closed, then both server sockets, and the media are left as they were.
\<close>

theorem start_unblock_ends:
  assumes "listening ns hfd afd ufd" and "k_select k (io_tick (ns_io ns)) [hfd, afd, ufd] None = SelReady count ready"
    and "count \<noteq> 0" and "ufd \<in> set ready" and "round_clients k ns hfd afd ready = (c1, c2)" and "no_stray_assert c1 c2 afd ready"
  shows "\<exists>ns'. start_loop (Suc fuel) k err ns = Some (Inr ns') \<and> plcMedium ns' = plcMedium ns \<and> wlMedium ns' = wlMedium ns
    \<and> io_out (ns_io ns') = io_out (ns_io ns) @ closes c1 @ closes c2 @ [CloseFd hfd, CloseFd afd]"
proof -
  obtain w where w: "acceptConnections k ns = Inr (ACCEPT_UNBLOCK, - 1, - 1, ns\<lparr>acceptFdSet := [hfd, afd, ufd], ns_io := w\<rparr>)"
      "io_out w = io_out (ns_io ns) @ closes c1 @ closes c2"
    using acceptConnections_ready [OF assms(1,2,3,5,6)] assms(4) by auto
  let ?n = "ns\<lparr>acceptFdSet := [hfd, afd, ufd], ns_io := w\<rparr>"
  have "listening ?n hfd afd ufd" using assms(1) by simp
  then obtain v where "delete_servers ?n = ?n\<lparr>ns_io := v\<rparr>" "io_out v = io_out w @ [CloseFd hfd, CloseFd afd]"
    using delete_servers_listening [of ?n hfd afd ufd] by auto
  then show ?thesis using w by (simp add: start_round_def)
qed

theorem start_unblock_ends_witness:
  "\<exists>ns'. start_loop (Suc 0) (accept_kernel (SelReady 2 [5, 3]) (\<lambda>fd. 20)) 0 demo_sim = Some (Inr ns')
    \<and> io_out (ns_io ns') = [CloseFd 20, CloseFd 5, CloseFd 6]"
  using start_unblock_ends [OF demo_sim_listening, of "accept_kernel (SelReady 2 [5, 3]) (\<lambda>fd. 20)" 2 "[5, 3]" 20 "- 1" 0 0]
  by (auto simp: round_clients_def no_stray_assert_def accepted_def closes_def)

lemma start_loop_errors:
  assumes "\<And>t. k_select k t [hfd, afd, ufd] None = SelErr e" and "e \<noteq> EINTR"
  shows "listening ns hfd afd ufd \<Longrightarrow> \<not> ns_stop ns \<Longrightarrow> err + int n = 5 \<Longrightarrow>
    start_loop (Suc n + fuel) k err ns = Some (Inl (Throw ''Fatal error in acceptConnections''))"
proof (induction n arbitrary: err ns)
  case 0
  have "acceptConnections k ns =
      Inr (ACCEPT_ERROR, - 1, - 1, ns\<lparr>acceptFdSet := [hfd, afd, ufd], ns_io := tick (ns_io ns)\<rparr>)"
    using assms by (simp add: acceptConnections_select [OF 0(1) refl refl])
  then show ?case using 0 by (simp add: start_round_def)
next
  case (Suc n)
  let ?n = "ns\<lparr>acceptFdSet := [hfd, afd, ufd], ns_io := tick (ns_io ns)\<rparr>"
  have "acceptConnections k ns = Inr (ACCEPT_ERROR, - 1, - 1, ?n)"
    using assms by (simp add: acceptConnections_select [OF Suc.prems(1) refl refl])
  then have "start_round k err ns = Inr (True, err + 1, ?n)" using Suc.prems by (simp add: start_round_def)
  moreover have "start_loop (Suc n + fuel) k (err + 1) ?n = Some (Inl (Throw ''Fatal error in acceptConnections''))"
    using Suc.prems by (intro Suc.IH) simp_all
  ultimately show ?case by simp
qed

text \<open>
  Failing to wait for connections ends the simulator. From any error count up to five, \<^verbatim>\<open>start\<close> throws as soon as \<^verbatim>\<open>select\<close> has failed so many
  more times in a row that the count exceeds five; with a fresh count that is the sixth failure, and never earlier.
\<close>

theorem start_fatal_after_errors:
  assumes "\<And>t. k_select k t [hfd, afd, ufd] None = SelErr e" and "e \<noteq> EINTR"
    and "listening ns hfd afd ufd" and "\<not> ns_stop ns"
  shows "start_loop (6 + fuel) k 0 ns = Some (Inl (Throw ''Fatal error in acceptConnections''))
    \<and> start_loop 5 k 0 ns = None"
proof
  show "start_loop (6 + fuel) k 0 ns = Some (Inl (Throw ''Fatal error in acceptConnections''))"
    using start_loop_errors [OF assms(1,2), of ns 0 5 fuel] assms(3,4) by simp
  have a: "start_round k err m = Inr (True, err + 1, m\<lparr>acceptFdSet := [hfd, afd, ufd], ns_io := tick (ns_io m)\<rparr>)"
    if "listening m hfd afd ufd" "\<not> ns_stop m" "err < 5" for err m
    using assms(1,2) that by (simp add: start_round_def acceptConnections_select [OF that(1) refl refl])
  show "start_loop 5 k 0 ns = None" using assms(3,4) by (simp add: a eval_nat_numeral)
qed

theorem start_fatal_after_errors_witness:
  "start_loop 6 (accept_kernel (SelErr 9) (\<lambda>fd. 20)) 0 demo_sim = Some (Inl (Throw ''Fatal error in acceptConnections''))"
  using start_fatal_after_errors [OF _ _ demo_sim_listening, of "accept_kernel (SelErr 9) (\<lambda>fd. 20)" 9 0]
  by (simp add: EINTR_def)

section \<open>New nodes\<close>

text \<open>
  \<open>alloc_fresh\<close>: the addresses the allocator gives out in this round are not null and not in use. \<open>joined\<close>: the medium has one more
  node, which is registering over the given socket, and its client has been sent a registration request with its id.
\<close>

definition alloc_fresh :: "kernel \<Rightarrow> io \<Rightarrow> sys \<Rightarrow> bool" where
  "alloc_fresh k w m \<longleftrightarrow> (\<forall>t u. t \<le> io_tick w + 10 \<longrightarrow> u \<le> io_tick w + 10 \<longrightarrow> fresh m (k_new k t) (k_new k u) \<and> k_new k u \<noteq> 0)"

definition joined :: "sys \<Rightarrow> int \<Rightarrow> sys \<Rightarrow> bool" where
  "joined m fd m' \<longleftrightarrow> (\<exists>p. heap m p = None \<and> registering m' p \<and> fd_of m' p = fd
     \<and> (\<forall>q. q \<noteq> p \<longrightarrow> heap m' q = heap m q)
     \<and> (\<forall>f. stream f (io_out (sio m')) = stream f (io_out (sio m)) @ (if f = fd then registration_req_msg (id_of m' p) else [])))"

lemma add_client_joins:
  assumes "wf m" and "alloc_fresh k w0 m" and "io_tick w \<le> io_tick w0 + 8" and "fd \<noteq> - 1"
    and k: "send_ok k" "timers_ok k" "\<And>t fd. 0 \<le> k_epoll_ctl k t fd"
  shows "\<exists>m'. add_client k fd m w = Inr (m', tick (tick w)) \<and> wf m' \<and> joined m fd m'"
proof -
  let ?p = "k_new k (io_tick w)" and ?sp = "k_new k (Suc (io_tick w))"
  have "io_tick w \<le> io_tick w0 + 10" "Suc (io_tick w) \<le> io_tick w0 + 10" using assms(3) by simp_all
  then have f: "fresh m ?p ?sp" "?sp \<noteq> 0" using assms(2) unfolding alloc_fresh_def by blast+
  obtain m' where m': "join k ?p ?sp fd m = Inr m'"
      "\<forall>f. stream f (io_out (sio m')) = stream f (io_out (sio m)) @ (if f = fd then registration_req_msg ?sp else [])"
    using join_succeeds [OF k f(2)] by blast
  from m'(1) have "id_of m' ?p = ?sp \<and> fd_of m' ?p = fd \<and> (\<forall>q. q \<noteq> ?p \<longrightarrow> heap m' q = heap m q)"
    by (rule join_inv) (simp add: id_of_def fd_of_def newcomer_def DeviceNode_pimpl_def Socket_new_def setSockFd_def)
  then have "joined m fd m'" unfolding joined_def
    using join_keeps_wf [OF assms(1) f(1) m'(1)] m'(2) f(1) by (intro exI [of _ ?p]) (simp add: fresh_def)
  then show ?thesis using m'(1) assms(4) join_keeps_wf [OF assms(1) f(1) m'(1)] by (simp add: add_client_def)
qed

lemma add_clients_join:
  assumes "wf (plcMedium ns)" "wf (wlMedium ns)" and "alloc_fresh k w0 (plcMedium ns)" "alloc_fresh k w0 (wlMedium ns)"
    and "io_tick (ns_io ns) \<le> io_tick w0 + 6"
    and k: "send_ok k" "timers_ok k" "\<And>t fd. 0 \<le> k_epoll_ctl k t fd"
  shows "\<exists>ns'. add_clients k han air ns = Inr ns' \<and> ns_stop ns' = ns_stop ns \<and> wf (plcMedium ns') \<and> wf (wlMedium ns')
    \<and> (if han \<noteq> - 1 then joined (plcMedium ns) han (plcMedium ns') else plcMedium ns' = plcMedium ns)
    \<and> (if air \<noteq> - 1 then joined (wlMedium ns) air (wlMedium ns') else wlMedium ns' = wlMedium ns)"
proof -
  obtain m1 w1 where m1: "add_client k han (plcMedium ns) (ns_io ns) = Inr (m1, w1)" "wf m1" "io_tick w1 \<le> io_tick w0 + 8"
      "if han \<noteq> - 1 then joined (plcMedium ns) han m1 else m1 = plcMedium ns"
  proof (cases "han = - 1")
    case True
    then show thesis using that [of "plcMedium ns" "ns_io ns"] assms(1,5) by (simp add: add_client_def)
  next
    case False
    then show thesis
      using add_client_joins [OF assms(1,3) _ _ k, of "ns_io ns" han] that assms(5) by auto
  qed
  obtain m2 w2 where m2: "add_client k air (wlMedium ns) w1 = Inr (m2, w2)" "wf m2"
      "if air \<noteq> - 1 then joined (wlMedium ns) air m2 else m2 = wlMedium ns"
  proof (cases "air = - 1")
    case True
    then show thesis using that [of "wlMedium ns" w1] assms(2) by (simp add: add_client_def)
  next
    case False
    then show thesis using add_client_joins [OF assms(2,4) m1(3) _ k, of air] that by auto
  qed
  show ?thesis using m1 m2 by (simp add: add_clients_def)
qed

text \<open>
  C19: new connections become nodes. When \<^verbatim>\<open>select\<close> reports one or both servers ready and \<^verbatim>\<open>accept\<close> succeeds, the round resets the error count and every
  accepted client joins its own medium, the Hanadu client the powerline medium and the wireless client the wireless one:
  a node that was not there before is registering there over the client's socket and the client has been sent
  its registration request. A medium without a new client is unchanged, and both keep the invariant.
\<close>

theorem start_round_joins:
  assumes "listening ns hfd afd ufd"
    and "k_select k (io_tick (ns_io ns)) [hfd, afd, ufd] None = SelReady (ready_count hfd afd ufd ready) ready"
    and "hfd \<in> set ready \<or> afd \<in> set ready" and "ufd \<notin> set ready"
    and "round_clients k ns hfd afd ready = (c1, c2)"
    and "hfd \<in> set ready \<longrightarrow> 0 \<le> c1" "afd \<in> set ready \<longrightarrow> 0 \<le> c2"
    and "wf (plcMedium ns)" "wf (wlMedium ns)" and "alloc_fresh k (ns_io ns) (plcMedium ns)" "alloc_fresh k (ns_io ns) (wlMedium ns)"
    and "send_ok k" "timers_ok k" "\<And>t fd. 0 \<le> k_epoll_ctl k t fd"
  shows "\<exists>ns'. start_round k err ns = Inr (\<not> ns_stop ns, 0, ns') \<and> wf (plcMedium ns') \<and> wf (wlMedium ns')
    \<and> (if hfd \<in> set ready then joined (plcMedium ns) c1 (plcMedium ns') else plcMedium ns' = plcMedium ns)
    \<and> (if afd \<in> set ready then joined (wlMedium ns) c2 (wlMedium ns') else wlMedium ns' = wlMedium ns)"
proof -
  have c: "c1 = (if hfd \<in> set ready then c1 else - 1)" "c2 = (if afd \<in> set ready then c2 else - 1)"
    using assms(5) by (auto simp: round_clients_def accepted_def Let_def)
  have 1: "c1 \<noteq> - 1 \<longleftrightarrow> hfd \<in> set ready" "c2 \<noteq> - 1 \<longleftrightarrow> afd \<in> set ready"
    using c assms(6,7) by (auto split: if_splits)
  have "no_stray_assert c1 c2 afd ready" "\<not> accept_failed c1 c2 hfd afd ready"
    using assms(6,7) by (auto simp: no_stray_assert_def accept_failed_def)
  moreover have "ready_count hfd afd ufd ready \<noteq> 0" using assms(3) by (auto simp: ready_count_def)
  ultimately obtain w where w: "acceptConnections k ns = Inr (ACCEPT_OK, c1, c2, ns\<lparr>acceptFdSet := [hfd, afd, ufd], ns_io := w\<rparr>)"
      "io_tick w \<le> io_tick (ns_io ns) + 6"
    using acceptConnections_ready [OF assms(1,2) _ assms(5)] assms(4) by auto
  let ?n = "ns\<lparr>acceptFdSet := [hfd, afd, ufd], ns_io := w\<rparr>"
  obtain ns' where "add_clients k c1 c2 ?n = Inr ns'" "ns_stop ns' = ns_stop ns" "wf (plcMedium ns')" "wf (wlMedium ns')"
      "if c1 \<noteq> - 1 then joined (plcMedium ns) c1 (plcMedium ns') else plcMedium ns' = plcMedium ns"
      "if c2 \<noteq> - 1 then joined (wlMedium ns) c2 (wlMedium ns') else wlMedium ns' = wlMedium ns"
    using add_clients_join [of ?n k "ns_io ns" c1 c2] assms(8-14) w(2) by (auto cong: if_cong)
  then show ?thesis using w(1) 1 by (simp add: start_round_def)
qed

theorem start_round_joins_witness:
  "\<exists>ns'. start_round (accept_kernel (SelReady 1 [5]) (\<lambda>fd. 20)) 3 demo_sim = Inr (True, 0, ns')
    \<and> joined empty_medium 20 (plcMedium ns') \<and> wlMedium ns' = empty_medium"
proof -
  let ?k = "accept_kernel (SelReady 1 [5]) (\<lambda>fd. 20)"
  have "(0x10000 :: u64) + 16 * of_nat t \<noteq> 0" if "t \<le> 10" for t :: nat
  proof -
    have "unat ((0x10000 :: u64) + 16 * of_nat t) = 0x10000 + 16 * t"
      using that by (simp add: unat_word_ariths unat_of_nat)
    then show ?thesis by (metis add_eq_0_iff_both_eq_0 unat_0 zero_neq_numeral)
  qed
  then have "alloc_fresh ?k (ns_io demo_sim) empty_medium"
    by (simp add: alloc_fresh_def fresh_def empty_medium_def accept_kernel_def ok_kernel_def)
  moreover have "send_ok ?k" "timers_ok ?k" "0 \<le> k_epoll_ctl ?k t fd" for t fd
    using ok_kernel_send_ok ok_kernel_timers ok_kernel_epoll
    by (simp_all add: accept_kernel_def send_ok_def send_spec_def timers_ok_def)
  ultimately show ?thesis
    using start_round_joins [OF demo_sim_listening, of ?k "[5]" 20 "- 1" 3] wf_empty_medium
    by (auto simp: round_clients_def accepted_def ready_count_def)
qed

end
