(* ===== verification/Main_Program.thy ===== *)
theory Main_Program
  imports Simulator
begin

text \<open>
  \<^verbatim>\<open>src/src/main.cpp\<close>: options, signals and the life of the simulator object. The result of \<^verbatim>\<open>getopt\<close> is the list of option characters it returned.
  An exception of the constructor or of \<^verbatim>\<open>start\<close> is caught and logged; the simulator, if there is one, is deleted, and the program exits
  with success all the same.
\<close>

section \<open>The program\<close>

datatype signum = SIGINT | SIGTERM | SIGHUP

fun signal_handler :: "kernel \<Rightarrow> signum \<Rightarrow> NetworkSimulator option \<Rightarrow> NetworkSimulator option" where
  "signal_handler k SIGINT sim = (case sim of Some ns \<Rightarrow> Some (sim_stop k ns) | None \<Rightarrow> None)"
| "signal_handler k SIGTERM sim = (case sim of Some ns \<Rightarrow> Some (sim_stop k ns) | None \<Rightarrow> None)"
| "signal_handler k SIGHUP sim = sim"

text \<open>\<open>None\<close>: the usage message was printed and the program exits.\<close>

fun parse_options :: "string \<Rightarrow> bool \<Rightarrow> bool option" where
  "parse_options [] dbg = Some dbg"
| "parse_options (opt # opts) dbg = (if opt = CHR ''x'' then parse_options opts True else None)"

datatype main_result = Exit int | Abort fault | Running

definition EXIT_SUCCESS :: int where "EXIT_SUCCESS = 0"
definition EXIT_FAILURE :: int where "EXIT_FAILURE = 1"

text \<open>
  The end of \<^verbatim>\<open>main\<close>: the result, and with it the simulator object as \<^verbatim>\<open>delete\<close> has left it, \<open>None\<close> when there is none.
\<close>

definition delete_and_exit ::
  "(sys \<Rightarrow> sys res) \<Rightarrow> (sys \<Rightarrow> sys res) \<Rightarrow> NetworkSimulator \<Rightarrow> main_result \<times> NetworkSimulator option" where
  "delete_and_exit finish1 finish2 ns =
     (case NetworkSimulator_delete finish1 finish2 ns of Inl f \<Rightarrow> (Abort f, None) | Inr ns' \<Rightarrow> (Exit EXIT_SUCCESS, Some ns'))"

text \<open>\<open>fuel\<close> bounds the rounds of the accept loop; \<open>Running\<close> is a program that is still accepting connections.\<close>

definition sim_main ::
  "nat \<Rightarrow> kernel \<Rightarrow> (int \<Rightarrow> timespec option) \<Rightarrow> (sys \<Rightarrow> sys res) \<Rightarrow> (sys \<Rightarrow> sys res) \<Rightarrow> string \<Rightarrow> io
     \<Rightarrow> main_result \<times> NetworkSimulator option" where
  "sim_main fuel k getres finish1 finish2 opts w =
     (case parse_options opts False of
        None \<Rightarrow> (Exit EXIT_FAILURE, None)
      | Some dbg \<Rightarrow>
          (case NetworkSimulator_new k getres dbg w of
             Inl (Throw e) \<Rightarrow> (Exit EXIT_SUCCESS, None)
           | Inl f \<Rightarrow> (Abort f, None)
           | Inr ns \<Rightarrow>
               (case sim_start fuel k ns of
                  None \<Rightarrow> (Running, None)
                | Some (Inl (Throw e)) \<Rightarrow> delete_and_exit finish1 finish2 (sim_left fuel k ns)
                | Some (Inl f) \<Rightarrow> (Abort f, None)
                | Some (Inr ns') \<Rightarrow> delete_and_exit finish1 finish2 ns')))"

text \<open>
  Installing the handlers. \<open>install\<close> is one call of \<^verbatim>\<open>signal\<close> with the test that restores a signal that was ignored; \<open>installed\<close> does so for
  the three signals, and \<open>take_signal\<close> is the arrival of one of them, \<open>None\<close> when it ends the process.
\<close>

datatype disposition = SIG_DFL | SIG_IGN | SigHandler

definition install :: "signum \<Rightarrow> (signum \<Rightarrow> disposition) \<Rightarrow> signum \<Rightarrow> disposition" where
  "install sig d = (if d sig = SIG_IGN then d(sig := SIG_IGN) else d(sig := SigHandler))"

definition installed :: "(signum \<Rightarrow> disposition) \<Rightarrow> signum \<Rightarrow> disposition" where
  "installed d = install SIGTERM (install SIGHUP (install SIGINT d))"

definition take_signal ::
  "kernel \<Rightarrow> (signum \<Rightarrow> disposition) \<Rightarrow> signum \<Rightarrow> NetworkSimulator option \<Rightarrow> NetworkSimulator option option" where
  "take_signal k d sig sim =
     (case d sig of SIG_DFL \<Rightarrow> None | SIG_IGN \<Rightarrow> Some sim | SigHandler \<Rightarrow> Some (signal_handler k sig sim))"

text \<open>The rest of a medium's thread after a stop, when no event arrives: two steps from the head of its loop.\<close>

definition rest_of_thread :: "(sys \<Rightarrow> sys res) \<Rightarrow> kernel \<Rightarrow> sys \<Rightarrow> sys res" where
  "rest_of_thread check k s =
     bindE (run_steps check k 2 (Outer, s)) (\<lambda>(l, s'). if l = Done then Inr s' else Inl Diverge)"

section \<open>Properties\<close>

lemma installed_eq: "installed d sig = (if d sig = SIG_IGN then SIG_IGN else SigHandler)"
  by (cases sig) (simp_all add: installed_def install_def)

lemma acceptConnections_stop:
  "acceptConnections k ns = Inr (rv, han, air, ns') \<Longrightarrow> ns_stop ns' = ns_stop ns"
  by (auto simp: acceptConnections_def setupAcceptFdSet_def Let_def split: if_splits select_res.splits)

lemma add_clients_stop: "add_clients k han air ns = Inr ns' \<Longrightarrow> ns_stop ns' = ns_stop ns"
  by (auto simp: add_clients_def)

lemma start_round_stop:
  assumes "start_round k err ns = Inr (again, err', ns')"
  shows "ns_stop ns' = ns_stop ns" "ns_stop ns \<Longrightarrow> \<not> again"
proof -
  from assms obtain rv han air ns1 where a: "acceptConnections k ns = Inr (rv, han, air, ns1)"
    and r: "ns_stop ns' = ns_stop ns1" "again = (\<not> ns_stop ns' \<and> rv \<noteq> ACCEPT_UNBLOCK)"
    by (cases "acceptConnections k ns")
      (auto simp: start_round_def dest!: add_clients_stop split: AcceptStatus.splits if_splits)
  show "ns_stop ns' = ns_stop ns" "ns_stop ns \<Longrightarrow> \<not> again" using acceptConnections_stop [OF a] r by auto
qed

text \<open>
  C23: a terminating signal ends the program's accept loop. The handler of SIGINT and SIGTERM sets the stop flag and writes the unblocking pipe, so that the
  call of \<^verbatim>\<open>select\<close> returns; and with the flag set \<^verbatim>\<open>start\<close> does at most one more round, whatever happens in it.
  SIGHUP changes nothing, and a signal that was ignored when the program was started stays ignored.
\<close>

theorem terminate_signal_ends:
  assumes "sig = SIGINT \<or> sig = SIGTERM" and "d sig \<noteq> SIG_IGN" and "take_signal k (installed d) sig (Some ns) = Some (Some ns')"
  shows "ns_stop ns' \<and> plcMedium ns' = plcMedium ns \<and> wlMedium ns' = wlMedium ns
    \<and> (\<exists>r. start_loop (Suc fuel) k err ns' = Some r)
    \<and> (0 \<le> ubp_write (ns_unblocker ns) \<and> k_write k (io_tick (ns_io ns)) (ubp_write (ns_unblocker ns)) = 1 \<longrightarrow>
         io_out (ns_io ns') = io_out (ns_io ns) @ [PipeWrite (ubp_write (ns_unblocker ns)) [49]])
    \<and> take_signal k (installed d) SIGHUP (Some ns) = Some (Some ns)
    \<and> (d2 sig = SIG_IGN \<longrightarrow> take_signal k (installed d2) sig (Some ns) = Some (Some ns))"
proof -
  have ns': "ns' = sim_stop k ns" using assms by (auto simp: take_signal_def installed_eq)
  then have s: "ns_stop ns'" "plcMedium ns' = plcMedium ns" "wlMedium ns' = wlMedium ns" by (simp_all add: sim_stop_def)
  have "\<exists>r. start_loop (Suc fuel) k err ns' = Some r"
  proof (cases "start_round k err ns'")
    case (Inr r)
    obtain again err' ns1 where r: "r = (again, err', ns1)" by (cases r) auto
    have "\<not> again" using start_round_stop(2) [OF Inr [unfolded r] s(1)] .
    then show ?thesis by (simp add: Inr r)
  qed simp
  with s show ?thesis by (auto simp: ns' sim_stop_def unblock_def Let_def take_signal_def installed_eq)
qed

theorem terminate_signal_ends_witness:
  "\<exists>ns' r. take_signal ok_kernel (installed (\<lambda>_. SIG_DFL)) SIGTERM (Some demo_sim) = Some (Some ns') \<and> ns_stop ns'
    \<and> start_loop (Suc 0) ok_kernel 0 ns' = Some r \<and> io_out (ns_io ns') = [PipeWrite 4 [49]]"
  using terminate_signal_ends [of SIGTERM "\<lambda>_. SIG_DFL" ok_kernel demo_sim "sim_stop ok_kernel demo_sim" 0 0]
  by (simp add: demo_sim_def ok_kernel_def take_signal_def installed_def install_def)

section \<open>Exceptions\<close>

context collision_policy
begin

text \<open>A thread that has been told to stop makes for its end and leaves the nodes as they are.\<close>

lemma stopping_step:
  assumes "pm_state s = STOPPING" and "quiet k" and "l \<noteq> Done"
  shows "\<exists>s'. run_step check k (l, s) = Inr (if l = Outer then Inner else Done, s') \<and> same_nodes s s' \<and> (wf s \<longrightarrow> wf s')
    \<and> (l = Outer \<longrightarrow> pm_state s' = STOPPING)"
proof (cases l)
  case Inner
  obtain t w where i: "interval k 1 s = Inr (s\<lparr>curTime := t, sio := w\<rparr>)" "io_out w = io_out (sio s)" using interval_quiet [OF assms(2)] by blast
  then show ?thesis using Inner assms(1) by (cases "txList s = []") (simp_all add: inner_step_def outer_end_def same_nodes_def)
qed (use assms in \<open>auto simp: outer_step_def same_nodes_def\<close>)

lemma rest_of_thread_ends:
  assumes "wf s" and "quiet k"
  shows "\<exists>s'. rest_of_thread check k (stop s) = Inr s' \<and> wf s' \<and> same_nodes s s'"
proof -
  have s: "wf (stop s)" "pm_state (stop s) = STOPPING" "same_nodes s (stop s)" using assms(1) by (simp_all add: stop_def same_nodes_def)
  obtain s1 where 1: "run_step check k (Outer, stop s) = Inr (Inner, s1)" "same_nodes (stop s) s1" "wf s1" "pm_state s1 = STOPPING"
    using stopping_step [OF s(2) assms(2), of Outer] s(1) by auto
  obtain s2 where 2: "run_step check k (Inner, s1) = Inr (Done, s2)" "same_nodes s1 s2" "wf s2"
    using stopping_step [OF 1(4) assms(2), of Inner] 1(3) by auto
  have "rest_of_thread check k (stop s) = Inr s2"
    using 1(1) 2(1) by (simp add: rest_of_thread_def numeral_2_eq_2 del: run_step.simps)
  then show ?thesis using 2(3) same_nodes_trans [OF s(3) same_nodes_trans [OF 1(2) 2(2)]] by blast
qed

end

text \<open>The simulator has been deleted: both media, with all their nodes, pollers and sockets.\<close>

definition taken_down :: "NetworkSimulator \<Rightarrow> NetworkSimulator \<Rightarrow> bool" where
  "taken_down ns ns' \<longleftrightarrow> torn_down (plcEnv ns) (plcMedium ns) (plcMedium ns') \<and> torn_down (wlEnv ns) (wlMedium ns) (wlMedium ns')"

lemma delete_and_exit_success:
  assumes "wf (plcMedium ns)" "wf (wlMedium ns)" and "quiet k"
  shows "\<exists>ns'. delete_and_exit (rest_of_thread powerline_txCollisionCheck k) (rest_of_thread wireless_txCollisionCheck k) ns =
      (Exit EXIT_SUCCESS, Some ns') \<and> taken_down ns ns' \<and> ns_io ns' = ns_io ns"
proof -
  obtain m1 m2 where m: "rest_of_thread powerline_txCollisionCheck k (stop (plcMedium ns)) = Inr m1" "wf m1" "same_nodes (plcMedium ns) m1"
      "rest_of_thread wireless_txCollisionCheck k (stop (wlMedium ns)) = Inr m2" "wf m2" "same_nodes (wlMedium ns) m2"
    using powerline.rest_of_thread_ends wireless.rest_of_thread_ends assms by blast
  then show ?thesis
    using PhysicalMedium_delete_torn [OF m(2), of "plcEnv ns"] PhysicalMedium_delete_torn [OF m(5), of "wlEnv ns"]
      torn_down_same [OF m(3)] torn_down_same [OF m(6)]
    by (auto simp: delete_and_exit_def NetworkSimulator_delete_def taken_down_def)
qed

lemma NetworkSimulator_new_media:
  assumes "NetworkSimulator_new k getres dbg w = Inr ns"
  shows "wf (plcMedium ns)" "wf (wlMedium ns)" "\<not> ns_stop ns"
  using assms wf_empty_medium
  by (auto simp: NetworkSimulator_new_def PowerlineMedium_new_def WirelessMedium_new_def medium_start_def Let_def
      dest!: PhysicalMedium_pimpl_inv split: if_splits)

lemma sim_listen_media:
  "sim_listen k ns = Inr ns' \<Longrightarrow> plcMedium ns' = plcMedium ns \<and> wlMedium ns' = wlMedium ns \<and> ns_stop ns' = ns_stop ns"
  by (auto simp: sim_listen_def)

lemma delete_servers_simps [simp]:
  "plcMedium (delete_servers ns) = plcMedium ns" "wlMedium (delete_servers ns) = wlMedium ns" "ns_stop (delete_servers ns) = ns_stop ns"
  "plcEnv (delete_servers ns) = plcEnv ns" "wlEnv (delete_servers ns) = wlEnv ns"
  by (simp_all add: delete_servers_def Let_def)

lemma sim_listen_env: "sim_listen k ns = Inr ns' \<Longrightarrow> plcEnv ns' = plcEnv ns \<and> wlEnv ns' = wlEnv ns"
  by (auto simp: sim_listen_def)

text \<open>What six errors leave: the media untouched, both server sockets closed.\<close>

definition only_servers_closed :: "int \<Rightarrow> int \<Rightarrow> NetworkSimulator \<Rightarrow> NetworkSimulator \<Rightarrow> bool" where
  "only_servers_closed hfd afd ns ns' \<longleftrightarrow> plcMedium ns' = plcMedium ns \<and> wlMedium ns' = wlMedium ns \<and> plcEnv ns' = plcEnv ns \<and> wlEnv ns' = wlEnv ns
     \<and> io_out (ns_io ns') = io_out (ns_io ns) @ [CloseFd hfd, CloseFd afd]"

lemma start_left_errors:
  assumes "\<And>t. k_select k t [hfd, afd, ufd] None = SelErr e" and "e \<noteq> EINTR"
  shows "listening ns hfd afd ufd \<Longrightarrow> \<not> ns_stop ns \<Longrightarrow> err + int n = 5 \<Longrightarrow>
    only_servers_closed hfd afd ns (start_left (Suc n + fuel) k err ns)"
proof (induction n arbitrary: err ns)
  case 0
  let ?n = "ns\<lparr>acceptFdSet := [hfd, afd, ufd], ns_io := tick (ns_io ns)\<rparr>"
  have a: "acceptConnections k ns = Inr (ACCEPT_ERROR, - 1, - 1, ?n)"
    using assms by (simp add: acceptConnections_select [OF 0(1) refl refl])
  have "listening ?n hfd afd ufd" using 0(1) by simp
  from delete_servers_listening [OF this] show ?case
    using a 0(2,3) by (auto simp: start_round_def round_left_def only_servers_closed_def)
next
  case (Suc n)
  let ?n = "ns\<lparr>acceptFdSet := [hfd, afd, ufd], ns_io := tick (ns_io ns)\<rparr>"
  have "acceptConnections k ns = Inr (ACCEPT_ERROR, - 1, - 1, ?n)"
    using assms by (simp add: acceptConnections_select [OF Suc.prems(1) refl refl])
  then have "start_round k err ns = Inr (True, err + 1, ?n)" using Suc.prems by (simp add: start_round_def)
  moreover have "only_servers_closed hfd afd ?n (start_left (Suc n + fuel) k (err + 1) ?n)"
    using Suc.prems by (intro Suc.IH) simp_all
  ultimately show ?case by (simp add: only_servers_closed_def)
qed

lemma parse_options_x: "set opts \<subseteq> {CHR ''x''} \<Longrightarrow> parse_options opts b = Some (b \<or> opts \<noteq> [])"
  by (induction opts arbitrary: b) auto

text \<open>An exception in \<^verbatim>\<open>start\<close>: the simulator is deleted as it was left.\<close>

lemma exception_ends:
  assumes "set opts \<subseteq> {CHR ''x''}" and "quiet k" and "NetworkSimulator_new k getres (opts \<noteq> []) w = Inr ns0"
    and "sim_start fuel k ns0 = Some (Inl (Throw e))" and "wf (plcMedium (sim_left fuel k ns0))" "wf (wlMedium (sim_left fuel k ns0))"
  shows "\<exists>ns'. sim_main fuel k getres (rest_of_thread powerline_txCollisionCheck k) (rest_of_thread wireless_txCollisionCheck k) opts w =
      (Exit EXIT_SUCCESS, Some ns') \<and> taken_down (sim_left fuel k ns0) ns' \<and> ns_io ns' = ns_io (sim_left fuel k ns0)"
  using delete_and_exit_success [OF assms(5,6,2)] assms(1,3,4) by (simp add: sim_main_def parse_options_x)

lemma six_errors_throw:
  assumes "NetworkSimulator_new k getres dbg w = Inr ns0" and "sim_listen k ns0 = Inr ns" and "listening ns hfd afd ufd" and "e \<noteq> EINTR"
    and "\<forall>t. k_select k t [hfd, afd, ufd] None = SelErr e"
  shows "sim_start (6 + fuel) k ns0 = Some (Inl (Throw ''Fatal error in acceptConnections''))
    \<and> only_servers_closed hfd afd ns (sim_left (6 + fuel) k ns0)"
proof -
  have "\<not> ns_stop ns" using NetworkSimulator_new_media(3) [OF assms(1)] sim_listen_media [OF assms(2)] by simp
  then show ?thesis
    using start_loop_errors [of k hfd afd ufd e ns 0 5 fuel] start_left_errors [of k hfd afd ufd e ns 0 5 fuel] assms(2-5)
    by (simp add: sim_start_def sim_left_def del: start_loop.simps start_left.simps)
qed

text \<open>
  C26: exceptions do not take the program down without tidying up. When \<^verbatim>\<open>start\<close> throws, \<^verbatim>\<open>main\<close> catches the exception, stops both media, waits for
  their threads, which are in their loops and which no event
  delays here, deletes the media and exits; the status is success even so. Deleting a medium deletes every node it had when \<^verbatim>\<open>start\<close> threw, closes each
  node's socket, the poller and the multicast socket, and nothing else. This holds for every exception that leaves the media in their invariant; so when a server
  socket cannot be set up, where the media are as the constructor made them, and when \<^verbatim>\<open>select\<close> has failed
  six times in a row since the program began, where the two server sockets have been closed as well. An invalid option ends the program with failure before
  anything is made, and an exception of the constructor ends it with success, with no simulator to delete.
\<close>

theorem exceptions_end_tidily:
  assumes "set opts \<subseteq> {CHR ''x''}" and "quiet k"
    and "finish1 = rest_of_thread powerline_txCollisionCheck k" "finish2 = rest_of_thread wireless_txCollisionCheck k"
  shows "(\<forall>ns0 e. NetworkSimulator_new k getres (opts \<noteq> []) w = Inr ns0 \<and> sim_start fuel k ns0 = Some (Inl (Throw e))
         \<and> wf (plcMedium (sim_left fuel k ns0)) \<and> wf (wlMedium (sim_left fuel k ns0)) \<longrightarrow>
         (\<exists>ns'. sim_main fuel k getres finish1 finish2 opts w = (Exit EXIT_SUCCESS, Some ns') \<and> taken_down (sim_left fuel k ns0) ns'))
    \<and> (\<forall>ns0 e. NetworkSimulator_new k getres (opts \<noteq> []) w = Inr ns0 \<and> sim_listen k ns0 = Inl (Throw e) \<longrightarrow>
         (\<exists>ns'. sim_main fuel k getres finish1 finish2 opts w = (Exit EXIT_SUCCESS, Some ns') \<and> taken_down ns0 ns'))
    \<and> (\<forall>ns0 ns hfd afd ufd e. NetworkSimulator_new k getres (opts \<noteq> []) w = Inr ns0 \<and> sim_listen k ns0 = Inr ns
         \<and> listening ns hfd afd ufd \<and> e \<noteq> EINTR \<and> (\<forall>t. k_select k t [hfd, afd, ufd] None = SelErr e) \<longrightarrow>
         (\<exists>ns'. sim_main (6 + fuel) k getres finish1 finish2 opts w = (Exit EXIT_SUCCESS, Some ns') \<and> taken_down ns0 ns'
            \<and> io_out (ns_io ns') = io_out (ns_io ns) @ [CloseFd hfd, CloseFd afd]))
    \<and> (\<forall>e. NetworkSimulator_new k getres (opts \<noteq> []) w = Inl (Throw e) \<longrightarrow>
         sim_main fuel k getres finish1 finish2 opts w = (Exit EXIT_SUCCESS, None))
    \<and> (c \<noteq> CHR ''x'' \<longrightarrow> sim_main fuel k getres finish1 finish2 (opts @ c # rest) w = (Exit EXIT_FAILURE, None))"
proof (intro conjI allI impI)
  fix ns0 e
  assume "NetworkSimulator_new k getres (opts \<noteq> []) w = Inr ns0 \<and> sim_start fuel k ns0 = Some (Inl (Throw e))
    \<and> wf (plcMedium (sim_left fuel k ns0)) \<and> wf (wlMedium (sim_left fuel k ns0))"
  then show "\<exists>ns'. sim_main fuel k getres finish1 finish2 opts w = (Exit EXIT_SUCCESS, Some ns') \<and> taken_down (sim_left fuel k ns0) ns'"
    using exception_ends [OF assms(1,2)] assms(3,4) by blast
next
  fix ns0 e
  assume "NetworkSimulator_new k getres (opts \<noteq> []) w = Inr ns0 \<and> sim_listen k ns0 = Inl (Throw e)"
  then have new: "NetworkSimulator_new k getres (opts \<noteq> []) w = Inr ns0" and l: "sim_start fuel k ns0 = Some (Inl (Throw e))" "sim_left fuel k ns0 = ns0"
    by (simp_all add: sim_start_def sim_left_def)
  show "\<exists>ns'. sim_main fuel k getres finish1 finish2 opts w = (Exit EXIT_SUCCESS, Some ns') \<and> taken_down ns0 ns'"
    using exception_ends [OF assms(1,2) new l(1)] NetworkSimulator_new_media(1,2) [OF new] l(2) assms(3,4) by auto
next
  fix ns0 ns hfd afd ufd e
  assume a: "NetworkSimulator_new k getres (opts \<noteq> []) w = Inr ns0 \<and> sim_listen k ns0 = Inr ns
         \<and> listening ns hfd afd ufd \<and> e \<noteq> EINTR \<and> (\<forall>t. k_select k t [hfd, afd, ufd] None = SelErr e)"
  then have new: "NetworkSimulator_new k getres (opts \<noteq> []) w = Inr ns0" and l: "sim_listen k ns0 = Inr ns" by simp_all
  let ?left = "sim_left (6 + fuel) k ns0"
  have t: "sim_start (6 + fuel) k ns0 = Some (Inl (Throw ''Fatal error in acceptConnections''))" "only_servers_closed hfd afd ns ?left"
    using six_errors_throw [OF new l] a by blast+
  then have m: "plcMedium ?left = plcMedium ns0" "wlMedium ?left = wlMedium ns0" "plcEnv ?left = plcEnv ns0" "wlEnv ?left = wlEnv ns0"
      "io_out (ns_io ?left) = io_out (ns_io ns) @ [CloseFd hfd, CloseFd afd]"
    using sim_listen_media [OF l] sim_listen_env [OF l] by (simp_all add: only_servers_closed_def)
  show "\<exists>ns'. sim_main (6 + fuel) k getres finish1 finish2 opts w = (Exit EXIT_SUCCESS, Some ns') \<and> taken_down ns0 ns'
      \<and> io_out (ns_io ns') = io_out (ns_io ns) @ [CloseFd hfd, CloseFd afd]"
    using exception_ends [OF assms(1,2) new t(1)] NetworkSimulator_new_media(1,2) [OF new] m assms(3,4) by (auto simp: taken_down_def)
next
  have "parse_options (opts @ c # rest) b = None" if "c \<noteq> CHR ''x''" for b
    using assms(1) that by (induction opts arbitrary: b) auto
  then show "c \<noteq> CHR ''x'' \<Longrightarrow> sim_main fuel k getres finish1 finish2 (opts @ c # rest) w = (Exit EXIT_FAILURE, None)"
    by (simp add: sim_main_def)
qed (use assms(1) in \<open>simp add: sim_main_def parse_options_x\<close>)

theorem exceptions_end_tidily_witness:
  "\<exists>k ns' fd. k_select k 0 [5, 5, 3] None = SelErr 9 \<and>
     sim_main 6 k (\<lambda>c. Some (Timespec 0 1)) (rest_of_thread powerline_txCollisionCheck k) (rest_of_thread wireless_txCollisionCheck k)
       [] \<lparr>io_tick = 0, io_out = []\<rparr> = (Exit EXIT_SUCCESS, Some ns')
     \<and> regListMap (plcMedium ns') = [] \<and> CloseFd fd \<in> set (io_out (sio (plcMedium ns')))"
proof -
  define k where "k = accept_kernel (SelErr 9) (\<lambda>fd. 20)"
  have q: "quiet k" using quiet_ok_kernel by (simp add: k_def accept_kernel_def quiet_def timers_ok_def)
  obtain ns0 where new: "NetworkSimulator_new k (\<lambda>c. Some (Timespec 0 1)) False \<lparr>io_tick = 0, io_out = []\<rparr> = Inr ns0"
      "ns_unblocker ns0 = \<lparr>ubp_read = 3, ubp_write = 4\<rparr>"
    by (simp add: NetworkSimulator_new_def PowerlineMedium_new_def WirelessMedium_new_def PhysicalMedium_pimpl_def getUnblocker_def
        SocketUnblocker_new_def openPipes_def pipe_flag_def medium_start_def get_highres_clock_def resolution_def CLOCK_REALTIME_def k_def accept_kernel_def
        ok_kernel_def Let_def)
  obtain ns where "sim_listen k ns0 = Inr ns" "listening ns 5 5 3"
    using new(2)
    by (simp add: sim_listen_def ServerSocket_new_def setup_server_def setBlocking_def setCloseOnExec_def setReuseAddress_def
        bindAnyAddress_def setPassive_def listening_def server_fd_def getReadPipe_def k_def accept_kernel_def ok_kernel_def Let_def)
  moreover have "\<forall>t. k_select k t [5, 5, 3] None = SelErr 9" "(9 :: int) \<noteq> EINTR" by (simp_all add: k_def EINTR_def)
  ultimately have "\<exists>ns'. sim_main (6 + 0) k (\<lambda>c. Some (Timespec 0 1)) (rest_of_thread powerline_txCollisionCheck k)
      (rest_of_thread wireless_txCollisionCheck k) [] \<lparr>io_tick = 0, io_out = []\<rparr> = (Exit EXIT_SUCCESS, Some ns') \<and> taken_down ns0 ns'"
    using exceptions_end_tidily [OF _ q refl refl, of "[]" "\<lambda>c. Some (Timespec 0 1)" "\<lparr>io_tick = 0, io_out = []\<rparr>" 0] new(1)
    by (metis empty_set empty_subsetI)
  then obtain ns' where "sim_main 6 k (\<lambda>c. Some (Timespec 0 1)) (rest_of_thread powerline_txCollisionCheck k)
      (rest_of_thread wireless_txCollisionCheck k) [] \<lparr>io_tick = 0, io_out = []\<rparr> = (Exit EXIT_SUCCESS, Some ns')" "taken_down ns0 ns'" by auto
  then show ?thesis by (intro exI [of _ k] exI [of _ ns']) (auto simp: k_def taken_down_def torn_down_def)
qed

end
