(* ===== verification/Medium_Wire.thy ===== *)
theory Medium_Wire
  imports Medium_Spec
begin

text \<open>
  What goes over the wire. Whatever the nodes send, everything a medium writes to the socket of a node is a sequence of whole, valid messages of the types
  that the simulator sends, and everything it multicasts is a valid data indication. The relation \<open>wire\<close> says so of two states, for media whose
  stored packets come from accepted messages, and \<open>thread_rel\<close> carries it from the operations to the steps of the thread.
\<close>

section \<open>Well-formed traffic\<close>

definition sim_frame :: "byte list \<Rightarrow> bool" where
  "sim_frame m \<longleftrightarrow> (\<exists>i. \<exists>t \<in> {MSG_TYPE_REG_REQ, MSG_TYPE_DEREG_CON, MSG_TYPE_CCA_CON, MSG_TYPE_TX_DONE_IND}. valid_frame i t m)"

definition air_frame :: "byte list \<Rightarrow> bool" where
  "air_frame m \<longleftrightarrow> (\<exists>i. valid_frame i MSG_TYPE_TX_DATA_IND m) \<and> sendable m \<and> m ! RSSI_OFF = 127"

lemma sent_msgs_sim_frame:
  "sim_frame (registration_req_msg i)" "sim_frame (deregistration_con_msg i)" "sim_frame (cca_con_msg i r)" "sim_frame (tx_done_ind_msg i n)"
  unfolding sim_frame_def using sent_msgs_valid by blast+

definition stored_ok :: "sys \<Rightarrow> bool" where
  "stored_ok s \<longleftrightarrow> (\<forall>p n pkt. heap s p = Some n \<longrightarrow> txPkt n = Some pkt \<longrightarrow> stored_frame (socket_ptr n) (pktBuffer pkt))"

text \<open>The image of a stored packet that can be sent.\<close>

lemma stored_image:
  assumes "stored_frame i b" and "sendable b" "length b \<le> 65535"
  shows "air_frame (tx_image b)"
proof -
  have l: "34 \<le> length b" using assms(2) by (simp add: sendable_def size_defs)
  let ?z = "le_bytes 2 (0 :: u16)"
  define m where "m = put 16 (le_bytes 2 (htons (generate_checksum b))) b"
  have f: "unat (ntohs (hdr_len (hdr_of b))) = length b" "accepted_msg i (msg_type_val MSG_TYPE_TX_DATA_IND) b"
    using assms(1) l by (simp_all add: stored_frame_def size_defs)
  have lm: "length m = length b" using l by (simp add: m_def)
  have "clear_cksum m = put 16 ?z b" using l by (simp add: clear_cksum_def m_def size_defs put_put_same)
  also have "\<dots> = b" using f(2) put_get_same [of 16 2 b] by (simp add: accepted_msg_def size_defs)
  finally have c: "clear_cksum m = b" .
  have g: "get off n m = get off n b" if "off + n \<le> 16 \<or> 18 \<le> off" for off n
    using that l by (auto simp: m_def get_put_before get_put_after)
  have "rx_cksum m = generate_checksum b"
    using get_put_same [of 16 "le_bytes 2 (htons (generate_checksum b))" b] l by (simp add: rx_cksum_def m_def size_defs)
  then have v: "valid_frame i MSG_TYPE_TX_DATA_IND m"
    using f l lm assms(3) g by (simp add: valid_frame_def accepted_msg_def c hdr_of_def size_defs)
  have "sendable m" using assms(2) lm g by (simp add: sendable_def psdu_len_of_def size_defs)
  from tx_image_valid [OF v this] show ?thesis
    using tx_image_frame(4) [OF assms(2)] by (auto simp: air_frame_def c)
qed

section \<open>Operations\<close>

definition speaks :: "kernel \<Rightarrow> sys \<Rightarrow> sys \<Rightarrow> bool" where
  "speaks k s s' \<longleftrightarrow> (\<exists>ms. mcasts (io_out (sio s')) = mcasts (io_out (sio s)) @ ms \<and> (\<forall>m \<in> set ms. air_frame m))
     \<and> (send_ok k \<longrightarrow> (\<forall>fd. \<exists>fs. stream fd (io_out (sio s')) = stream fd (io_out (sio s)) @ concat fs \<and> (\<forall>m \<in> set fs. sim_frame m)))"

lemma speaks_trans:
  assumes "speaks k s s1" and "speaks k s1 s'"
  shows "speaks k s s'"
proof -
  obtain ms ms' where m: "mcasts (io_out (sio s1)) = mcasts (io_out (sio s)) @ ms" "\<forall>m \<in> set ms. air_frame m"
      "mcasts (io_out (sio s')) = mcasts (io_out (sio s1)) @ ms'" "\<forall>m \<in> set ms'. air_frame m"
    using assms unfolding speaks_def by blast
  have "\<exists>fs. stream fd (io_out (sio s')) = stream fd (io_out (sio s)) @ concat fs \<and> (\<forall>m \<in> set fs. sim_frame m)"
    if ok: "send_ok k" for fd
  proof -
    obtain fs fs' where "stream fd (io_out (sio s1)) = stream fd (io_out (sio s)) @ concat fs" "\<forall>m \<in> set fs. sim_frame m"
        "stream fd (io_out (sio s')) = stream fd (io_out (sio s1)) @ concat fs'" "\<forall>m \<in> set fs'. sim_frame m"
      using assms ok unfolding speaks_def by blast
    then show ?thesis by (intro exI [of _ "fs @ fs'"]) auto
  qed
  with m show ?thesis unfolding speaks_def by (intro conjI exI [of _ "ms @ ms'"]) auto
qed

lemma speaks_quiet:
  assumes "mcasts (io_out (sio s')) = mcasts (io_out (sio s))" and "\<And>fd. stream fd (io_out (sio s')) = stream fd (io_out (sio s))"
  shows "speaks k s s'"
  unfolding speaks_def by (intro conjI impI allI; rule exI [of _ "[]"]) (simp_all add: assms)

lemma speaks_same: "io_out (sio s') = io_out (sio s) \<Longrightarrow> speaks k s s'"
  by (simp add: speaks_quiet)

lemma node_send_speaks:
  assumes "node_send k p msg s = Inr (rv, s')" and "\<And>i. sim_frame (msg i)"
  shows "speaks k s s'"
proof -
  have "\<exists>fs. stream fd (io_out (sio s')) = stream fd (io_out (sio s)) @ concat fs \<and> (\<forall>m \<in> set fs. sim_frame m)"
    if ok: "send_ok k" for fd
  proof -
    obtain n where n: "heap s p = Some n" "socket_ptr n \<noteq> 0" using node_send_inv(2) [OF assms(1)] by blast
    have "send_spec k" using ok by (simp add: send_ok_def)
    from node_send_told [OF this n, of msg] obtain w where
      w: "s' = s\<lparr>sio := w\<rparr>" "told k (sio s) w (sock_fd (dn_socket n)) (msg (socket_ptr n))"
      using assms(1) by (metis Inr_inject prod.inject)
    show ?thesis
      using told_stream [OF w(2) ok, of fd] assms(2) unfolding w(1)
      by (intro exI [of _ "if fd = sock_fd (dn_socket n) then [msg (socket_ptr n)] else []"]) simp
  qed
  with node_send_silent [OF assms(1)] show ?thesis unfolding speaks_def silent_def by auto
qed

lemma sends_speak:
  "sendRegistrationRequest k p s = Inr s' \<Longrightarrow> speaks k s s'" "sendDeregistrationConfirm k p s = Inr s' \<Longrightarrow> speaks k s s'"
  "sendCcaConfirm k p b s = Inr s' \<Longrightarrow> speaks k s s'" "sendTxDoneIndication k p r s = Inr s' \<Longrightarrow> speaks k s s'"
  by (auto simp: sendRegistrationRequest_def sendDeregistrationConfirm_def sendCcaConfirm_def sendTxDoneIndication_def
      intro: node_send_speaks sent_msgs_sim_frame)

text \<open>Operations keep stored packets in order and speak.\<close>

definition wire :: "kernel \<Rightarrow> sys \<Rightarrow> sys \<Rightarrow> bool" where
  "wire k s s' \<longleftrightarrow> (stored_ok s \<longrightarrow> stored_ok s' \<and> speaks k s s')"

lemma wire_trans: "wire k s s1 \<Longrightarrow> wire k s1 s' \<Longrightarrow> wire k s s'"
  unfolding wire_def using speaks_trans by blast

lemma stored_ok_upd:
  assumes "stored_ok s" and "heap s' = (heap s)(p \<mapsto> n)" and "\<And>pkt. txPkt n = Some pkt \<Longrightarrow> stored_frame (socket_ptr n) (pktBuffer pkt)"
  shows "stored_ok s'"
  using assms by (simp add: stored_ok_def)

lemma wire_same: "heap s' = heap s \<Longrightarrow> speaks k s s' \<Longrightarrow> wire k s s'"
  by (simp add: wire_def stored_ok_def)

lemma wire_upd:
  assumes "heap s p = Some n" and "heap s' = (heap s)(p \<mapsto> n')" and "socket_ptr n' = socket_ptr n" "txPkt n' = txPkt n" and "speaks k s s'"
  shows "wire k s s'"
  unfolding wire_def using assms stored_ok_upd [OF _ assms(2)] by (auto simp: stored_ok_def)

lemma wire_join:
  assumes "join k p sp fd s = Inr s'"
  shows "wire k s s'"
proof -
  have "stored_ok s'" if "stored_ok s"
    using assms by (rule join_inv) (auto intro!: stored_ok_upd [OF that] simp: newcomer_def DeviceNode_pimpl_def)
  moreover from assms have "speaks k s s'"
  proof (rule join_sends)
    fix rv w s3
    let ?s2 = "(set_node p (DeviceNode_pimpl fd sp) s)\<lparr>sio := w\<rparr>"
    assume w: "setCloseOnExec k (Socket_new fd) True (sio s) = (rv, w)" and s3: "sendRegistrationRequest k p ?s2 = Inr s3"
      and o3: "io_out (sio s') = io_out (sio s3)"
    have "speaks k s ?s2" using setCloseOnExec_silent [OF w] setCloseOnExec_out [OF w] by (intro speaks_quiet) simp_all
    then show ?thesis using sends_speak(1) [OF s3] speaks_same [OF o3] speaks_trans by blast
  qed
  ultimately show ?thesis by (simp add: wire_def)
qed

lemma wire_confirm:
  assumes "wf s" and "member s p" and "handleRegistrationConfirm p m s = Inr s'"
  shows "wire k s s'"
  using assms
proof (rule handleRegistrationConfirm_inv)
  fix n o1 o2
  assume n: "heap s p = Some n"
    and s': "s' = set_node p (confirmed o1 o2 n) (registered_as (socket_ptr n) p (s\<lparr>sio := tick (sio s)\<rparr>))"
  show ?thesis
    by (rule wire_upd [OF n, of _ "confirmed o1 o2 n"]) (auto simp: s' registered_as_def confirmed_def intro: speaks_same)
qed

lemma wire_failed: "heap s p = Some n \<Longrightarrow> wire k s (set_node p (n\<lparr>failedReads := x\<rparr>) s)"
  by (rule wire_upd [of s p n _ "n\<lparr>failedReads := x\<rparr>"]) (auto intro: speaks_same)

lemma wire_ask: "wf s \<Longrightarrow> member s p \<Longrightarrow> handleCcaRequest p s = Inr s' \<Longrightarrow> wire k s s'"
  by (auto dest!: handleCcaRequest_inv intro!: wire_same speaks_same)

lemma wire_send:
  assumes "wf s" and "member s p" and "heap s p = Some n" "accepted_msg (socket_ptr n) (msg_type_val MSG_TYPE_TX_DATA_IND) m"
    and "handleDataIndication k' p m s = Inr s'"
  shows "wire k s s'"
  using assms(1,2,5)
proof (rule handleDataIndication_inv)
  fix n' pkt t
  assume n: "heap s p = Some n'" and pkt: "NetSimPacket_new m p = Inr pkt"
    and s': "s' = set_node p (transmitting pkt t n') (s\<lparr>txList := txList s @ [p], sio := tick (tick (sio s))\<rparr>)"
  have "stored_frame (socket_ptr n') (pktBuffer pkt)" using packet_stored_frame [OF pkt] assms(3,4) n by simp
  then have "stored_ok s'" if "stored_ok s"
    by (intro stored_ok_upd [OF that, of _ p "transmitting pkt t n'"]) (auto simp: s' transmitting_def)
  moreover have "speaks k s s'" by (rule speaks_same) (simp add: s')
  ultimately show ?thesis by (simp add: wire_def)
qed

lemma wire_bye:
  assumes "sendDeregistrationConfirm k p s = Inr s'"
  shows "wire k s s'"
  using assms sends_speak(2) [OF assms]
  by (auto simp: sendDeregistrationConfirm_def dest!: node_send_inv(1) intro!: wire_same split: prod.splits)

lemma stored_ok_sub: "stored_ok s \<Longrightarrow> heap s' \<subseteq>\<^sub>m heap s \<Longrightarrow> stored_ok s'"
  unfolding stored_ok_def map_le_def by (metis domI)

lemma wire_departed: "heap s p = Some n \<Longrightarrow> wire k s (departed i p n s)"
  unfolding wire_def
  by (intro impI conjI speaks_quiet; (erule stored_ok_sub)?) (simp_all add: departed_def closing_out map_le_def)

lemma closes_quiet: "mcasts (map (\<lambda>p. CloseFd (f p)) ps) = []" "stream fd (map (\<lambda>p. CloseFd (f p)) ps) = []"
  by (induction ps) simp_all

lemma wire_gone:
  assumes "gone s s' [p]"
  shows "wire k s s'"
proof -
  have "heap s' \<subseteq>\<^sub>m heap s" using assms by (auto simp: gone_def map_le_def)
  moreover have "speaks k s s'"
    using assms unfolding gone_def fd_closes_def by (intro speaks_quiet) (simp_all add: closes_quiet)
  ultimately show ?thesis using stored_ok_sub by (auto simp: wire_def)
qed

lemma wire_answers: "processCca_loop k l s = Inr s' \<Longrightarrow> speaks k s s'"
proof (induction l arbitrary: s)
  case (Cons p l)
  then obtain s2 where s2: "sendCcaConfirm k p (pm_state s = IDLE) (s\<lparr>ccaList := l\<rparr>) = Inr s2" "processCca_loop k l s2 = Inr s'"
    by auto
  have "speaks k s (s\<lparr>ccaList := l\<rparr>)" by (rule speaks_same) simp
  then show ?case using sends_speak(3) [OF s2(1)] Cons.IH [OF s2(2)] speaks_trans by blast
qed (simp add: speaks_same)

lemma wire_answer:
  assumes "processCcaList k s = Inr s'"
  shows "wire k s s'"
proof -
  have "heap s' = heap s" using processCcaList_inv [OF assms] by auto
  then show ?thesis using wire_answers assms by (intro wire_same) (auto simp: processCcaList_def)
qed

section \<open>The pass over the transmit list\<close>

lemma txPacket_speaks:
  assumes "txPacket p pkt s = Inr s'" and "wf_packet pkt" and "stored_frame i (pktBuffer pkt)"
  shows "speaks k s s'"
proof -
  let ?b = "pktBuffer pkt"
  from assms(1) obtain pkt1 pkt2 frame where pkt: "setRSSI 127 pkt = Inr pkt1" "generateChecksum pkt1 = Inr pkt2" "pktbuf_bytes pkt2 = Inr frame"
    and st: "stream fd (io_out (sio s')) = stream fd (io_out (sio s))" for fd
    by (auto simp: txPacket_def setTxPacket_def Let_def)
  have l: "RSSI_OFF < pktBufferLen pkt" using pkt(1) by (auto simp: setRSSI_def split: if_splits)
  have p2: "pkt2 = pkt\<lparr>pktBuffer := tx_image ?b\<rparr>" using tx_image_ops [OF assms(2) l] pkt(1,2) by simp
  have "get PSDU_LEN_OFF 2 (tx_image ?b) = get PSDU_LEN_OFF 2 ?b"
    using l assms(2) by (simp add: tx_image_def wf_packet_def Let_def size_defs get_put_after get_put_before)
  then have "sendable ?b"
    using pkt(3) assms(2) by (auto simp: p2 pktbuf_bytes_def pktbufSize_def sendable_def psdu_len_of_def wf_packet_def split: if_splits)
  then have "air_frame (tx_image ?b)" using stored_image [OF assms(3)] assms(2) by (simp add: wf_packet_def)
  then have "\<exists>ms. mcasts (io_out (sio s')) = mcasts (io_out (sio s)) @ ms \<and> (\<forall>m \<in> set ms. air_frame m)"
    using txPacket_mcast [OF assms(1,2)] by (intro exI [of _ "[tx_image ?b]"]) simp
  moreover have "\<exists>fs. stream fd (io_out (sio s')) = stream fd (io_out (sio s)) @ concat fs \<and> (\<forall>m \<in> set fs. sim_frame m)" for fd
    by (rule exI [of _ "[]"]) (simp add: st)
  ultimately show ?thesis unfolding speaks_def by blast
qed

lemma txDone_speaks:
  assumes "txDone p pkt s = Inr s'" and "wf_packet pkt" and "stored_frame i (pktBuffer pkt)"
  shows "speaks k s s'"
proof (cases "txDoneResult pkt = TX_DONE_OK")
  case True
  with assms(1) obtain s1 where s1: "txPacket p pkt s = Inr s1" "s' = s1\<lparr>tx_pkts_ok := tx_pkts_ok s1 + 1\<rparr>" by (auto simp: txDone_def)
  have "speaks k s1 s'" by (rule speaks_same) (simp add: s1(2))
  with txPacket_speaks [OF s1(1) assms(2,3)] show ?thesis by (rule speaks_trans)
qed (use assms(1) in \<open>auto simp: txDone_def intro!: speaks_same split: if_splits\<close>)

lemma wire_txExpired:
  assumes "txExpired k p s = Inr s'" and "heap s p = Some n" and "tx_node n"
  shows "wire k s s'"
proof -
  obtain pkt where pkt: "txPkt n = Some pkt" "wf_packet pkt" using assms(3) by (auto simp: tx_node_def)
  let ?pkt = "pkt\<lparr>txDoneResult := tx_result pkt\<rparr>"
  let ?s1 = "set_node p ((done_node n)\<lparr>txPkt := Some ?pkt\<rparr>) (s\<lparr>sio := tick (sio s)\<rparr>)"
  from assms(1) obtain s2 s3 where s2: "sendTxDoneIndication k p (tx_result pkt) ?s1 = Inr s2"
      "txDone p ?pkt s2 = Inr s3" "setTxPacket p None s3 = Inr s'"
    using handleTxTimerExpired_ok [OF assms(2,3) pkt(1)] assms(2) pkt(1) by (auto simp: txExpired_def getTxPacket_def)
  have "stored_ok s'" if "stored_ok s"
    using txExpired_inv [OF assms] by (auto intro!: stored_ok_upd [OF that] simp: done_node_def)
  moreover have "speaks k s s'" if "stored_ok s"
  proof -
    have "stored_frame (socket_ptr n) (pktBuffer ?pkt)" "wf_packet ?pkt"
      using that assms(2) pkt by (simp_all add: stored_ok_def wf_packet_def)
    then have "speaks k s2 s3" using txDone_speaks [OF s2(2)] by blast
    moreover have "speaks k s ?s1" "speaks k s3 s'" using s2(3) by (auto intro!: speaks_same simp: setTxPacket_def)
    ultimately show ?thesis using sends_speak(4) [OF s2(1)] speaks_trans by blast
  qed
  ultimately show ?thesis by (simp add: wire_def)
qed

lemma wire_processTx:
  "processTx_loop k seen rest s = Inr s' \<Longrightarrow> wf s \<Longrightarrow> txList s = seen @ rest \<Longrightarrow> wire k s s'"
proof (induction rest arbitrary: seen s)
  case (Cons p rest)
  have t: "wire k s (s\<lparr>sio := tick (sio s)\<rparr>)" by (intro wire_same speaks_same) simp_all
  from Cons.prems show ?case
  proof (cases rule: processTx_step)
    case (ended n s2)
    have "wire k (s\<lparr>sio := tick (sio s)\<rparr>) s2" using ended by (intro wire_txExpired) simp_all
    moreover have "wire k s2 (s2\<lparr>txList := seen @ rest\<rparr>)" by (intro wire_same speaks_same) simp_all
    moreover have "wire k (s2\<lparr>txList := seen @ rest\<rparr>) s'" using ended by (intro Cons.IH [of seen]) simp_all
    ultimately show ?thesis using t wire_trans by blast
  next
    case waiting
    with Cons.prems Cons.IH [of "seen @ [p]" "s\<lparr>sio := tick (sio s)\<rparr>"] show ?thesis using wire_trans [OF t] by simp
  qed
qed (simp add: wire_same speaks_same)

section \<open>The steps of the thread\<close>

context collision_policy
begin

lemma wire_check:
  assumes "wf s" and "check s = Inr s1"
  shows "wire k s s1"
proof -
  obtain P where P: "s1 = flag_all P s" using check_flags [OF assms(1)] assms(2) by auto
  have "stored_ok s1" if "stored_ok s"
    using that by (auto simp: P stored_ok_def flag_all_def flagged_def setCollided_def split: if_splits)
  then show ?thesis by (simp add: wire_def P speaks_same)
qed

lemma wire_pass:
  assumes "wf s" and "check s = Inr s1" and "processTx_loop k [] (txList s1) s1 = Inr s'"
  shows "wire k s s'"
proof -
  have "wire k s1 s'" using check_keeps [OF assms(1,2)] by (intro wire_processTx [OF assms(3)]) simp_all
  with wire_check [OF assms(1,2)] show ?thesis by (rule wire_trans)
qed

end

sublocale collision_policy \<subseteq> wires: thread_rel check k "wire k" "wire k" for k
proof unfold_locales
  fix s s1 s' :: sys
  show "wire k s s1 \<Longrightarrow> wire k s1 s' \<Longrightarrow> wire k s s'" by (rule wire_trans)
qed (auto intro: wire_same speaks_same wire_failed wire_join wire_confirm wire_ask wire_send wire_bye wire_departed wire_gone wire_answer
  wire_pass)

context collision_policy
begin

lemma reachable_stored: "reachable listed_stay check c \<Longrightarrow> stored_ok (snd c)"
proof (induction rule: reachable.induct)
  case (Start now w)
  then show ?case by (simp add: run_start_def empty_medium_def stored_ok_def)
next
  case (Step c k c')
  then show ?case using wires.medium_step_rel [of k c c'] reachable_wf [of c] unfolding wire_def by blast
qed

lemma reachable_speaks: "reachable listed_stay check c \<Longrightarrow> medium_step listed_stay check k c c' \<Longrightarrow> speaks k (snd c) (snd c')"
  using wires.medium_step_rel [of k c c'] reachable_wf [of c] reachable_stored [of c] wire_trans
  unfolding wire_def by blast

end

text \<open>
  C4: the types of the traffic. From every state of either medium that orderly rounds reach (polls report only nodes of the medium, and no node leaves, by a deregistration or a broken connection,
  while it is on a list), in every such round, and whatever bytes the nodes send, what a step multicasts is a list of data
  indications that a receiver accepts, each with its frame inside the message and RSSI 127. When no \<^verbatim>\<open>send\<close> fails, what the step writes
  to each socket is a list of whole valid messages, each a registration request, a deregistration confirm, a CCA confirm or a
  done indication.
\<close>

theorem traffic_well_typed:
  assumes "check = powerline_txCollisionCheck \<or> check = wireless_txCollisionCheck"
    and "reachable listed_stay check c" and "medium_step listed_stay check k c c'"
  shows "(\<exists>ms. mcasts (io_out (sio (snd c'))) = mcasts (io_out (sio (snd c))) @ ms \<and> (\<forall>m \<in> set ms. air_frame m))
    \<and> (send_ok k \<longrightarrow> (\<forall>fd. \<exists>fs. stream fd (io_out (sio (snd c'))) = stream fd (io_out (sio (snd c))) @ concat fs
         \<and> (\<forall>m \<in> set fs. sim_frame m)))"
  using assms powerline.reachable_speaks [of c k c'] wireless.reachable_speaks [of c k c'] by (auto simp: speaks_def)

theorem traffic_well_typed_witness:
  "\<exists>c' fs. medium_step listed_stay wireless_txCollisionCheck ok_kernel (run_start (Timespec 0 0) empty_medium) c'
    \<and> stream 7 (io_out (sio (snd c'))) = concat fs \<and> (\<forall>m \<in> set fs. sim_frame m) \<and> concat fs = registration_req_msg 0x2000"
proof -
  let ?c = "run_start (Timespec 0 0) (empty_medium\<lparr>sio := sio empty_medium\<rparr>)"
  obtain l s where c: "?c = (l, s)" and s: "s = empty_medium\<lparr>pm_state := IDLE, curTime := Timespec 0 0\<rparr>"
    by (simp add: run_start_def)
  obtain s' where j: "join ok_kernel 0x1000 0x2000 7 s = Inr s'" "stream 7 (io_out (sio s')) = registration_req_msg 0x2000"
    using join_succeeds [OF ok_kernel_send_ok ok_kernel_timers ok_kernel_epoll, of "0x2000" "0x1000" 7 s]
    by (auto simp: s empty_medium_def)
  have step: "medium_step listed_stay wireless_txCollisionCheck ok_kernel ?c (l, s')"
    unfolding c by (rule medium_step.Join [OF _ j(1)]) (simp add: fresh_def s empty_medium_def)
  have "stream 7 (io_out (sio s)) = []" by (simp add: s empty_medium_def)
  moreover obtain fs where "stream 7 (io_out (sio s')) = stream 7 (io_out (sio s)) @ concat fs" "\<forall>m \<in> set fs. sim_frame m"
    using traffic_well_typed [OF _ reachable.Start step] ok_kernel_send_ok c by (metis snd_conv)
  ultimately show ?thesis using step j(2) by (intro exI [of _ "(l, s')"] exI [of _ fs]) simp
qed

end
