(* ===== verification/Process.thy ===== *)
theory Process
  imports Main_Program Medium_Wire
begin

text \<open>
  The whole process: the main thread with the simulator object, the threads of the two media, and signals. A step of the process is a step of
  one of them; the schedule is free, and so is the kernel at every step. The main thread goes from its accept loop through the
  destructor of the simulator to the end of the process (\<^verbatim>\<open>src/src/main.cpp\<close>, \<^verbatim>\<open>src/src/sim/Simulator.cpp\<close>), the media's threads run
  \<^verbatim>\<open>PhysicalMedium::run\<close>. The first part shows that each medium in the process takes only steps that the theories on media know; the
  second that the process ends.
\<close>

section \<open>The process\<close>

text \<open>
  Where the main thread is: at the head of the loop of \<^verbatim>\<open>start\<close> with its error count, after \<^verbatim>\<open>start\<close> has returned or thrown, waiting for the media's threads in the
  destructor, or at the end. \<open>pr_plc\<close> and \<open>pr_wl\<close> are where the media's threads are, \<open>None\<close> for a thread that has been created and has not begun.
\<close>

datatype main_loc = Accepting int | Ended | Joining | Exited

record process =
  pr_main :: main_loc
  pr_sim :: NetworkSimulator
  pr_plc :: "run_loc option"
  pr_wl :: "run_loc option"

text \<open>
  The start of the process, up to the loop of \<^verbatim>\<open>start\<close>; an exception of the constructor is the end of it. What the threads of the media do meanwhile does
  not touch the sockets set up here, so they begin after it.
\<close>

definition process_init :: "kernel \<Rightarrow> (int \<Rightarrow> timespec option) \<Rightarrow> bool \<Rightarrow> process res" where
  "process_init k getres dbg =
     bindE (NetworkSimulator_new k getres dbg \<lparr>io_tick = 0, io_out = []\<rparr>) (\<lambda>ns.
     case sim_listen k ns of
       Inl (Throw e) \<Rightarrow> Inr \<lparr> pr_main = Ended, pr_sim = ns, pr_plc = None, pr_wl = None \<rparr>
     | Inl f \<Rightarrow> Inl f
     | Inr ns1 \<Rightarrow> Inr \<lparr> pr_main = Accepting 0, pr_sim = ns1, pr_plc = None, pr_wl = None \<rparr>)"

definition thread_step :: "(sys \<Rightarrow> sys res) \<Rightarrow> kernel \<Rightarrow> run_loc option \<Rightarrow> sys \<Rightarrow> (run_loc option \<times> sys) res" where
  "thread_step check k l m =
     bindE (case l of None \<Rightarrow> run_init k m | Some l0 \<Rightarrow> run_step check k (l0, m)) (\<lambda>(l', m'). Inr (Some l', m'))"

text \<open>\<^verbatim>\<open>pthread_join\<close> returns when the thread has ended.\<close>

definition waitForExit :: "run_loc option \<Rightarrow> bool" where
  "waitForExit l \<longleftrightarrow> l = Some Done"

text \<open>One round of the loop of \<^verbatim>\<open>start\<close>; an exception is caught in \<^verbatim>\<open>main\<close>.\<close>

definition accept_step :: "kernel \<Rightarrow> int \<Rightarrow> process \<Rightarrow> process res" where
  "accept_step k err pr =
     (case start_round k err (pr_sim pr) of
        Inl (Throw e) \<Rightarrow> Inr (pr\<lparr>pr_main := Ended, pr_sim := round_left k (pr_sim pr)\<rparr>)
      | Inl f \<Rightarrow> Inl f
      | Inr (again, err', ns) \<Rightarrow>
          Inr (if again then pr\<lparr>pr_main := Accepting err', pr_sim := ns\<rparr>
               else pr\<lparr>pr_main := Ended, pr_sim := delete_servers ns\<rparr>))"

text \<open>\<^verbatim>\<open>~NetworkSimulator\<close> before and after it has waited for the threads.\<close>

definition stop_media :: "NetworkSimulator \<Rightarrow> NetworkSimulator" where
  "stop_media ns = ns\<lparr>plcMedium := stop (plcMedium ns), wlMedium := stop (wlMedium ns)\<rparr>"

definition delete_media :: "NetworkSimulator \<Rightarrow> NetworkSimulator res" where
  "delete_media ns =
     bindE (PhysicalMedium_delete (plcEnv ns) (plcMedium ns)) (\<lambda>m1.
     bindE (PhysicalMedium_delete (wlEnv ns) (wlMedium ns)) (\<lambda>m2.
     Inr (ns\<lparr>plcMedium := m1, wlMedium := m2\<rparr>)))"

text \<open>The destructor of the static unblocker, which runs in \<^verbatim>\<open>exit\<close>.\<close>

definition SocketUnblocker_delete :: "kernel \<Rightarrow> SocketUnblocker \<Rightarrow> io \<Rightarrow> io" where
  "SocketUnblocker_delete k u w = snd (closePipes k u w)"

definition exit_process :: "kernel \<Rightarrow> NetworkSimulator \<Rightarrow> NetworkSimulator" where
  "exit_process k ns = ns\<lparr>ns_io := SocketUnblocker_delete k (ns_unblocker ns) (ns_io ns)\<rparr>"

definition main_step :: "kernel \<Rightarrow> process \<Rightarrow> process res" where
  "main_step k pr =
     (case pr_main pr of
        Accepting err \<Rightarrow> accept_step k err pr
      | Ended \<Rightarrow> Inr (pr\<lparr>pr_main := Joining, pr_sim := stop_media (pr_sim pr)\<rparr>)
      | Joining \<Rightarrow>
          if waitForExit (pr_plc pr) \<and> waitForExit (pr_wl pr)
          then bindE (delete_media (pr_sim pr)) (\<lambda>ns. Inr (pr\<lparr>pr_main := Exited, pr_sim := exit_process k ns\<rparr>))
          else Inr pr
      | Exited \<Rightarrow> Inr pr)"

text \<open>A step of the process; a signal finds the handler installed and the simulator made.\<close>

datatype actor = MainThread | PlcThread | WlThread | Signal signum

definition act :: "kernel \<Rightarrow> actor \<Rightarrow> process \<Rightarrow> process res" where
  "act k a pr =
     (if pr_main pr = Exited then Inr pr
      else case a of
        MainThread \<Rightarrow> main_step k pr
      | PlcThread \<Rightarrow> bindE (thread_step powerline_txCollisionCheck k (pr_plc pr) (plcMedium (pr_sim pr))) (\<lambda>(l, m).
          Inr (pr\<lparr>pr_plc := l, pr_sim := (pr_sim pr)\<lparr>plcMedium := m\<rparr>\<rparr>))
      | WlThread \<Rightarrow> bindE (thread_step wireless_txCollisionCheck k (pr_wl pr) (wlMedium (pr_sim pr))) (\<lambda>(l, m).
          Inr (pr\<lparr>pr_wl := l, pr_sim := (pr_sim pr)\<lparr>wlMedium := m\<rparr>\<rparr>))
      | Signal sig \<Rightarrow>
          Inr (case signal_handler k sig (Some (pr_sim pr)) of None \<Rightarrow> pr | Some ns \<Rightarrow> pr\<lparr>pr_sim := ns\<rparr>))"

fun run_process :: "kernel \<Rightarrow> actor list \<Rightarrow> process \<Rightarrow> process res" where
  "run_process k [] pr = Inr pr"
| "run_process k (a # sched) pr = bindE (act k a pr) (run_process k sched)"

section \<open>Runs\<close>

text \<open>
  Runs of the process. The kernel of every step is any one of \<open>K\<close>, and a step is taken only if \<open>ok\<close> allows it; with \<open>\<lambda>_ _ _. True\<close> every run is one.
  The theorems are about the runs that \<open>act_ok\<close> allows, which asks three things of the environment: the allocator gives the main thread addresses that
  are not in use; the polls of a medium's thread report only nodes of that medium; and no node leaves (deregisters, or disconnects) while it is on the transmit list
  or the clear-channel list of its medium. The last is not ensured by the program: theory \<open>Medium_Faults\<close> shows what becomes of a medium where it happens.
\<close>

definition alloc_ok :: "kernel \<Rightarrow> sys \<Rightarrow> bool" where
  "alloc_ok k m \<longleftrightarrow> (\<forall>t. fresh m (k_new k t) (k_new k (Suc t)))"

fun thread_polls :: "kernel \<Rightarrow> run_loc option \<Rightarrow> sys \<Rightarrow> bool" where
  "thread_polls k None m = True"
| "thread_polls k (Some l) m = listed_stay k (l, m)"

fun act_ok :: "kernel \<Rightarrow> actor \<Rightarrow> process \<Rightarrow> bool" where
  "act_ok k MainThread pr \<longleftrightarrow> alloc_ok k (plcMedium (pr_sim pr)) \<and> alloc_ok k (wlMedium (pr_sim pr))"
| "act_ok k PlcThread pr \<longleftrightarrow> thread_polls k (pr_plc pr) (plcMedium (pr_sim pr))"
| "act_ok k WlThread pr \<longleftrightarrow> thread_polls k (pr_wl pr) (wlMedium (pr_sim pr))"
| "act_ok k (Signal sig) pr \<longleftrightarrow> True"

inductive process_reachable :: "(kernel \<Rightarrow> actor \<Rightarrow> process \<Rightarrow> bool) \<Rightarrow> kernel set \<Rightarrow> process \<Rightarrow> bool" for ok K where
  Init: "k \<in> K \<Longrightarrow> process_init k getres dbg = Inr pr \<Longrightarrow> process_reachable ok K pr"
| Act: "process_reachable ok K pr \<Longrightarrow> k \<in> K \<Longrightarrow> ok k a pr \<Longrightarrow> act k a pr = Inr pr' \<Longrightarrow> process_reachable ok K pr'"

section \<open>A medium inside the process\<close>

text \<open>What a step of the process is for one medium.\<close>

inductive moves :: "(sys \<Rightarrow> sys res) \<Rightarrow> kernel \<Rightarrow> run_loc option \<times> sys \<Rightarrow> run_loc option \<times> sys \<Rightarrow> bool" for check k where
  Stay: "moves check k c c"
| Thread: "thread_polls k l m \<Longrightarrow> thread_step check k l m = Inr c \<Longrightarrow> moves check k (l, m) c"
| Joined: "fresh m p sp \<Longrightarrow> join k p sp fd m = Inr m' \<Longrightarrow> moves check k (l, m) (l, m')"
| Stopped: "moves check k (l, m) (l, stop m)"

text \<open>What a round of the accept loop does to the media, also when it throws.\<close>

definition round_joins :: "kernel \<Rightarrow> sys \<Rightarrow> sys \<Rightarrow> bool" where
  "round_joins k m m' \<longleftrightarrow> m' = m \<or> (\<exists>t fd. join k (k_new k t) (k_new k (Suc t)) fd m = Inr m')"

lemma add_client_media: "add_client k fd m w = Inr (m', w') \<Longrightarrow> round_joins k m m'"
  by (auto simp: add_client_def round_joins_def split: if_splits)

lemma acceptConnections_media:
  "acceptConnections k ns = Inr (rv, han, wl, ns') \<Longrightarrow> plcMedium ns' = plcMedium ns \<and> wlMedium ns' = wlMedium ns"
  by (auto simp: acceptConnections_def setupAcceptFdSet_def Let_def split: if_splits select_res.splits)

lemma start_round_media:
  assumes "start_round k err ns = Inr (again, err', ns')"
  shows "round_joins k (plcMedium ns) (plcMedium ns') \<and> round_joins k (wlMedium ns) (wlMedium ns')"
proof -
  from assms obtain rv han wl ns1 where a: "acceptConnections k ns = Inr (rv, han, wl, ns1)"
    and r: "ns' = ns1 \<or> add_clients k han wl ns1 = Inr ns'"
    by (cases "acceptConnections k ns") (auto simp: start_round_def split: AcceptStatus.splits if_splits)
  from r show ?thesis
    using acceptConnections_media [OF a] by (auto simp: round_joins_def add_clients_def dest!: add_client_media)
qed

lemma round_left_media:
  "round_joins k (plcMedium ns) (plcMedium (round_left k ns)) \<and> round_joins k (wlMedium ns) (wlMedium (round_left k ns))"
proof (cases "acceptConnections k ns")
  case (Inr r)
  obtain rv han wl ns1 where r: "r = (rv, han, wl, ns1)" by (cases r) auto
  have "round_joins k (plcMedium ns1) m1" if "add_client k han (plcMedium ns1) (ns_io ns1) = Inr (m1, w1)" for m1 w1
    using that by (rule add_client_media)
  then show ?thesis
    using acceptConnections_media [OF Inr [unfolded r]]
    by (auto simp: round_left_def Inr r round_joins_def [of _ _ "wlMedium _"] round_joins_def [of _ "plcMedium ns" "plcMedium ns"] split: sum.splits)
qed (simp add: round_left_def round_joins_def)

lemma round_moves: "alloc_ok k m \<Longrightarrow> round_joins k m m' \<Longrightarrow> moves check k (l, m) (l, m')"
  by (auto simp: round_joins_def alloc_ok_def intro: moves.intros)

definition plc :: "process \<Rightarrow> run_loc option \<times> sys" where
  "plc pr = (pr_plc pr, plcMedium (pr_sim pr))"

definition wl :: "process \<Rightarrow> run_loc option \<times> sys" where
  "wl pr = (pr_wl pr, wlMedium (pr_sim pr))"

lemma accept_step_media:
  assumes "accept_step k err pr = Inr pr'"
  shows "pr_plc pr' = pr_plc pr \<and> pr_wl pr' = pr_wl pr \<and> round_joins k (plcMedium (pr_sim pr)) (plcMedium (pr_sim pr'))
    \<and> round_joins k (wlMedium (pr_sim pr)) (wlMedium (pr_sim pr'))"
proof (cases "start_round k err (pr_sim pr)")
  case (Inl f)
  then show ?thesis using assms round_left_media by (cases f) (auto simp: accept_step_def)
next
  case (Inr r)
  obtain again err' ns where "r = (again, err', ns)" by (cases r) auto
  then show ?thesis using assms start_round_media [of k err "pr_sim pr" again err' ns] Inr by (cases again) (auto simp: accept_step_def)
qed

lemma act_moves:
  assumes "act k a pr = Inr pr'" and "act_ok k a pr" and "pr_main pr' \<noteq> Exited"
  shows "moves powerline_txCollisionCheck k (plc pr) (plc pr') \<and> moves wireless_txCollisionCheck k (wl pr) (wl pr')"
proof -
  have ex: "pr_main pr \<noteq> Exited" using assms(1,3) by (auto simp: act_def)
  show ?thesis
  proof (cases a)
    case MainThread
    then have m: "main_step k pr = Inr pr'" using assms(1) ex by (simp add: act_def)
    show ?thesis
    proof (cases "pr_main pr")
      case (Accepting err)
      then have "accept_step k err pr = Inr pr'" using m by (simp add: main_step_def)
      from accept_step_media [OF this] show ?thesis
        using assms(2) MainThread by (auto simp: plc_def wl_def intro: round_moves)
    next
      case Ended
      then show ?thesis using m by (auto simp: main_step_def stop_media_def plc_def wl_def intro: moves.Stopped)
    next
      case Joining
      then have "pr' = pr" using m assms(3) by (auto simp: main_step_def split: if_splits)
      then show ?thesis by (simp add: moves.Stay)
    qed (use ex in simp)
  next
    case PlcThread
    then show ?thesis using assms ex by (auto simp: act_def plc_def wl_def intro: moves.intros)
  next
    case WlThread
    then show ?thesis using assms ex by (auto simp: act_def plc_def wl_def intro: moves.intros)
  next
    case (Signal sig)
    then show ?thesis using assms ex by (cases sig) (auto simp: act_def sim_stop_def plc_def wl_def intro: moves.Stay)
  qed
qed

text \<open>
  A medium of the process is in a reachable state of its thread. While the thread has not begun, the states it may begin in are.
\<close>

fun placed :: "(sys \<Rightarrow> sys res) \<Rightarrow> run_loc option \<times> sys \<Rightarrow> bool" where
  "placed check (None, m) \<longleftrightarrow> (\<forall>now. reachable listed_stay check (run_start now m))"
| "placed check (Some l, m) \<longleftrightarrow> reachable listed_stay check (l, m)"

lemma join_frame:
  assumes "join k p sp fd s = Inr s'"
  shows "join k p sp fd (s\<lparr>pm_state := st, curTime := t\<rparr>) = Inr (s'\<lparr>pm_state := st, curTime := t\<rparr>)"
  using assms
  by (auto simp: join_def DeviceNode_new_def sendRegistrationRequest_def node_send_def startRegistrationTimer_def addNode_def addNode_poll_def
      addNode_insert_def setMedium_def getSocketFd_def getNodeId_def set_node_def node_def Let_def split: if_splits option.splits prod.splits)


lemma placed_thread:
  assumes "placed check (l, m)" and "thread_polls k l m" and "thread_step check k l m = Inr c"
  shows "placed check c"
proof (cases l)
  case None
  then obtain now where "c = (Some Outer, snd (run_start now m))"
    using assms(3) by (auto simp: thread_step_def run_init_def run_start_def split: option.splits)
  then show ?thesis using assms(1) None by (simp add: run_start_def)
next
  case (Some l0)
  then obtain l1 m1 where r: "run_step check k (l0, m) = Inr (l1, m1)" "c = (Some l1, m1)"
    using assms(3) by (auto simp: thread_step_def)
  then show ?thesis using assms(1,2) Some reachable.Step [OF _ medium_step.Run [OF r(1)]] by simp
qed

lemma launch_join:
  "fresh m p sp \<Longrightarrow> join k p sp fd m = Inr m' \<Longrightarrow> medium_step listed_stay check k (run_start now m) (run_start now m')"
  unfolding run_start_def by (intro medium_step.Join [OF _ join_frame]) (simp_all add: fresh_def)

lemma placed_moves:
  assumes "moves check k c c'" and "placed check c"
  shows "placed check c'"
  using assms
proof (cases rule: moves.cases)
  case (Thread l m)
  then show ?thesis using assms(2) placed_thread by blast
next
  case (Joined m p sp fd m' l)
  then show ?thesis
    using assms(2) launch_join [OF Joined(3,4)] by (cases l) (auto intro: reachable.Step medium_step.Join)
next
  case (Stopped l m)
  then show ?thesis using assms(2) by (cases l) (auto simp: run_start_def stop_def intro: reachable.Step [OF _ medium_step.Stop, unfolded stop_def])
qed simp

context collision_policy
begin

lemma placed_wf: "placed check (l, m) \<Longrightarrow> wf m"
  using reachable_wf by (cases l) (force simp: run_start_def)+

lemma placed_speaks:
  assumes "moves check k c c'" and "placed check c"
  shows "speaks k (snd c) (snd c')"
  using assms
proof (cases rule: moves.cases)
  case (Thread l m)
  show ?thesis
  proof (cases l)
    case None
    then have "sio (snd c') = sio (snd c)"
      using Thread by (auto simp: thread_step_def run_init_def run_start_def split: option.splits)
    then show ?thesis by (simp add: speaks_same)
  next
    case (Some l0)
    then show ?thesis
      using assms(2) Thread reachable_speaks [OF _ medium_step.Run, of "(l0, m)" k] by (auto simp: thread_step_def)
  qed
next
  case (Joined m p sp fd m' l)
  show ?thesis
  proof (cases l)
    case None
    then show ?thesis
      using assms(2) Joined reachable_speaks [OF _ launch_join [OF Joined(3,4)], of "Timespec 0 0"] by (simp add: run_start_def speaks_def)
  next
    case (Some l0)
    then show ?thesis using assms(2) Joined reachable_speaks [OF _ medium_step.Join [OF Joined(3,4)], of l0] by simp
  qed
qed (simp_all add: stop_def speaks_same)

end


section \<open>The beginning\<close>

lemma SocketUnblocker_new_silent:
  assumes "SocketUnblocker_new k w = Inr (u, w')"
  shows "mcasts (io_out w') = mcasts (io_out w) \<and> stream fd (io_out w') = stream fd (io_out w)"
  using assms by (auto simp: SocketUnblocker_new_def openPipes_def pipe_flag_def Let_def mcasts_def stream_def split: option.splits if_splits)

lemma PhysicalMedium_pimpl_silent:
  assumes "PhysicalMedium_pimpl k nm port inst w = Inr (ub, e, m)"
  shows "mcasts (io_out (sio m)) = mcasts (io_out w) \<and> stream fd (io_out (sio m)) = stream fd (io_out w)"
  using assms SocketUnblocker_new_silent
  by (auto simp: PhysicalMedium_pimpl_def getUnblocker_def Let_def split: if_splits option.splits)

definition untouched :: "sys \<Rightarrow> bool" where
  "untouched m \<longleftrightarrow> (\<exists>w. m = empty_medium\<lparr>sio := w\<rparr> \<and> mcasts (io_out w) = [] \<and> (\<forall>fd. stream fd (io_out w) = []))"

lemma NetworkSimulator_new_silent:
  assumes "NetworkSimulator_new k getres dbg \<lparr>io_tick = 0, io_out = []\<rparr> = Inr ns"
  shows "untouched (plcMedium ns) \<and> untouched (wlMedium ns)"
proof -
  from assms obtain ub1 e1 m1 ub2 e2 m2 where m1: "PhysicalMedium_pimpl k ''PLC'' HANADU_MCAST_TX_PORT None \<lparr>io_tick = 0, io_out = []\<rparr> = Inr (ub1, e1, m1)"
    and m2: "PhysicalMedium_pimpl k ''AIR'' WIRELESS_MCAST_TX_PORT (Some ub1) (sio m1) = Inr (ub2, e2, m2)"
    and ns: "plcMedium ns = m1\<lparr>sio := tick (sio m1)\<rparr>" "wlMedium ns = m2\<lparr>sio := tick (sio m2)\<rparr>"
    by (auto simp: NetworkSimulator_new_def PowerlineMedium_new_def WirelessMedium_new_def medium_start_def Let_def split: if_splits)
  obtain w1 w2 where e: "m1 = empty_medium\<lparr>sio := w1\<rparr>" "m2 = empty_medium\<lparr>sio := w2\<rparr>"
    using PhysicalMedium_pimpl_inv [OF m1] PhysicalMedium_pimpl_inv [OF m2] by blast
  show ?thesis
    using PhysicalMedium_pimpl_silent [OF m1] PhysicalMedium_pimpl_silent [OF m2]
    unfolding untouched_def ns e
    by (intro conjI exI [of _ "tick w1"] exI [of _ "tick w2"]) (simp_all add: mcasts_def stream_def)
qed

lemma process_init_media:
  assumes "process_init k getres dbg = Inr pr"
  shows "pr_plc pr = None \<and> pr_wl pr = None \<and> untouched (plcMedium (pr_sim pr)) \<and> untouched (wlMedium (pr_sim pr)) \<and> pr_main pr \<noteq> Exited"
proof -
  from assms obtain ns where ns: "NetworkSimulator_new k getres dbg \<lparr>io_tick = 0, io_out = []\<rparr> = Inr ns"
    by (cases "NetworkSimulator_new k getres dbg \<lparr>io_tick = 0, io_out = []\<rparr>") (auto simp: process_init_def)
  have "pr_plc pr = None \<and> pr_wl pr = None \<and> plcMedium (pr_sim pr) = plcMedium ns \<and> wlMedium (pr_sim pr) = wlMedium ns \<and> pr_main pr \<noteq> Exited"
  proof (cases "sim_listen k ns")
    case (Inl f)
    then show ?thesis using assms ns by (cases f) (auto simp: process_init_def)
  next
    case (Inr ns1)
    then show ?thesis using assms ns sim_listen_media [OF Inr] by (auto simp: process_init_def)
  qed
  then show ?thesis using NetworkSimulator_new_silent [OF ns] by simp
qed

lemma untouched_placed: "untouched m \<Longrightarrow> placed check (None, m)"
  by (auto simp: untouched_def intro: reachable.Start)

text \<open>Exiting is final.\<close>

lemma exited_before: "act k a pr = Inr pr' \<Longrightarrow> pr_main pr' \<noteq> Exited \<Longrightarrow> pr_main pr \<noteq> Exited"
  by (auto simp: act_def)

lemma process_placed:
  assumes "process_reachable act_ok K pr"
  shows "pr_main pr \<noteq> Exited \<longrightarrow> placed powerline_txCollisionCheck (plc pr) \<and> placed wireless_txCollisionCheck (wl pr)"
  using assms
proof (induction rule: process_reachable.induct)
  case (Init k getres dbg pr)
  then show ?case using process_init_media untouched_placed by (simp add: plc_def wl_def)
next
  case (Act pr k a pr')
  then show ?case using act_moves [OF Act.hyps(4,3)] exited_before placed_moves by blast
qed

text \<open>All that a medium has sent since the process began.\<close>

definition clean_air :: "sys \<Rightarrow> bool" where
  "clean_air m \<longleftrightarrow> (\<forall>f \<in> set (mcasts (io_out (sio m))). air_frame f)"

definition clean_sockets :: "sys \<Rightarrow> bool" where
  "clean_sockets m \<longleftrightarrow> (\<forall>fd. \<exists>fs. stream fd (io_out (sio m)) = concat fs \<and> (\<forall>f \<in> set fs. sim_frame f))"

lemma untouched_clean: "untouched m \<Longrightarrow> clean_air m \<and> clean_sockets m"
  by (auto simp: untouched_def clean_air_def clean_sockets_def intro: exI [of _ "[]"])

lemma speaks_clean:
  assumes "speaks k m m'"
  shows "clean_air m \<Longrightarrow> clean_air m'" "send_ok k \<Longrightarrow> clean_sockets m \<Longrightarrow> clean_sockets m'"
proof -
  show "clean_air m \<Longrightarrow> clean_air m'" using assms unfolding speaks_def clean_air_def by auto
  assume ok: "send_ok k" and c: "clean_sockets m"
  show "clean_sockets m'" unfolding clean_sockets_def
  proof
    fix fd
    obtain fs gs where "stream fd (io_out (sio m)) = concat fs" "\<forall>f \<in> set fs. sim_frame f"
        "stream fd (io_out (sio m')) = stream fd (io_out (sio m)) @ concat gs" "\<forall>f \<in> set gs. sim_frame f"
      using assms ok c unfolding speaks_def clean_sockets_def by meson
    then show "\<exists>hs. stream fd (io_out (sio m')) = concat hs \<and> (\<forall>f \<in> set hs. sim_frame f)" by (intro exI [of _ "fs @ gs"]) auto
  qed
qed

lemma process_clean:
  assumes "process_reachable act_ok K pr"
  shows "pr_main pr \<noteq> Exited \<longrightarrow> clean_air (plcMedium (pr_sim pr)) \<and> clean_air (wlMedium (pr_sim pr))
    \<and> ((\<forall>k \<in> K. send_ok k) \<longrightarrow> clean_sockets (plcMedium (pr_sim pr)) \<and> clean_sockets (wlMedium (pr_sim pr)))"
  using assms
proof (induction rule: process_reachable.induct)
  case (Init k getres dbg pr)
  then show ?case using process_init_media untouched_clean by blast
next
  case (Act pr k a pr')
  show ?case
  proof
    assume ex: "pr_main pr' \<noteq> Exited"
    then have e: "pr_main pr \<noteq> Exited" using exited_before Act.hyps(4) by blast
    have p: "placed powerline_txCollisionCheck (plc pr)" "placed wireless_txCollisionCheck (wl pr)" using process_placed [OF Act.hyps(1)] e by simp_all
    have "speaks k (plcMedium (pr_sim pr)) (plcMedium (pr_sim pr'))" "speaks k (wlMedium (pr_sim pr)) (wlMedium (pr_sim pr'))"
      using act_moves [OF Act.hyps(4,3) ex] powerline.placed_speaks [OF _ p(1)] wireless.placed_speaks [OF _ p(2)] by (auto simp: plc_def wl_def)
    then show "clean_air (plcMedium (pr_sim pr')) \<and> clean_air (wlMedium (pr_sim pr'))
      \<and> ((\<forall>k \<in> K. send_ok k) \<longrightarrow> clean_sockets (plcMedium (pr_sim pr')) \<and> clean_sockets (wlMedium (pr_sim pr')))"
      using speaks_clean Act.IH Act.hyps(2) e by blast
  qed
qed


section \<open>Shutting down\<close>

fun rank :: "run_loc \<Rightarrow> nat" where
  "rank Outer = 2"
| "rank Inner = 1"
| "rank Done = 0"

text \<open>A thread of a medium \<open>m0\<close> that has been told to stop.\<close>

definition ending :: "sys \<Rightarrow> run_loc \<Rightarrow> sys \<Rightarrow> bool" where
  "ending m0 l m \<longleftrightarrow> wf m \<and> same_nodes m0 m \<and> (l = Done \<or> pm_state m = STOPPING)"

context collision_policy
begin

lemma ending_step:
  assumes "ending m0 l m" and "quiet k"
  shows "\<exists>l' m'. thread_step check k (Some l) m = Inr (Some l', m') \<and> ending m0 l' m' \<and> rank l' = rank l - 1"
proof (cases "l = Done")
  case False
  then have s: "wf m" "same_nodes m0 m" "pm_state m = STOPPING" using assms(1) by (simp_all add: ending_def)
  obtain m' where "run_step check k (l, m) = Inr (if l = Outer then Inner else Done, m')" "same_nodes m m'" "wf m'" "l = Outer \<longrightarrow> pm_state m' = STOPPING"
    using stopping_step [OF s(3) assms(2) False] s(1) by blast
  then show ?thesis using False same_nodes_trans [OF s(2)] by (cases l) (simp_all add: thread_step_def ending_def del: run_step.simps)
qed (use assms in \<open>auto simp: thread_step_def ending_def\<close>)

end

text \<open>The main thread waits for the threads of the media of \<open>ns\<close>, which have at most \<open>n1\<close> and \<open>n2\<close> steps to go.\<close>

definition joining :: "NetworkSimulator \<Rightarrow> nat \<Rightarrow> nat \<Rightarrow> process \<Rightarrow> bool" where
  "joining ns n1 n2 pr \<longleftrightarrow> pr_main pr = Joining \<and> plcEnv (pr_sim pr) = plcEnv ns \<and> wlEnv (pr_sim pr) = wlEnv ns
     \<and> (\<exists>l. pr_plc pr = Some l \<and> rank l \<le> n1 \<and> ending (plcMedium ns) l (plcMedium (pr_sim pr)))
     \<and> (\<exists>l. pr_wl pr = Some l \<and> rank l \<le> n2 \<and> ending (wlMedium ns) l (wlMedium (pr_sim pr)))"

definition exited :: "NetworkSimulator \<Rightarrow> process \<Rightarrow> bool" where
  "exited ns pr \<longleftrightarrow> pr_main pr = Exited \<and> taken_down ns (pr_sim pr)"

lemma run_process_exited: "pr_main pr = Exited \<Longrightarrow> run_process k sched pr = Inr pr"
  by (induction sched) (simp_all add: act_def)

lemma delete_media_frees:
  assumes "wf (plcMedium ns)" "wf (wlMedium ns)"
  shows "\<exists>ns'. delete_media ns = Inr ns' \<and> taken_down ns ns'"
  using PhysicalMedium_delete_torn [OF assms(1), of "plcEnv ns"] PhysicalMedium_delete_torn [OF assms(2), of "wlEnv ns"]
  by (auto simp: delete_media_def taken_down_def)

lemma main_exits:
  assumes "joining ns n1 n2 pr" and "waitForExit (pr_plc pr)" "waitForExit (pr_wl pr)"
  shows "\<exists>pr'. act k MainThread pr = Inr pr' \<and> exited ns pr'"
proof -
  have j: "pr_main pr = Joining" "wf (plcMedium (pr_sim pr))" "wf (wlMedium (pr_sim pr))" "plcEnv (pr_sim pr) = plcEnv ns" "wlEnv (pr_sim pr) = wlEnv ns"
      "same_nodes (plcMedium ns) (plcMedium (pr_sim pr))" "same_nodes (wlMedium ns) (wlMedium (pr_sim pr))"
    using assms(1) by (auto simp: joining_def ending_def)
  obtain ns' where ns': "delete_media (pr_sim pr) = Inr ns'" "taken_down (pr_sim pr) ns'" using delete_media_frees [OF j(2,3)] by blast
  then have "taken_down ns ns'" using j(4,5) torn_down_same [OF j(6)] torn_down_same [OF j(7)] by (simp add: taken_down_def)
  then show ?thesis using ns'(1) j(1) assms(2,3) by (auto simp: act_def main_step_def exited_def exit_process_def taken_down_def)
qed

lemma act_plc:
  assumes "joining ns (Suc n1) n2 pr" and "quiet k"
  shows "\<exists>pr'. act k PlcThread pr = Inr pr' \<and> joining ns n1 n2 pr'"
proof -
  from assms(1) obtain l where l: "pr_main pr = Joining" "pr_plc pr = Some l" "rank l \<le> Suc n1" "ending (plcMedium ns) l (plcMedium (pr_sim pr))"
      "plcEnv (pr_sim pr) = plcEnv ns \<and> wlEnv (pr_sim pr) = wlEnv ns \<and> (\<exists>l. pr_wl pr = Some l \<and> rank l \<le> n2 \<and> ending (wlMedium ns) l (wlMedium (pr_sim pr)))"
    by (auto simp: joining_def)
  from powerline.ending_step [OF l(4) assms(2)] l show ?thesis by (fastforce simp: act_def joining_def)
qed

lemma act_wl:
  assumes "joining ns n1 (Suc n2) pr" and "quiet k"
  shows "\<exists>pr'. act k WlThread pr = Inr pr' \<and> joining ns n1 n2 pr'"
proof -
  from assms(1) obtain l where l: "pr_main pr = Joining" "pr_wl pr = Some l" "rank l \<le> Suc n2" "ending (wlMedium ns) l (wlMedium (pr_sim pr))"
      "plcEnv (pr_sim pr) = plcEnv ns \<and> wlEnv (pr_sim pr) = wlEnv ns \<and> (\<exists>l. pr_plc pr = Some l \<and> rank l \<le> n1 \<and> ending (plcMedium ns) l (plcMedium (pr_sim pr)))"
    by (auto simp: joining_def)
  from wireless.ending_step [OF l(4) assms(2)] l show ?thesis by (fastforce simp: act_def joining_def)
qed

lemma joining_exits:
  assumes "quiet k"
  shows "joining ns (count_list sched PlcThread) (count_list sched WlThread) pr \<Longrightarrow>
    \<exists>pr'. run_process k (sched @ [MainThread]) pr = Inr pr' \<and> exited ns pr'"
proof (induction sched arbitrary: pr)
  case Nil
  then have "waitForExit (pr_plc pr)" "waitForExit (pr_wl pr)"
    by (auto simp: joining_def waitForExit_def) (metis rank.simps(1,2) run_loc.exhaust zero_neq_numeral zero_neq_one)+
  then obtain pr' where "act k MainThread pr = Inr pr'" "exited ns pr'" using main_exits [OF Nil] by blast
  then show ?case by simp
next
  case (Cons a sched)
  show ?case
  proof (cases a)
    case MainThread
    show ?thesis
    proof (cases "waitForExit (pr_plc pr) \<and> waitForExit (pr_wl pr)")
      case True
      then obtain pr' where "act k MainThread pr = Inr pr'" "exited ns pr'" using main_exits [OF Cons.prems] by blast
      then show ?thesis using MainThread run_process_exited [of pr'] by (auto simp: exited_def)
    next
      case False
      then have "act k MainThread pr = Inr pr" using Cons.prems by (auto simp: act_def main_step_def joining_def)
      then show ?thesis using Cons MainThread by simp
    qed
  next
    case PlcThread
    then have "joining ns (Suc (count_list sched PlcThread)) (count_list sched WlThread) pr" using Cons.prems by simp
    from act_plc [OF this assms] obtain pr' where "act k PlcThread pr = Inr pr'" "joining ns (count_list sched PlcThread) (count_list sched WlThread) pr'" by blast
    then show ?thesis using Cons.IH PlcThread by simp
  next
    case WlThread
    then have "joining ns (count_list sched PlcThread) (Suc (count_list sched WlThread)) pr" using Cons.prems by simp
    from act_wl [OF this assms] obtain pr' where "act k WlThread pr = Inr pr'" "joining ns (count_list sched PlcThread) (count_list sched WlThread) pr'" by blast
    then show ?thesis using Cons.IH WlThread by simp
  next
    case (Signal sig)
    then obtain pr' where "act k a pr = Inr pr'" "joining ns (count_list sched PlcThread) (count_list sched WlThread) pr'"
      using Cons.prems by (cases sig) (auto simp: act_def joining_def sim_stop_def)
    then show ?thesis using Cons.IH by simp
  qed
qed

lemma ended_joins:
  assumes "process_reachable act_ok K pr" and "pr_main pr = Ended" and "pr_plc pr \<noteq> None" "pr_wl pr \<noteq> None"
  shows "\<exists>pr'. act k MainThread pr = Inr pr' \<and> joining (pr_sim pr) 2 2 pr'"
proof -
  have w: "wf (plcMedium (pr_sim pr))" "wf (wlMedium (pr_sim pr))"
    using process_placed [OF assms(1)] assms(2) powerline.placed_wf wireless.placed_wf by (auto simp: plc_def wl_def)
  have r: "rank l \<le> 2" for l by (cases l) simp_all
  then show ?thesis
    using assms(2-4) w by (auto simp: act_def main_step_def joining_def stop_media_def ending_def stop_def same_nodes_def)
qed

lemma signal_ends_accepting:
  assumes "pr_main pr = Accepting err" and "sig = SIGINT \<or> sig = SIGTERM"
    and "act k1 (Signal sig) pr = Inr pr1" and "act k2 MainThread pr1 = Inr pr2"
  shows "pr_main pr2 = Ended"
proof -
  have pr1: "pr_main pr1 = Accepting err" "ns_stop (pr_sim pr1)" using assms(1-3) by (auto simp: act_def sim_stop_def)
  then have a: "accept_step k2 err pr1 = Inr pr2" using assms(4) by (simp add: act_def main_step_def)
  show ?thesis
  proof (cases "start_round k2 err (pr_sim pr1)")
    case (Inl f)
    then show ?thesis using a by (cases f) (auto simp: accept_step_def)
  next
    case (Inr r)
    obtain again err' ns where r: "r = (again, err', ns)" by (cases r) auto
    then show ?thesis using a start_round_stop(2) [OF Inr [unfolded r] pr1(2)] Inr by (auto simp: accept_step_def)
  qed
qed


section \<open>Properties\<close>

text \<open>
  C5: the media of the process behave as the media alone. In every run of the process in which fresh addresses are given to new nodes, the polls of a medium's thread report only
  its nodes and no node leaves while it is on a list of its medium (\<open>act_ok\<close>), and else whatever the schedule, the signals and the kernel: in every state before the end of the process each medium is in a
  state that its thread reaches by orderly rounds, or in one from which its thread can begin, and satisfies its invariant. So all that the theories on
  media show of such states and their steps holds in the process.
\<close>

theorem process_media_reachable:
  assumes "process_reachable act_ok K pr" and "pr_main pr \<noteq> Exited"
  shows "(case pr_plc pr of Some l \<Rightarrow> reachable listed_stay powerline_txCollisionCheck (l, plcMedium (pr_sim pr))
      | None \<Rightarrow> \<forall>now. reachable listed_stay powerline_txCollisionCheck (run_start now (plcMedium (pr_sim pr))))
    \<and> (case pr_wl pr of Some l \<Rightarrow> reachable listed_stay wireless_txCollisionCheck (l, wlMedium (pr_sim pr))
      | None \<Rightarrow> \<forall>now. reachable listed_stay wireless_txCollisionCheck (run_start now (wlMedium (pr_sim pr))))
    \<and> wf (plcMedium (pr_sim pr)) \<and> wf (wlMedium (pr_sim pr))"
proof -
  have "placed powerline_txCollisionCheck (plc pr)" "placed wireless_txCollisionCheck (wl pr)"
    using process_placed [OF assms(1)] assms(2) by simp_all
  then show ?thesis
    using powerline.placed_wf wireless.placed_wf by (auto simp: plc_def wl_def split: option.splits)
qed

text \<open>
  C6: all that the process has sent. In every run in which new nodes get fresh addresses and no node leaves while it is on a list of its medium (\<open>act_ok\<close>), and in every
  state of it before the end of the process, everything that either medium has multicast since the beginning is a
  valid data indication with its frame inside and RSSI 127; and when no \<^verbatim>\<open>send\<close> fails, everything it has written to any socket is a sequence of whole
  valid messages of the types a simulator sends.
\<close>

theorem process_traffic:
  assumes "process_reachable act_ok K pr" and "pr_main pr \<noteq> Exited" and "m = plcMedium (pr_sim pr) \<or> m = wlMedium (pr_sim pr)"
  shows "(\<forall>f \<in> set (mcasts (io_out (sio m))). air_frame f)
    \<and> ((\<forall>k \<in> K. send_ok k) \<longrightarrow> (\<forall>fd. \<exists>fs. stream fd (io_out (sio m)) = concat fs \<and> (\<forall>f \<in> set fs. sim_frame f)))"
  using process_clean [OF assms(1)] assms(2,3) unfolding clean_air_def clean_sockets_def by blast

text \<open>
  C7: the process ends, from any state of a run that \<open>act_ok\<close> allows. After SIGINT or SIGTERM the next step of the main thread, if it does not fault, leaves the accept loop. When \<^verbatim>\<open>start\<close> has
  returned or thrown, both media's threads have begun (a stop before that can be lost) and no event
  arrives any more, the main thread stops the media and the process exits once both threads have made two steps, in whatever order
  the threads run and whatever signals arrive; no step of it faults. In the end both media are torn down: every node that was registering or registered has been deleted, once, and its socket
  closed, both maps are empty, no other object is touched, and the poller and the multicast socket of each medium are closed.
\<close>

theorem process_shutdown:
  assumes "process_reachable act_ok K pr" and "quiet k"
  shows "(\<forall>err sig k1 k2 pr1 pr2. pr_main pr = Accepting err \<and> sig \<in> {SIGINT, SIGTERM} \<and> act k1 (Signal sig) pr = Inr pr1
         \<and> act k2 MainThread pr1 = Inr pr2 \<longrightarrow> pr_main pr2 = Ended)
    \<and> (pr_main pr = Ended \<and> pr_plc pr \<noteq> None \<and> pr_wl pr \<noteq> None
         \<and> 2 \<le> count_list sched PlcThread \<and> 2 \<le> count_list sched WlThread \<longrightarrow>
         (\<exists>pr'. run_process k (MainThread # sched @ [MainThread]) pr = Inr pr' \<and> pr_main pr' = Exited
            \<and> torn_down (plcEnv (pr_sim pr)) (plcMedium (pr_sim pr)) (plcMedium (pr_sim pr'))
            \<and> torn_down (wlEnv (pr_sim pr)) (wlMedium (pr_sim pr)) (wlMedium (pr_sim pr'))))"
proof (intro conjI allI impI)
  fix err sig k1 k2 pr1 pr2
  assume "pr_main pr = Accepting err \<and> sig \<in> {SIGINT, SIGTERM} \<and> act k1 (Signal sig) pr = Inr pr1 \<and> act k2 MainThread pr1 = Inr pr2"
  then show "pr_main pr2 = Ended" using signal_ends_accepting by blast
next
  assume a: "pr_main pr = Ended \<and> pr_plc pr \<noteq> None \<and> pr_wl pr \<noteq> None \<and> 2 \<le> count_list sched PlcThread \<and> 2 \<le> count_list sched WlThread"
  then obtain pr1 where pr1: "act k MainThread pr = Inr pr1" "joining (pr_sim pr) 2 2 pr1" using ended_joins [OF assms(1)] by blast
  from pr1(2) a have "joining (pr_sim pr) (count_list sched PlcThread) (count_list sched WlThread) pr1"
    unfolding joining_def by (meson order_trans)
  then show "\<exists>pr'. run_process k (MainThread # sched @ [MainThread]) pr = Inr pr' \<and> pr_main pr' = Exited
      \<and> torn_down (plcEnv (pr_sim pr)) (plcMedium (pr_sim pr)) (plcMedium (pr_sim pr'))
      \<and> torn_down (wlEnv (pr_sim pr)) (wlMedium (pr_sim pr)) (wlMedium (pr_sim pr'))"
    using joining_exits [OF assms(2)] pr1(1) by (simp add: exited_def taken_down_def)
qed

text \<open>The main thread after its loop has ended with result \<open>r\<close>; \<open>left\<close> is the simulator that an exception leaves.\<close>

definition settled :: "process \<Rightarrow> NetworkSimulator \<Rightarrow> NetworkSimulator res \<Rightarrow> process res" where
  "settled pr left r =
     (case r of
        Inr ns \<Rightarrow> Inr (pr\<lparr>pr_main := Ended, pr_sim := ns\<rparr>)
      | Inl (Throw e) \<Rightarrow> Inr (pr\<lparr>pr_main := Ended, pr_sim := left\<rparr>)
      | Inl f \<Rightarrow> Inl f)"

lemma settled_frame: "settled (pr\<lparr>pr_main := x, pr_sim := y\<rparr>) left r = settled pr left r"
  by (simp add: settled_def split: sum.splits fault.splits)

text \<open>
  The steps of the main thread are \<^verbatim>\<open>start\<close>. When the loop of \<^verbatim>\<open>start\<close> ends within \<open>n\<close> rounds, at most \<open>n\<close> steps of the main thread alone lead to the
  same simulator, to the one that the exception leaves, or to the same fault.
\<close>

theorem main_thread_is_start:
  assumes "pr_main pr = Accepting err" and "start_loop n k err (pr_sim pr) = Some r"
  shows "\<exists>i \<le> n. run_process k (replicate i MainThread) pr = settled pr (start_left n k err (pr_sim pr)) r"
  using assms
proof (induction n arbitrary: err pr)
  case (Suc n)
  have a: "act k MainThread pr = accept_step k err pr" using Suc.prems(1) by (simp add: act_def main_step_def)
  then have one: "run_process k (replicate 1 MainThread) pr = accept_step k err pr" by (cases "accept_step k err pr") simp_all
  show ?case
  proof (cases "start_round k err (pr_sim pr)")
    case (Inl f)
    then show ?thesis using Suc.prems one by (intro exI [of _ 1]) (cases f; auto simp: accept_step_def settled_def)
  next
    case (Inr p)
    obtain again err' ns where p: "p = (again, err', ns)" by (cases p) auto
    show ?thesis
    proof (cases again)
      case False
      then show ?thesis using Suc.prems one Inr p by (intro exI [of _ 1]) (auto simp: accept_step_def settled_def)
    next
      case True
      let ?pr = "pr\<lparr>pr_main := Accepting err', pr_sim := ns\<rparr>"
      have "pr_main ?pr = Accepting err'" "start_loop n k err' (pr_sim ?pr) = Some r" using Suc.prems(2) Inr p True by simp_all
      from Suc.IH [OF this] obtain i where
        i: "i \<le> n" "run_process k (replicate i MainThread) ?pr = settled ?pr (start_left n k err' (pr_sim ?pr)) r" by blast
      have "act k MainThread pr = Inr ?pr" using a Inr p True by (simp add: accept_step_def)
      then have "run_process k (replicate (Suc i) MainThread) pr = settled pr (start_left (Suc n) k err (pr_sim pr)) r"
        using i(2) Inr p True by (simp add: settled_frame)
      with i(1) show ?thesis by (intro exI [of _ "Suc i"]) simp
    qed
  qed
qed simp


section \<open>A run\<close>

text \<open>A host on which the Hanadu server always has a client waiting.\<close>

definition demo_host :: kernel where
  "demo_host = ok_kernel\<lparr>k_socket := \<lambda>t. int (5 + t), k_select := \<lambda>t fds tmo. SelReady 1 [hd fds], k_accept := \<lambda>t fd. 60,
     k_new := \<lambda>t. if even t then 0x1000 else 0x2000\<rparr>"

lemma demo_host_ok: "send_ok demo_host" "timers_ok demo_host" "\<And>t fd. 0 \<le> k_epoll_ctl demo_host t fd" "quiet demo_host"
  using ok_kernel_send_ok ok_kernel_timers ok_kernel_epoll quiet_ok_kernel
  by (simp_all add: demo_host_def send_ok_def send_spec_def timers_ok_def quiet_def)

lemma demo_alloc: "untouched m \<Longrightarrow> alloc_ok demo_host m"
  by (auto simp: untouched_def alloc_ok_def fresh_def empty_medium_def demo_host_def)

lemma demo_init:
  "\<exists>pr hfd afd. process_init demo_host (\<lambda>c. Some (Timespec 0 1)) False = Inr pr \<and> pr_main pr = Accepting 0
    \<and> listening (pr_sim pr) hfd afd 3 \<and> hfd \<noteq> afd \<and> hfd \<noteq> 3 \<and> \<not> ns_stop (pr_sim pr)"
  by (simp add: process_init_def NetworkSimulator_new_def PowerlineMedium_new_def WirelessMedium_new_def PhysicalMedium_pimpl_def getUnblocker_def
        SocketUnblocker_new_def openPipes_def pipe_flag_def medium_start_def get_highres_clock_def resolution_def CLOCK_REALTIME_def demo_host_def
        ok_kernel_def Let_def sim_listen_def ServerSocket_new_def setup_server_def setBlocking_def setCloseOnExec_def setReuseAddress_def
        bindAnyAddress_def setPassive_def listening_def server_fd_def getReadPipe_def)

lemma untouched_stream: "untouched m \<Longrightarrow> stream fd (io_out (sio m)) = []"
  by (auto simp: untouched_def)

lemma demo_round:
  assumes "listening ns hfd afd 3" "hfd \<noteq> afd" "hfd \<noteq> 3"
  shows "\<exists>ns' sp. start_round demo_host err ns = Inr (\<not> ns_stop ns, 0, ns')
    \<and> stream 60 (io_out (sio (plcMedium ns'))) = stream 60 (io_out (sio (plcMedium ns))) @ registration_req_msg sp"
proof -
  let ?t = "io_tick (ns_io ns) + 2" and ?n = "ns\<lparr>acceptFdSet := [hfd, afd, 3], ns_io := tick (tick (ns_io ns))\<rparr>"
  have acc: "acceptConnections demo_host ns = Inr (ACCEPT_OK, 60, - 1, ?n)"
    using assms(2,3) by (simp add: acceptConnections_select [OF assms(1) refl refl] accept_ready_def Let_def demo_host_def)
  let ?sp = "k_new demo_host (Suc ?t)"
  have "?sp \<noteq> 0" by (simp add: demo_host_def)
  from join_succeeds [OF demo_host_ok(1-3) this, of "k_new demo_host ?t" 60 "plcMedium ns"] obtain m where
    m: "join demo_host (k_new demo_host ?t) ?sp 60 (plcMedium ns) = Inr m"
      "stream 60 (io_out (sio m)) = stream 60 (io_out (sio (plcMedium ns))) @ registration_req_msg ?sp" by auto
  have "add_clients demo_host 60 (- 1) ?n = Inr (?n\<lparr>plcMedium := m, ns_io := tick (tick (ns_io ?n))\<rparr>)"
    using m(1) by (simp add: add_clients_def add_client_def)
  then show ?thesis using acc m(2) by (auto simp: start_round_def)
qed

lemma demo_accepts:
  "\<exists>pr sp. process_reachable act_ok {demo_host} pr \<and> pr_main pr = Accepting 0
    \<and> stream 60 (io_out (sio (plcMedium (pr_sim pr)))) = registration_req_msg sp"
proof -
  obtain pr hfd afd where i: "process_init demo_host (\<lambda>c. Some (Timespec 0 1)) False = Inr pr" and pr: "pr_main pr = Accepting 0"
      "listening (pr_sim pr) hfd afd 3" "hfd \<noteq> afd" "hfd \<noteq> 3" "\<not> ns_stop (pr_sim pr)" using demo_init by blast
  note u = process_init_media [OF i]
  obtain ns sp where ns: "start_round demo_host 0 (pr_sim pr) = Inr (True, 0, ns)"
      "stream 60 (io_out (sio (plcMedium ns))) = registration_req_msg sp"
    using demo_round [OF pr(2-4), of 0] pr(5) u untouched_stream by auto
  let ?pr = "pr\<lparr>pr_main := Accepting 0, pr_sim := ns\<rparr>"
  have "act demo_host MainThread pr = Inr ?pr" using pr(1) ns(1) by (simp add: act_def main_step_def accept_step_def)
  moreover have "process_reachable act_ok {demo_host} pr" using i by (intro process_reachable.Init) simp_all
  moreover have "act_ok demo_host MainThread pr" using u demo_alloc by simp
  ultimately have "process_reachable act_ok {demo_host} ?pr" using process_reachable.Act by blast
  then show ?thesis using ns(2) by (intro exI [of _ ?pr]) auto
qed

lemma demo_ends:
  "\<exists>pr. process_reachable act_ok {demo_host} pr \<and> pr_main pr = Ended \<and> pr_plc pr = Some Outer \<and> pr_wl pr = Some Outer"
proof -
  obtain pr hfd afd where i: "process_init demo_host (\<lambda>c. Some (Timespec 0 1)) False = Inr pr" and pr: "pr_main pr = Accepting 0"
      "listening (pr_sim pr) hfd afd 3" "hfd \<noteq> afd" "hfd \<noteq> 3" using demo_init by blast
  note u = process_init_media [OF i]
  define m1 where "m1 = (plcMedium (pr_sim pr))\<lparr>pm_state := IDLE, curTime := Timespec 0 0\<rparr>"
  define m2 where "m2 = (wlMedium (pr_sim pr))\<lparr>pm_state := IDLE, curTime := Timespec 0 0\<rparr>"
  let ?p1 = "pr\<lparr>pr_plc := Some Outer, pr_sim := (pr_sim pr)\<lparr>plcMedium := m1\<rparr>\<rparr>"
  let ?p2 = "?p1\<lparr>pr_wl := Some Outer, pr_sim := (pr_sim pr)\<lparr>plcMedium := m1, wlMedium := m2\<rparr>\<rparr>"
  let ?p3 = "?p2\<lparr>pr_sim := sim_stop demo_host (pr_sim ?p2)\<rparr>"
  have "k_clock_gettime demo_host t = Some (Timespec 0 0)" for t by (simp add: demo_host_def ok_kernel_def)
  then have a: "act demo_host PlcThread pr = Inr ?p1" "act demo_host WlThread ?p1 = Inr ?p2" "act demo_host (Signal SIGTERM) ?p2 = Inr ?p3"
    using pr(1) u by (simp_all add: act_def thread_step_def run_init_def run_start_def m1_def m2_def)
  have "process_reachable act_ok {demo_host} pr" using i by (intro process_reachable.Init) simp_all
  then have "process_reachable act_ok {demo_host} ?p1" using process_reachable.Act [OF _ _ _ a(1)] u by simp
  then have "process_reachable act_ok {demo_host} ?p2" using process_reachable.Act [OF _ _ _ a(2)] u by simp
  then have r3: "process_reachable act_ok {demo_host} ?p3" using process_reachable.Act [OF _ _ _ a(3)] by simp
  have "alloc_ok demo_host m1" "alloc_ok demo_host m2"
    using demo_alloc [of "plcMedium (pr_sim pr)"] demo_alloc [of "wlMedium (pr_sim pr)"] u by (simp_all add: m1_def m2_def alloc_ok_def fresh_def)
  then have ok: "act_ok demo_host MainThread ?p3" by (simp add: sim_stop_def)
  have "listening (pr_sim ?p3) hfd afd 3" using pr(2) by (simp add: listening_def sim_stop_def)
  from demo_round [OF this pr(3,4)] obtain ns where "start_round demo_host 0 (pr_sim ?p3) = Inr (False, 0, ns)"
    by (auto simp: sim_stop_def)
  then have "act demo_host MainThread ?p3 = Inr (?p3\<lparr>pr_main := Ended, pr_sim := delete_servers ns\<rparr>)"
    using pr(1) by (simp add: act_def main_step_def accept_step_def)
  from process_reachable.Act [OF r3 _ ok this] show ?thesis
    by (intro exI [of _ "?p3\<lparr>pr_main := Ended, pr_sim := delete_servers ns\<rparr>"]) simp
qed

theorem process_media_reachable_witness:
  "\<exists>pr sp. process_reachable act_ok {demo_host} pr \<and> stream 60 (io_out (sio (plcMedium (pr_sim pr)))) = registration_req_msg sp
    \<and> wf (plcMedium (pr_sim pr)) \<and> wf (wlMedium (pr_sim pr))"
  using demo_accepts process_media_reachable [of "{demo_host}"] by (metis main_loc.distinct(5))

theorem process_traffic_witness:
  "\<exists>pr sp fs. process_reachable act_ok {demo_host} pr \<and> stream 60 (io_out (sio (plcMedium (pr_sim pr)))) = concat fs
    \<and> concat fs = registration_req_msg sp \<and> (\<forall>f \<in> set fs. sim_frame f)"
proof -
  obtain pr sp where pr: "process_reachable act_ok {demo_host} pr" "pr_main pr = Accepting 0"
      "stream 60 (io_out (sio (plcMedium (pr_sim pr)))) = registration_req_msg sp" using demo_accepts by blast
  moreover obtain fs where "stream 60 (io_out (sio (plcMedium (pr_sim pr)))) = concat fs" "\<forall>f \<in> set fs. sim_frame f"
    using process_traffic [OF pr(1), of "plcMedium (pr_sim pr)"] pr(2) demo_host_ok(1) by (metis main_loc.distinct(5) singletonD)
  ultimately show ?thesis by metis
qed

theorem process_shutdown_witness:
  "\<exists>pr pr'. process_reachable act_ok {demo_host} pr \<and> pr_main pr = Ended
    \<and> run_process demo_host [MainThread, PlcThread, WlThread, PlcThread, MainThread, WlThread, MainThread] pr = Inr pr' \<and> pr_main pr' = Exited"
proof -
  obtain pr where pr: "process_reachable act_ok {demo_host} pr" "pr_main pr = Ended" "pr_plc pr = Some Outer" "pr_wl pr = Some Outer"
    using demo_ends by blast
  let ?sched = "[PlcThread, WlThread, PlcThread, MainThread, WlThread]"
  have "\<exists>pr'. run_process demo_host (MainThread # ?sched @ [MainThread]) pr = Inr pr' \<and> pr_main pr' = Exited"
    using process_shutdown [OF pr(1) demo_host_ok(4), of ?sched] pr(2-4) by (auto simp del: run_process.simps append.simps)
  then show ?thesis using pr(1,2) by auto
qed

theorem main_thread_is_start_witness:
  "\<exists>(pr :: process) ns i. i \<le> 1 \<and> pr_main pr = Accepting 0 \<and> run_process demo_host (replicate i MainThread) pr = Inr (pr\<lparr>pr_main := Ended, pr_sim := ns\<rparr>)"
proof -
  obtain pr :: process and hfd afd where pr: "pr_main pr = Accepting 0" "listening (pr_sim pr) hfd afd 3" "hfd \<noteq> afd" "hfd \<noteq> 3" using demo_init by blast
  let ?pr = "pr\<lparr>pr_sim := (pr_sim pr)\<lparr>ns_stop := True\<rparr>\<rparr>"
  have l: "listening (pr_sim ?pr) hfd afd 3" using pr(2) by (simp add: listening_def)
  obtain ns where "start_round demo_host 0 (pr_sim ?pr) = Inr (False, 0, ns)" using demo_round [OF l pr(3,4), of 0] by auto
  then have "start_loop 1 demo_host 0 (pr_sim ?pr) = Some (Inr (delete_servers ns))" by simp
  from main_thread_is_start [OF _ this] pr(1) show ?thesis
    by (intro exI [of _ ?pr] exI [of _ "delete_servers ns"]) (simp add: settled_def)
qed

end
