(* ===== verification/Node_Messages.thy ===== *)
theory Node_Messages
  imports Medium_Loop
begin

text \<open>
  \<^verbatim>\<open>DeviceNode::readMsg\<close> on a message that arrives whole: the message it acts on, which messages it
  accepts, and which it ignores. \<open>on_message\<close> is its behaviour as a function of the message.
\<close>

section \<open>A message that arrives whole\<close>

text \<open>
  \<open>delivers\<close>: the two calls of \<^verbatim>\<open>recv\<close> in \<^verbatim>\<open>readMsg\<close> give the first two bytes of \<open>m\<close> and the rest.
  \<open>well_sized\<close>: the length field is the length of the message, and there is a header.
\<close>

definition delivers :: "kernel \<Rightarrow> io \<Rightarrow> int \<Rightarrow> byte list \<Rightarrow> bool" where
  "delivers k w fd m \<longleftrightarrow> k_recv k (io_tick w) fd 2 = RecvData (take 2 m)
     \<and> length (k_malloc k (Suc (io_tick w)) (length m)) = length m
     \<and> k_recv k (Suc (Suc (io_tick w))) fd (int (length m) - 2) = RecvData (drop 2 m)"

definition well_sized :: "byte list \<Rightarrow> bool" where
  "well_sized m \<longleftrightarrow> HDR_SZ \<le> length m \<and> length m \<le> 65535 \<and> unat (ntohs (hdr_len (hdr_of m))) = length m"

lemma valid_well_sized: "valid_frame i t m \<Longrightarrow> well_sized m"
  by (simp add: valid_frame_def well_sized_def)

text \<open>
  The lengths that \<^verbatim>\<open>assert(len >= sizeof(hdr))\<close> accepts: it compares the length field in network byte order
  with the size of a pointer.
\<close>

definition len_passes :: "nat \<Rightarrow> bool" where
  "len_passes n \<longleftrightarrow> \<not> (256 dvd n \<and> n < 2048)"

lemma well_sized_bytes:
  assumes "well_sized m"
  obtains a b r where "m = a # b # r" "length m = 256 * unat a + unat b" "16 \<le> length r"
    "8 \<le> unat (of_le_bytes (take 2 m) :: u16) \<longleftrightarrow> len_passes (length m)"
proof -
  have "2 \<le> length m" using assms by (simp add: well_sized_def size_defs)
  then obtain a b r where m: "m = a # b # r" by (auto simp: Suc_le_length_iff numeral_2_eq_2)
  have l: "length m = 256 * unat a + unat b"
    using assms len_field_high_byte [of a b] by (simp add: well_sized_def hdr_of_def get_def m del: of_le_bytes.simps)
  have raw: "unat (of_le_bytes (take 2 m) :: u16) = unat a + 256 * unat b"
    by (simp add: m unat_le_word del: of_le_bytes.simps)
  have ab: "unat a < 256" "unat b < 256" by (rule unat_byte_less)+
  have "8 \<le> unat a + 256 * unat b \<longleftrightarrow> \<not> (unat b = 0 \<and> unat a < 8)" by auto
  moreover have "256 dvd 256 * unat a + unat b \<longleftrightarrow> unat b = 0"
    using ab(2) by (metis dvd_add_right_iff dvd_triv_left mod_less dvd_eq_mod_eq_0)
  moreover have "unat b = 0 \<Longrightarrow> 256 * unat a + unat b < 2048 \<longleftrightarrow> unat a < 8" by auto
  ultimately have "8 \<le> unat (of_le_bytes (take 2 m) :: u16) \<longleftrightarrow> len_passes (length m)"
    unfolding raw l len_passes_def by blast
  then show thesis using m l assms by (intro that) (auto simp: well_sized_def size_defs)
qed

lemma well_sized_ntohs:
  assumes "well_sized m"
  shows "unat (ntohs (of_le_bytes (take 2 m))) = length m" "le_bytes 2 (htons (ntohs (of_le_bytes (take 2 m) :: u16))) = take 2 m"
proof -
  have 2: "2 \<le> length m" using assms by (simp add: well_sized_def size_defs)
  show "unat (ntohs (of_le_bytes (take 2 m))) = length m"
    using assms by (simp add: well_sized_def hdr_of_def get_def)
  show "le_bytes 2 (htons (ntohs (of_le_bytes (take 2 m) :: u16))) = take 2 m"
    using 2 by (simp add: le_bytes_of_le_bytes)
qed

text \<open>What \<^verbatim>\<open>readMsg\<close> does with a message, as a function of the message.\<close>

definition on_message :: "kernel \<Rightarrow> nptr \<Rightarrow> byte list \<Rightarrow> sys \<Rightarrow> sys res" where
  "on_message k p m s =
     (if generate_checksum (clear_cksum m) \<noteq> rx_cksum m then Inr s
      else bindE (node p s) (\<lambda>n.
           bindE (assertE ''nodeId == (uint64_t)pimpl->socket'' (ntohll (hdr_node_id (hdr_of m)) = socket_ptr n)) (\<lambda>_.
           if ntohl (hdr_interface_version (hdr_of m)) \<noteq> NETSIM_INTERFACE_VERSION then Inr s
           else dispatch k p (ntohs (hdr_msg_type (hdr_of m))) (clear_cksum m) s)))"

lemma process_msg_eq:
  assumes "well_sized m" and "length junk = length m"
  shows "process_msg k p (ntohs (of_le_bytes (take 2 m))) (put 2 (drop 2 m) junk) s = on_message k p m s"
proof -
  have 18: "18 \<le> length m" using assms(1) by (simp add: well_sized_def size_defs)
  let ?b = "put 2 (drop 2 m) junk"
  have lb: "length ?b = length m" using 18 assms(2) by simp
  have g: "get off n ?b = get off n m" if "2 \<le> off" for off n
  proof -
    have "Suc (Suc (off - 2)) = off" using that by simp
    then show ?thesis using that 18 assms(2) by (simp add: get_def put_def)
  qed
  have rx: "rx_cksum ?b = rx_cksum m" using g by (simp add: rx_cksum_def size_defs)
  have drop_clear: "drop 2 (clear_cksum b) = take 14 (drop 2 b) @ le_bytes 2 (0 :: u16) @ drop 16 (drop 2 b)"
    if "18 \<le> length b" for b
    using that by (simp add: clear_cksum_def put_def size_defs drop_take)
  have db: "drop 2 ?b = drop 2 m" using 18 assms(2) by (simp add: put_def)
  have "drop 2 (clear_cksum ?b) = drop 2 (clear_cksum m)"
    using drop_clear [of ?b] drop_clear [of m] 18 lb by (simp only: db)
  moreover have "take 2 (clear_cksum m) = take 2 m" using 18 by (simp add: clear_cksum_def put_def size_defs)
  moreover have "put 0 (take 2 m) c = take 2 m @ drop 2 c" for c
    using 18 by (simp add: put_def min_absorb2 numeral_2_eq_2)
  ultimately have d: "put 0 (take 2 m) (clear_cksum ?b) = clear_cksum m"
    by (metis append_take_drop_id)
  have hd: "get off n (clear_cksum m) = get off n m" if "off + n \<le> 16" for off n
    using that 18 by (simp add: clear_cksum_def size_defs get_put_before)
  show ?thesis
    using 18 lb rx d hd well_sized_ntohs(2) [OF assms(1)]
    by (simp add: process_msg_def on_message_def size_defs Let_def hdr_of_def)
qed

lemma readMsg_delivered:
  assumes "heap s p = Some n" and "delivers k (sio s) (sock_fd (dn_socket n)) m" and "well_sized m"
  shows "readMsg k p s =
    (if len_passes (length m) then on_message k p m (s\<lparr>sio := tick (tick (tick (sio s)))\<rparr>)
     else Inl (Assert ''len >= sizeof(hdr)''))"
proof -
  have 18: "18 \<le> length m" "length m \<le> 65535" using assms(3) by (simp_all add: well_sized_def size_defs)
  have pass: "8 \<le> unat (of_le_bytes (take 2 m) :: u16) \<longleftrightarrow> len_passes (length m)"
    by (rule well_sized_bytes [OF assms(3)])
  have len: "unat (ntohs (of_le_bytes (take 2 m))) = length m" using well_sized_ntohs(1) [OF assms(3)] .
  have "(int (length m) - 2) mod 2 ^ 64 = int (length m) - 2" "\<not> length m < Suc (Suc (length m - 2))" using 18 by auto
  then have body: "read_body k p (sock_fd (dn_socket n)) (ntohs (of_le_bytes (take 2 m))) (s\<lparr>sio := tick (sio s)\<rparr>) =
      on_message k p m (s\<lparr>sio := tick (tick (tick (sio s)))\<rparr>)"
    using assms(2) 18 process_msg_eq [OF assms(3)] unfolding delivers_def
    by (simp add: read_body_def len Let_def EAGAIN_def)
  have "recv_rv (k_recv k (io_tick (sio s)) (sock_fd (dn_socket n)) 2) = 2"
      "recv_bytes (k_recv k (io_tick (sio s)) (sock_fd (dn_socket n)) 2) = take 2 m"
    using assms(2) 18 by (simp_all add: delivers_def)
  then show ?thesis
    using assms(1) pass body by (simp add: readMsg_def Let_def EAGAIN_def)
qed


section \<open>Properties\<close>

text \<open>
  C12: a valid message that arrives whole is accepted: \<^verbatim>\<open>readMsg\<close> acts on its type with the message as
  received except for the blanked checksum. The exception is a length that is a multiple of 256 below 2048, such as
  \<open>NETSIM_PKT_MAX_SZ\<close> itself: then the length assertion fails although the message is valid, because the assertion reads
  the length before it is converted to host byte order.
\<close>

theorem readMsg_accepts_valid:
  assumes "heap s p = Some n" and "delivers k (sio s) (sock_fd (dn_socket n)) m" and "valid_frame (socket_ptr n) t m"
  shows "(len_passes (length m) \<longrightarrow>
       readMsg k p s = dispatch k p (msg_type_val t) (clear_cksum m) (s\<lparr>sio := tick (tick (tick (sio s)))\<rparr>))
    \<and> (\<not> len_passes (length m) \<longrightarrow> readMsg k p s = Inl (Assert ''len >= sizeof(hdr)''))
    \<and> \<not> len_passes NETSIM_PKT_MAX_SZ"
  using readMsg_delivered [OF assms(1,2) valid_well_sized [OF assms(3)]] assms(1,3)
  by (simp add: on_message_def valid_frame_def len_passes_def NETSIM_PKT_MAX_SZ_def)

text \<open>A kernel that delivers one message.\<close>

definition delivering :: "byte list \<Rightarrow> kernel" where
  "delivering m = ok_kernel\<lparr>k_recv := \<lambda>t fd n. if n = 2 then RecvData (take 2 m) else RecvData (drop 2 m)\<rparr>"

lemma delivering_delivers: "length m \<noteq> 4 \<Longrightarrow> delivers (delivering m) w fd m"
  by (auto simp: delivers_def delivering_def ok_kernel_def)

theorem readMsg_accepts_valid_witness:
  "readMsg (delivering sample_msg) 0x1000 one_registered =
     dispatch (delivering sample_msg) 0x1000 (msg_type_val MSG_TYPE_TX_DATA_IND) (clear_cksum sample_msg)
       (one_registered\<lparr>sio := tick (tick (tick (sio one_registered)))\<rparr>)"
proof -
  obtain n where n: "heap one_registered 0x1000 = Some n" "socket_ptr n = 0x2000"
    using one_joined_node by (auto simp: one_registered_def confirmed_def)
  have "delivers (delivering sample_msg) (sio one_registered) (sock_fd (dn_socket n)) sample_msg"
    by (rule delivering_delivers) (simp add: sample_msg_valid(2))
  moreover have "len_passes 37" by (simp add: len_passes_def)
  ultimately show ?thesis
    using readMsg_accepts_valid [OF n(1), of "delivering sample_msg" sample_msg MSG_TYPE_TX_DATA_IND] sample_msg_valid n(2)
    by simp
qed

text \<open>
  C31: messages that are not acted on. A message with a wrong checksum, with the right checksum and node id but
  another interface version, or with a type that a node does not send, changes nothing: \<^verbatim>\<open>readMsg\<close> returns with only
  the input consumed. A message with a right checksum that names another node fails an assertion.
\<close>

theorem readMsg_refuses:
  assumes "heap s p = Some n" and "delivers k (sio s) (sock_fd (dn_socket n)) m" and "well_sized m" "len_passes (length m)"
    and "s1 = s\<lparr>sio := tick (tick (tick (sio s)))\<rparr>"
  shows "(rx_cksum m \<noteq> generate_checksum (clear_cksum m) \<longrightarrow> readMsg k p s = Inr s1)
    \<and> (rx_cksum m = generate_checksum (clear_cksum m) \<and> ntohll (hdr_node_id (hdr_of m)) \<noteq> socket_ptr n \<longrightarrow>
         readMsg k p s = Inl (Assert ''nodeId == (uint64_t)pimpl->socket''))
    \<and> (ntohll (hdr_node_id (hdr_of m)) = socket_ptr n \<and>
         ntohl (hdr_interface_version (hdr_of m)) \<noteq> NETSIM_INTERFACE_VERSION \<longrightarrow> readMsg k p s = Inr s1)
    \<and> (ntohll (hdr_node_id (hdr_of m)) = socket_ptr n \<and>
         ntohs (hdr_msg_type (hdr_of m)) \<notin> msg_type_val ` {MSG_TYPE_REG_CON, MSG_TYPE_DEREG_REQ, MSG_TYPE_CCA_REQ, MSG_TYPE_TX_DATA_IND}
         \<longrightarrow> readMsg k p s = Inr s1)"
proof -
  have "readMsg k p s = on_message k p m s1" using readMsg_delivered [OF assms(1-3)] assms(4,5) by simp
  moreover have "heap s1 p = Some n" using assms(1,5) by simp
  ultimately show ?thesis by (simp add: on_message_def dispatch_def)
qed

text \<open>A valid message of a type that only the simulator sends.\<close>

theorem readMsg_refuses_witness:
  "\<exists>m s1. readMsg (delivering m) 0x1000 one_registered = Inr s1 \<and> heap s1 = heap one_registered
    \<and> txList s1 = txList one_registered"
proof -
  obtain n where n: "heap one_registered 0x1000 = Some n" "socket_ptr n = 0x2000"
    using one_joined_node by (auto simp: one_registered_def confirmed_def)
  let ?h = "(new_hdr 18 MSG_TYPE_REG_REQ 0x2000)"
  let ?m = "mem_hdr (seal mem_hdr (\<lambda>f. f) ?h)"
  have v: "valid_frame 0x2000 MSG_TYPE_REG_REQ ?m"
    by (rule hdr_only.seal_valid) (simp_all add: new_hdr_def)
  have l: "length ?m = 18" using hdr_only.length_mem [of "seal mem_hdr (\<lambda>f. f) ?h"] by simp
  have "delivers (delivering ?m) (sio one_registered) (sock_fd (dn_socket n)) ?m"
    by (rule delivering_delivers) (simp add: l)
  moreover have "ntohs (hdr_msg_type (hdr_of ?m)) = msg_type_val MSG_TYPE_REG_REQ" "ntohll (hdr_node_id (hdr_of ?m)) = 0x2000"
    using v by (simp_all add: valid_frame_def)
  moreover have "len_passes (length ?m)" by (simp add: l len_passes_def)
  ultimately have "readMsg (delivering ?m) 0x1000 one_registered =
      Inr (one_registered\<lparr>sio := tick (tick (tick (sio one_registered)))\<rparr>)"
    using readMsg_refuses [OF n(1) _ valid_well_sized [OF v] _ refl, of "delivering ?m"] n(2) by simp
  then show ?thesis by (intro exI [of _ ?m]) simp
qed

end
