(* ===== verification/Node_Client.thy ===== *)
theory Node_Client
  imports Node_Messages
begin

text \<open>
  The client of the protocol, \<^verbatim>\<open>src/test/nodesim/common.cpp\<close>: a simulated node that connects to the simulator,
  registers and sends requests, and the program \<^verbatim>\<open>TxOnePacket.cpp\<close> that uses it. Its \<^verbatim>\<open>generate_checksum\<close> is the same code as the simulator's. The last section
  runs the two ends of the protocol against each other.
\<close>

section \<open>The client\<close>

record NodeSim =
  cl_sockfd :: int
  cl_nodeId :: u64
  replyBuffer :: "byte list"
  rxmcast_sockfd :: int

text \<open>The group address 224.1.1.1 in network byte order.\<close>

definition MCAST_GROUP :: int where "MCAST_GROUP = 0x010101E0"

definition mcastInit :: "kernel \<Rightarrow> io \<Rightarrow> (int \<times> io) res" where
  "mcastInit k w =
     (let fd = k_socket k (io_tick w); w1 = tick w
      in if k_setsockopt k (io_tick w1) fd 1 < 0 then Inl (Throw ''Setting SO_REUSEADDR error'')
         else let w2 = tick w1
              in if k_bind k (io_tick w2) fd (htons (word_of_int HANADU_MCAST_TX_PORT)) < 0
                 then Inl (Throw ''Error binding rx multicast socket'')
                 else let w3 = tick w2
                      in if k_setsockopt k (io_tick w3) fd MCAST_GROUP < 0
                         then Inl (Throw ''Setting IP_ADD_MEMBERSHIP error'')
                         else Inr (fd, tick w3))"

text \<open>The members of \<^verbatim>\<open>NodeSim_pimpl\<close>; the bytes of \<^verbatim>\<open>replyBuffer\<close> are whatever the allocator returns.\<close>

definition NodeSim_new :: "kernel \<Rightarrow> io \<Rightarrow> (NodeSim \<times> io) res" where
  "NodeSim_new k w =
     bindE (mcastInit k (tick w)) (\<lambda>(fd, w1).
     Inr (\<lparr> cl_sockfd = - 1, cl_nodeId = - 1, replyBuffer = k_malloc k (io_tick w) 256, rxmcast_sockfd = fd \<rparr>, w1))"

definition NodeSim_delete :: "NodeSim \<Rightarrow> io \<Rightarrow> io" where
  "NodeSim_delete c w = emit (CloseFd (rxmcast_sockfd c)) (tick w)"

text \<open>\<open>conn\<close> is \<^verbatim>\<open>connect\<close> on the given descriptor.\<close>

definition connectNetSim :: "kernel \<Rightarrow> (nat \<Rightarrow> int \<Rightarrow> int) \<Rightarrow> NodeSim \<Rightarrow> io \<Rightarrow> (NodeSim \<times> io) res" where
  "connectNetSim k conn c w =
     (let fd = k_socket k (io_tick w); w1 = tick w
      in if fd < 0 then Inl (Throw (''socket() failed'' @ [CHR 0x0A]))
         else if conn (io_tick w1) fd < 0 then Inl (Throw ''connect failed. Error'')
         else Inr (c\<lparr>cl_sockfd := fd\<rparr>, tick w1))"

text \<open>The client sends with one call of \<^verbatim>\<open>send\<close>, whose result it ignores.\<close>

definition client_send :: "kernel \<Rightarrow> NodeSim \<Rightarrow> byte list \<Rightarrow> io \<Rightarrow> io" where
  "client_send k c m w =
     (let n = k_send k (io_tick w) (cl_sockfd c) m
      in if n < 0 then tick w else emit (SockData (cl_sockfd c) (take (nat n) m)) (tick w))"

text \<open>\<^verbatim>\<open>memset\<close> and \<^verbatim>\<open>strcpy\<close> into an array of \<^verbatim>\<open>n\<close> characters.\<close>

definition padded :: "nat \<Rightarrow> string \<Rightarrow> byte list" where
  "padded n str = map (\<lambda>c. of_char c) str @ replicate (n - length str) 0"

definition reg_con_msg :: "u64 \<Rightarrow> byte list" where
  "reg_con_msg nodeId =
     mem_registration_con (seal mem_registration_con rc_hdr_update
       \<lparr> rc_hdr = new_hdr REG_CON_SZ MSG_TYPE_REG_CON nodeId, rc_os = padded 32 ''linux'', rc_os_version = padded 32 ''4.1.0 rc4'' \<rparr>)"

definition sendRegCon :: "kernel \<Rightarrow> NodeSim \<Rightarrow> io \<Rightarrow> io" where
  "sendRegCon k c w = client_send k c (reg_con_msg (cl_nodeId c)) w"

definition dereg_req_msg :: "u64 \<Rightarrow> byte list" where
  "dereg_req_msg nodeId = mem_hdr (seal mem_hdr (\<lambda>f. f) (new_hdr HDR_SZ MSG_TYPE_DEREG_REQ nodeId))"

definition sendDeregReq :: "kernel \<Rightarrow> NodeSim \<Rightarrow> io \<Rightarrow> io" where
  "sendDeregReq k c w = client_send k c (dereg_req_msg (cl_nodeId c)) w"

definition cca_req_msg :: "u64 \<Rightarrow> byte list" where
  "cca_req_msg nodeId = mem_hdr (seal mem_hdr (\<lambda>f. f) (new_hdr HDR_SZ MSG_TYPE_CCA_REQ nodeId))"

definition sendCcaReq :: "kernel \<Rightarrow> NodeSim \<Rightarrow> io \<Rightarrow> io" where
  "sendCcaReq k c w = client_send k c (cca_req_msg (cl_nodeId c)) w"

text \<open>
  The data indication of \<^verbatim>\<open>sendTxDataInd\<close>; \<open>extra\<close> is \<^verbatim>\<open>extra_hdr\<close>, which the source leaves as \<^verbatim>\<open>malloc\<close> returned it.
  The power is stored negated. The length field keeps 16 bits of the length.
\<close>

definition tx_data_ind_msg :: "u64 \<Rightarrow> u16 \<Rightarrow> u64 \<Rightarrow> u16 \<Rightarrow> byte \<Rightarrow> byte \<Rightarrow> byte \<Rightarrow> byte list" where
  "tx_data_ind_msg nodeId extra sourceAddr psduLen repCode txPower ccaMode =
     mem_data_ind (seal mem_data_ind di_hdr_update
       \<lparr> di_hdr = new_hdr (DATA_IND_SZ - 1 + unat psduLen) MSG_TYPE_TX_DATA_IND nodeId,
         di_source_addr = htonll sourceAddr, di_psdu_len = htons psduLen, di_extra_hdr = extra,
         di_rep_code = repCode, di_tx_power = - txPower, di_cca_mode = ccaMode, di_rssi = 0,
         di_pktData = map of_nat [0..<unat psduLen] \<rparr>)"

definition sendTxDataInd ::
  "kernel \<Rightarrow> NodeSim \<Rightarrow> u64 \<Rightarrow> u16 \<Rightarrow> byte \<Rightarrow> byte \<Rightarrow> byte \<Rightarrow> io \<Rightarrow> io" where
  "sendTxDataInd k c sourceAddr psduLen repCode txPower ccaMode w =
     (let block = k_malloc k (io_tick w) (DATA_IND_SZ - 1 + unat psduLen);
          extra = of_le_bytes (get 28 2 block)
      in client_send k c (tx_data_ind_msg (cl_nodeId c) extra sourceAddr psduLen repCode txPower ccaMode) (tick w))"

text \<open>
  \<^verbatim>\<open>NodeSim::readMsg\<close>: the message is read over the old contents of the buffer and its checksum taken over the bytes read.
\<close>

definition client_readMsg :: "kernel \<Rightarrow> NodeSim \<Rightarrow> io \<Rightarrow> (NodeSim \<times> io) res" where
  "client_readMsg k c w =
     (case k_recv k (io_tick w) (cl_sockfd c) 128 of
        RecvErr e \<Rightarrow> Inl (Throw ''recv failed'')
      | RecvData bs \<Rightarrow>
          let buf = put 0 bs (replyBuffer c);
              cksum = rx_cksum buf;
              buf1 = clear_cksum buf;
              t = ntohs (hdr_msg_type (hdr_of buf1));
              c1 = c\<lparr>replyBuffer := buf1\<rparr>
          in bindE (assertE ''calculated_cksum == cksum'' (generate_checksum (take (length bs) buf1) = cksum)) (\<lambda>_.
             if t = msg_type_val MSG_TYPE_REG_REQ then Inr (c1\<lparr>cl_nodeId := ntohll (hdr_node_id (hdr_of buf1))\<rparr>, tick w)
             else if t \<in> msg_type_val ` {MSG_TYPE_DEREG_REQ, MSG_TYPE_DEREG_CON, MSG_TYPE_CCA_CON, MSG_TYPE_TX_DATA_IND,
                 MSG_TYPE_TX_DONE_IND}
             then Inr (c1, tick w)
             else Inl (Throw ''Invalid received msg type'')))"

text \<open>
  \<^verbatim>\<open>mcastRxDataPacket\<close>: the frame bytes it prints, or nothing. Bytes of the 256-byte block after the datagram are what \<^verbatim>\<open>malloc\<close>
  returned; printing past the block is a read out of bounds. A failed \<^verbatim>\<open>recv\<close> with another error than \<^verbatim>\<open>EAGAIN\<close> goes on.
\<close>

definition mcastRxDataPacket :: "kernel \<Rightarrow> NodeSim \<Rightarrow> io \<Rightarrow> (byte list \<times> io) res" where
  "mcastRxDataPacket k c w =
     (let block = k_malloc k (io_tick w) 256; r = k_recv k (Suc (io_tick w)) (rxmcast_sockfd c) 256; w1 = tick (tick w);
          print = (\<lambda>buf. let n = unat (ntohs (of_le_bytes (get PSDU_LEN_OFF 2 buf)))
             in if PKTDATA_OFF + n \<le> 256 then Inr (get PKTDATA_OFF n buf, w1) else Inl (MemErr ''pktData: read past rxbuf''))
      in case r of
           RecvErr e \<Rightarrow> if e = EAGAIN then Inr ([], w1) else print block
         | RecvData bs \<Rightarrow> if bs = [] then Inr ([], w1) else print (put 0 bs block))"

text \<open>
  The program \<^verbatim>\<open>TxOnePacket\<close>: register, ask for a clear channel, send one frame and read the answers. An exception ends it, and it does not look at the answers.
  The result is the frame it prints at the end, before it exits with success.
\<close>

definition tx_one_packet :: "kernel \<Rightarrow> (nat \<Rightarrow> int \<Rightarrow> int) \<Rightarrow> io \<Rightarrow> (byte list \<times> io) res" where
  "tx_one_packet k conn w =
     bindE (NodeSim_new k w) (\<lambda>(c0, w0).
     bindE (connectNetSim k conn c0 w0) (\<lambda>(c1, w1).
     bindE (client_readMsg k c1 w1) (\<lambda>(c2, w2).
     let w3 = tick (sendRegCon k c2 w2);
         w4 = sendCcaReq k c2 w3
     in bindE (client_readMsg k c2 w4) (\<lambda>(c3, w5).
        let w6 = tick (sendTxDataInd k c3 0x0102030405060708 32 48 (- 10) 4 w5)
        in bindE (client_readMsg k c3 w6) (\<lambda>(c4, w7).
           mcastRxDataPacket k c4 w7)))))"

section \<open>Properties\<close>

lemma length_padded [simp]: "length str \<le> n \<Longrightarrow> length (padded n str) = n"
  by (simp add: padded_def)

lemma client_msg_lengths:
  "length (reg_con_msg i) = 82" "length (dereg_req_msg i) = 18" "length (cca_req_msg i) = 18"
  "length (tx_data_ind_msg i x a n r t m) = 34 + unat n"
  by (simp_all add: reg_con_msg_def dereg_req_msg_def cca_req_msg_def tx_data_ind_msg_def reg_con.length_mem
      reg_con.body_seal data_ind.length_mem seal_def Let_def)

lemma client_msgs_valid:
  "valid_frame i MSG_TYPE_REG_CON (reg_con_msg i)"
  "valid_frame i MSG_TYPE_DEREG_REQ (dereg_req_msg i)"
  "valid_frame i MSG_TYPE_CCA_REQ (cca_req_msg i)"
  "unat n \<le> 65501 \<Longrightarrow> valid_frame i MSG_TYPE_TX_DATA_IND (tx_data_ind_msg i x a n r t m)"
  unfolding reg_con_msg_def dereg_req_msg_def cca_req_msg_def tx_data_ind_msg_def
  by (rule reg_con.seal_valid hdr_only.seal_valid data_ind.seal_valid; simp add: new_hdr_def size_defs)+


text \<open>All messages of the client have lengths that the simulator's length assertion accepts, data indications up to 221 bytes of frame.\<close>

lemma client_msgs_pass:
  "len_passes (length (reg_con_msg i))" "len_passes (length (dereg_req_msg i))" "len_passes (length (cca_req_msg i))"
  "unat n \<le> 221 \<Longrightarrow> len_passes (length (tx_data_ind_msg i x a n r t m))"
  by (auto simp: client_msg_lengths len_passes_def dest: dvd_imp_le)

lemma get_append_left: "off + n \<le> length m \<Longrightarrow> get off n (m @ r) = get off n m"
  by (simp add: get_def)

lemma client_readMsg_valid:
  assumes "k_recv k (io_tick w) (cl_sockfd c) 128 = RecvData m" and "valid_frame i t m"
    and "t \<notin> {MSG_TYPE_REG_CON, MSG_TYPE_CCA_REQ}"
  shows "\<exists>buf. client_readMsg k c w =
    Inr (c\<lparr>replyBuffer := buf, cl_nodeId := (if t = MSG_TYPE_REG_REQ then i else cl_nodeId c)\<rparr>, tick w)
    \<and> take (length m) buf = clear_cksum m"
proof -
  let ?r = "drop (length m) (replyBuffer c)"
  have l: "18 \<le> length m" using assms(2) by (simp add: valid_frame_def size_defs)
  have buf: "put 0 m (replyBuffer c) = m @ ?r" by (simp add: put_def)
  have clr: "clear_cksum (m @ ?r) = clear_cksum m @ ?r" using l by (simp add: clear_cksum_def put_def size_defs)
  have lc: "length (clear_cksum m) = length m" using l by (simp add: clear_cksum_def size_defs)
  have g: "get off n (clear_cksum m @ ?r) = get off n m" if "off + n \<le> 16" for off n
    using that l lc by (simp add: get_append_left clear_cksum_def size_defs get_put_before)
  have rx: "rx_cksum (m @ ?r) = generate_checksum (clear_cksum m)"
    using assms(2) l by (simp add: rx_cksum_def get_append_left size_defs valid_frame_def)
  have hdr: "ntohs (hdr_msg_type (hdr_of (clear_cksum m @ ?r))) = msg_type_val t"
      "ntohll (hdr_node_id (hdr_of (clear_cksum m @ ?r))) = i"
    using assms(2) g by (simp_all add: hdr_of_def valid_frame_def)
  show ?thesis
    using assms(1,3) by (intro exI [of _ "clear_cksum m @ ?r"], cases t) (simp_all add: client_readMsg_def Let_def buf clr lc rx hdr)
qed


text \<open>
  C30: the client understands everything the simulator sends it. It takes its node id from a registration request and keeps
  it on every other message, and it finds the answer to a clear-channel request and the result of a transmission at
  byte 18 of its buffer, where its \<^verbatim>\<open>readMsg\<close> looks.
\<close>

theorem client_accepts_replies:
  assumes "k_recv k (io_tick w) (cl_sockfd c) 128 = RecvData m"
  shows "(m = registration_req_msg i \<longrightarrow> (\<exists>c'. client_readMsg k c w = Inr (c', tick w) \<and> cl_nodeId c' = i \<and> cl_sockfd c' = cl_sockfd c))
    \<and> (m = deregistration_con_msg i \<longrightarrow> (\<exists>c'. client_readMsg k c w = Inr (c', tick w) \<and> cl_nodeId c' = cl_nodeId c))
    \<and> (m = cca_con_msg i clear \<longrightarrow> (\<exists>c'. client_readMsg k c w = Inr (c', tick w) \<and> cl_nodeId c' = cl_nodeId c
         \<and> replyBuffer c' ! 18 = (if clear then 1 else 0)))
    \<and> (m = tx_done_ind_msg i result \<longrightarrow> (\<exists>c'. client_readMsg k c w = Inr (c', tick w) \<and> cl_nodeId c' = cl_nodeId c
         \<and> replyBuffer c' ! 18 = word_of_int result))"
proof (intro conjI impI)
  have b: "buf ! 18 = m ! 18" if "take (length m) buf = clear_cksum m" "length m = 19" for buf m
  proof -
    have "buf ! 18 = take (length m) buf ! 18" using that(2) by simp
    also have "\<dots> = clear_cksum m ! 18" by (simp only: that(1))
    also have "\<dots> = m ! 18" using that(2) by (simp add: clear_cksum_def put_def size_defs nth_append)
    finally show ?thesis .
  qed
  note v = client_readMsg_valid [OF assms]
  show "\<exists>c'. client_readMsg k c w = Inr (c', tick w) \<and> cl_nodeId c' = i \<and> cl_sockfd c' = cl_sockfd c"
    if "m = registration_req_msg i" using v [of i MSG_TYPE_REG_REQ] sent_msgs_valid(1) that by auto
  show "\<exists>c'. client_readMsg k c w = Inr (c', tick w) \<and> cl_nodeId c' = cl_nodeId c"
    if "m = deregistration_con_msg i" using v [of i MSG_TYPE_DEREG_CON] sent_msgs_valid(2) that by auto
  have result: "\<exists>c'. client_readMsg k c w = Inr (c', tick w) \<and> cl_nodeId c' = cl_nodeId c \<and> replyBuffer c' ! 18 = m ! 18"
    if m: "valid_frame i t m" "t = MSG_TYPE_CCA_CON \<or> t = MSG_TYPE_TX_DONE_IND" "length m = 19" for t
  proof -
    obtain buf where buf: "client_readMsg k c w = Inr (c\<lparr>replyBuffer := buf, cl_nodeId := cl_nodeId c\<rparr>, tick w)"
        "take (length m) buf = clear_cksum m"
      using v [OF m(1)] m(2) by auto
    show ?thesis using buf(1) b [OF buf(2) m(3)] by simp
  qed
  show "\<exists>c'. client_readMsg k c w = Inr (c', tick w) \<and> cl_nodeId c' = cl_nodeId c \<and> replyBuffer c' ! 18 = (if clear then 1 else 0)"
    if m: "m = cca_con_msg i clear"
    using result [of MSG_TYPE_CCA_CON] sent_msgs_valid(3) sent_msgs_result(1) [of i clear]
    unfolding m by (simp only: length_msgs size_defs simp_thms)
  show "\<exists>c'. client_readMsg k c w = Inr (c', tick w) \<and> cl_nodeId c' = cl_nodeId c \<and> replyBuffer c' ! 18 = word_of_int result"
    if m: "m = tx_done_ind_msg i result"
    using result [of MSG_TYPE_TX_DONE_IND] sent_msgs_valid(4) sent_msgs_result(2) [of i result]
    unfolding m by (simp only: length_msgs size_defs simp_thms)
qed

definition demo_client :: NodeSim where
  "demo_client = \<lparr> cl_sockfd = 9, cl_nodeId = - 1, replyBuffer = replicate 256 0, rxmcast_sockfd = 10 \<rparr>"

text \<open>A kernel whose every \<^verbatim>\<open>recv\<close> yields \<open>m\<close>.\<close>

definition receiving :: "byte list \<Rightarrow> kernel" where
  "receiving m = ok_kernel\<lparr>k_recv := \<lambda>t fd n. RecvData m\<rparr>"

theorem client_accepts_replies_witness:
  "\<exists>c'. client_readMsg (receiving (registration_req_msg 0x2000)) demo_client \<lparr>io_tick = 0, io_out = []\<rparr> =
      Inr (c', tick \<lparr>io_tick = 0, io_out = []\<rparr>) \<and> cl_nodeId c' = 0x2000"
  using client_accepts_replies [of "receiving (registration_req_msg 0x2000)" "\<lparr>io_tick = 0, io_out = []\<rparr>" demo_client
      "registration_req_msg 0x2000" "0x2000"]
  by (auto simp: receiving_def)

text \<open>The strings as the simulator reads them from the confirm.\<close>

lemma strncpy_padded: "0 \<notin> set (map of_char str :: byte list) \<Longrightarrow> length str < n \<Longrightarrow> strncpy n (padded n str @ r) = Inr (padded n str)"
proof -
  assume str: "0 \<notin> set (map of_char str :: byte list)" "length str < n"
  have "takeWhile (\<lambda>b. b \<noteq> 0) (padded n str) = map of_char str"
    using str by (subst padded_def, subst takeWhile_append2) (auto simp: takeWhile_replicate)
  then show ?thesis using str(2) by (simp add: strncpy_def padded_def)
qed

lemma client_os:
  "strncpy 32 (drop 18 (clear_cksum (reg_con_msg i))) = Inr (padded 32 ''linux'')"
  "strncpy 32 (drop 50 (clear_cksum (reg_con_msg i))) = Inr (padded 32 ''4.1.0 rc4'')"
proof -
  have "clear_cksum (reg_con_msg i) = mem_hdr h @ padded 32 ''linux'' @ padded 32 ''4.1.0 rc4''"
    if "h = (new_hdr REG_CON_SZ MSG_TYPE_REG_CON i)" for h
    by (simp add: reg_con_msg_def reg_con.mem_seal clear_cksum_def put_cksum_mem_hdr size_defs new_hdr_def that)
  then have d: "drop 18 (clear_cksum (reg_con_msg i)) = padded 32 ''linux'' @ padded 32 ''4.1.0 rc4''"
      "drop 50 (clear_cksum (reg_con_msg i)) = padded 32 ''4.1.0 rc4'' @ []"
    by simp_all
  show "strncpy 32 (drop 18 (clear_cksum (reg_con_msg i))) = Inr (padded 32 ''linux'')"
    "strncpy 32 (drop 50 (clear_cksum (reg_con_msg i))) = Inr (padded 32 ''4.1.0 rc4'')"
    unfolding d by (rule strncpy_padded; simp add: of_char_def)+
qed

lemma registered_confirmed:
  assumes "wf s" and "map_of (regListMap s) i = Some p"
  shows "registered (set_node p n (registered_as i p (s\<lparr>sio := w\<rparr>))) p"
proof -
  have "map_of (um_insert i p (nodeHashMap s)) i = Some p"
    using um.transfer_lookup(1) [OF wf_um [OF assms(1)] _ assms(2)] assms(1) by (simp add: wf_def wfc_def tables_ok_def)
  then show ?thesis by (auto simp: registered_def registered_as_def)
qed

text \<open>
  C15: the registration handshake between the two ends. The client that receives the registration request of a registering node
  sends its confirm with the id it was told; when that confirm arrives, the simulator accepts it and the node is registered
  and active, with the client's operating system strings, and nothing else about the medium's membership changes.
\<close>

theorem registration_handshake:
  assumes "wf s" and "registering s p" and "heap s p = Some n"
    and "k_recv kc (io_tick wc) (cl_sockfd c) 128 = RecvData (registration_req_msg (socket_ptr n))"
    and "\<And>t fd m. k_send kc t fd m = int (length m)"
    and "delivers k (sio s) (sock_fd (dn_socket n)) (reg_con_msg (socket_ptr n))"
  shows "\<exists>c' wc' s' n'. client_readMsg kc c wc = Inr (c', wc')
    \<and> stream (cl_sockfd c) (io_out (sendRegCon kc c' wc')) = stream (cl_sockfd c) (io_out wc) @ reg_con_msg (socket_ptr n)
    \<and> readMsg k p s = Inr s' \<and> wf s' \<and> registered s' p \<and> heap s' = (heap s)(p \<mapsto> n') \<and> idle_node n'
    \<and> takeWhile (\<lambda>b. b \<noteq> 0) (os n') = map of_char ''linux''
    \<and> takeWhile (\<lambda>b. b \<noteq> 0) (osVersion n') = map of_char ''4.1.0 rc4''"
proof -
  let ?m = "reg_con_msg (socket_ptr n)" and ?s1 = "s\<lparr>sio := tick (tick (tick (sio s)))\<rparr>"
  obtain buf where c: "client_readMsg kc c wc = Inr (c\<lparr>replyBuffer := buf, cl_nodeId := socket_ptr n\<rparr>, tick wc)"
    using client_readMsg_valid [OF assms(4) sent_msgs_valid(1)] by auto
  have n: "reg_node n" "map_of (regListMap s) (socket_ptr n) = Some p"
    using wf_registering [OF assms(1,2)] assms(3) by (metis option.inject)+
  have os: "strncpy 32 (drop 18 (clear_cksum ?m)) = Inr (padded 32 ''linux'')"
      "strncpy 32 (drop 50 (clear_cksum ?m)) = Inr (padded 32 ''4.1.0 rc4'')"
    using client_os [of "socket_ptr n"] by simp_all
  have "dispatch k p (msg_type_val MSG_TYPE_REG_CON) (clear_cksum ?m) ?s1 = handleRegistrationConfirm p (clear_cksum ?m) ?s1"
    by (simp add: dispatch_def)
  then have run: "readMsg k p s = handleRegistrationConfirm p (clear_cksum ?m) ?s1"
    using readMsg_delivered [OF assms(3,6) valid_well_sized [OF client_msgs_valid(1)]] client_msgs_pass(1) [of "socket_ptr n"]
      client_msgs_valid(1) [of "socket_ptr n"] assms(3)
    by (simp add: on_message_def valid_frame_def)
  let ?s' = "set_node p (confirmed (padded 32 ''linux'') (padded 32 ''4.1.0 rc4'') n) (registered_as (socket_ptr n) p (?s1\<lparr>sio := tick (sio ?s1)\<rparr>))"
  have "handleRegistrationConfirm p (clear_cksum ?m) ?s1 = Inr ?s'"
    using assms(1,3) n by (intro handleRegistrationConfirm_reg os) simp_all
  moreover have w': "wf ?s'" using wf_register [OF assms(1,3) n] by simp
  moreover have "registered ?s' p" using registered_confirmed [OF assms(1) n(2)] by simp
  moreover have "takeWhile (\<lambda>b. b \<noteq> 0) (padded 32 ''linux'') = map of_char ''linux''"
     "takeWhile (\<lambda>b. b \<noteq> 0) (padded 32 ''4.1.0 rc4'') = map of_char ''4.1.0 rc4''"
    by (simp_all add: padded_def of_char_def)
  ultimately show ?thesis
    using c run confirmed_idle(1) [OF n(1)] assms(5)
    by (intro exI [of _ "c\<lparr>replyBuffer := buf, cl_nodeId := socket_ptr n\<rparr>"] exI [of _ "tick wc"] exI [of _ ?s']
        exI [of _ "confirmed (padded 32 ''linux'') (padded 32 ''4.1.0 rc4'') n"])
      (simp add: sendRegCon_def client_send_def confirmed_def registered_as_def)
qed

theorem registration_handshake_witness:
  "\<exists>c' wc' s'. client_readMsg (receiving (registration_req_msg 0x2000)) demo_client \<lparr>io_tick = 0, io_out = []\<rparr> = Inr (c', wc')
    \<and> stream 9 (io_out (sendRegCon (receiving (registration_req_msg 0x2000)) c' wc')) = reg_con_msg 0x2000
    \<and> readMsg (delivering (reg_con_msg 0x2000)) 0x1000 one_joined = Inr s' \<and> registered s' 0x1000"
proof -
  obtain n where n: "heap one_joined 0x1000 = Some n" "socket_ptr n = 0x2000" using one_joined_node by blast
  have "delivers (delivering (reg_con_msg 0x2000)) (sio one_joined) (sock_fd (dn_socket n)) (reg_con_msg 0x2000)"
    by (rule delivering_delivers) (simp add: client_msg_lengths)
  then show ?thesis
    using registration_handshake [of one_joined "0x1000" n "receiving (registration_req_msg 0x2000)"
        "\<lparr>io_tick = 0, io_out = []\<rparr>" demo_client "delivering (reg_con_msg 0x2000)"] n one_joined_wf
    by (auto simp: receiving_def ok_kernel_def demo_client_def)
qed

end
