(* ===== verification/Logging.thy ===== *)
theory Logging
  imports X6_Prelude
begin

text \<open>
  \<^verbatim>\<open>src/src/log/log.cpp\<close>: the line printed by \<^verbatim>\<open>_xlog\<close> and the rows of \<^verbatim>\<open>_xlog_log_hexdump\<close>. The buffers of a row have their sizes, so
  that a write outside them is a fault. Nothing here touches the state of the simulator, which is why the other theories
  leave logging out.
\<close>

section \<open>Log lines\<close>

definition LOG_ERR :: int where "LOG_ERR = 3"
definition LOG_NOTICE :: int where "LOG_NOTICE = 5"

text \<open>An escape sequence that selects a colour.\<close>

definition colour :: "string \<Rightarrow> string" where
  "colour c = CHR 0x1B # ''['' @ c @ ''m''"

definition level_colour :: "int \<Rightarrow> string" where
  "level_colour level = (if level = LOG_ERR then colour ''1;31'' else if level = LOG_NOTICE then colour ''1;32'' else colour ''0;0'')"

text \<open>Decimal numbers as \<^verbatim>\<open>%d\<close> prints them.\<close>

fun dec_nat :: "nat \<Rightarrow> string" where
  "dec_nat n = (if n < 10 then [char_of (48 + n)] else dec_nat (n div 10) @ [char_of (48 + n mod 10)])"

declare dec_nat.simps [simp del]

definition dec_int :: "int \<Rightarrow> string" where
  "dec_int i = (if i < 0 then ''-'' @ dec_nat (nat (- i)) else dec_nat (nat i))"

text \<open>The loop of \<^verbatim>\<open>_xlog\<close> over the format string: does it end before a carriage return or a new line?\<close>

fun no_newline :: "string \<Rightarrow> bool" where
  "no_newline [] = True"
| "no_newline (c # cs) = (if c = CHR 0x0D \<or> c = CHR 0x0A \<or> c = CHR 0x00 then c = CHR 0x00 else no_newline cs)"

text \<open>
  What \<^verbatim>\<open>_xlog\<close> prints; \<open>text\<close> is the result of \<^verbatim>\<open>vprintf\<close> for the format \<open>fmt\<close>. With \<^verbatim>\<open>log_to_syslog\<close> set nothing is printed and the
  text goes to the system log.
\<close>

definition xlog_line :: "bool \<Rightarrow> string \<Rightarrow> int \<Rightarrow> int \<Rightarrow> string \<Rightarrow> string \<Rightarrow> string" where
  "xlog_line to_syslog func line level fmt text =
     (if to_syslog then []
      else level_colour level @ ''['' @ func @ '':'' @ dec_int line @ '']: '' @ text
        @ (if no_newline fmt then [CHR 0x0A] else []) @ colour ''0;0'')"

lemma no_newline_iff: "CHR 0x00 \<notin> set fmt \<Longrightarrow> no_newline fmt \<longleftrightarrow> CHR 0x0D \<notin> set fmt \<and> CHR 0x0A \<notin> set fmt"
  by (induction fmt) auto

section \<open>Hex dumps\<close>

definition HEXDUMP_BYTES_PER_LINE :: nat where "HEXDUMP_BYTES_PER_LINE = 16"
definition HEXDUMP_MAX_HEX_LENGTH :: nat where "HEXDUMP_MAX_HEX_LENGTH = 80"

definition hex_digit :: "nat \<Rightarrow> char" where
  "hex_digit d = (if d < 10 then char_of (48 + d) else char_of (55 + d))"

text \<open>\<^verbatim>\<open>%02X \<close> of a byte, and the character of its column.\<close>

definition hex_byte :: "byte \<Rightarrow> string" where
  "hex_byte b = [hex_digit (unat b div 16), hex_digit (unat b mod 16), CHR '' '']"

definition dump_char :: "byte \<Rightarrow> char" where
  "dump_char b = (if 32 \<le> sint b \<and> sint b \<le> 126 then char_of (unat b) else CHR ''.'')"

text \<open>
  \<^verbatim>\<open>sprintf\<close> at the end of the text in the hex buffer of 81 characters, with the final NUL, and storing into column \<open>length chars\<close> of the
  character buffer of 17.
\<close>

definition hex_write :: "string \<Rightarrow> string \<Rightarrow> string res" where
  "hex_write hex t =
     (if length hex + length t + 1 \<le> HEXDUMP_MAX_HEX_LENGTH + 1 then Inr (hex @ t) else Inl (MemErr ''hex_buff_p: write past the buffer''))"

definition char_write :: "string \<Rightarrow> char \<Rightarrow> string res" where
  "char_write chars c =
     (if length chars < HEXDUMP_BYTES_PER_LINE + 1 then Inr (chars @ [c]) else Inl (MemErr ''char_buff_p: write past the buffer''))"

text \<open>The two loops that fill columns without a byte, \<open>n\<close> of them.\<close>

fun lead :: "nat \<Rightarrow> string \<Rightarrow> string \<Rightarrow> (string \<times> string) res" where
  "lead 0 hex chars = Inr (hex, chars)"
| "lead (Suc n) hex chars =
     bindE (hex_write hex ''.. '') (\<lambda>hex1. bindE (char_write chars (CHR '' '')) (\<lambda>chars1. lead n hex1 chars1))"

text \<open>The loop over the bytes; a row is its address, its hex text and its characters.\<close>

fun dump_loop ::
  "byte list \<Rightarrow> u64 \<Rightarrow> string \<Rightarrow> string \<Rightarrow> (u64 \<times> string \<times> string) list \<Rightarrow> (u64 \<times> string \<times> string \<times> (u64 \<times> string \<times> string) list) res" where
  "dump_loop [] addr hex chars rows = Inr (addr, hex, chars, rows)"
| "dump_loop (b # bs) addr hex chars rows =
     bindE (hex_write hex (hex_byte b)) (\<lambda>hex1.
     bindE (char_write chars (dump_char b)) (\<lambda>chars1.
     if length chars1 \<ge> HEXDUMP_BYTES_PER_LINE
     then dump_loop bs (addr + of_nat HEXDUMP_BYTES_PER_LINE) [] [] (rows @ [(addr, hex1, chars1)])
     else dump_loop bs addr hex1 chars1 rows))"

definition xlog_log_hexdump :: "int \<Rightarrow> int \<Rightarrow> byte list \<Rightarrow> u64 \<Rightarrow> (u64 \<times> string \<times> string) list res" where
  "xlog_log_hexdump loglevel pri bytes print_address =
     (let row_start_addr = print_address AND NOT 15;
          first_row_start_column = unat (print_address mod 16)
      in if pri \<le> loglevel
         then bindE (lead first_row_start_column [] []) (\<lambda>(hex, chars).
              bindE (dump_loop bytes row_start_addr hex chars []) (\<lambda>(addr, hex1, chars1, rows).
              if chars1 \<noteq> []
              then bindE (lead (HEXDUMP_BYTES_PER_LINE - length chars1) hex1 chars1) (\<lambda>(hex2, chars2).
                   Inr (rows @ [(addr, hex2, chars2)]))
              else Inr rows))
         else Inr [])"

section \<open>Properties\<close>

text \<open>A column holds a byte or nothing. The texts of a list of columns, and the rows of a list of groups of columns.\<close>

definition hex_cell :: "byte option \<Rightarrow> string" where
  "hex_cell c = (case c of None \<Rightarrow> ''.. '' | Some b \<Rightarrow> hex_byte b)"

definition char_cell :: "byte option \<Rightarrow> char" where
  "char_cell c = (case c of None \<Rightarrow> CHR '' '' | Some b \<Rightarrow> dump_char b)"

definition hex_of :: "byte option list \<Rightarrow> string" where
  "hex_of cs = concat (map hex_cell cs)"

fun rows_of :: "u64 \<Rightarrow> byte option list list \<Rightarrow> (u64 \<times> string \<times> string) list" where
  "rows_of addr [] = []"
| "rows_of addr (cs # css) = (addr, hex_of cs, map char_cell cs) # rows_of (addr + 16) css"

lemma length_hex_of [simp]: "length (hex_of cs) = 3 * length cs"
  by (induction cs) (auto simp: hex_of_def hex_cell_def hex_byte_def split: option.splits)

lemma hex_of_append [simp]: "hex_of (a @ b) = hex_of a @ hex_of b" "hex_of [] = []"
  by (simp_all add: hex_of_def)

lemma rows_of_append: "rows_of addr (a @ b) = rows_of addr a @ rows_of (addr + 16 * of_nat (length a)) b"
  by (induction a arbitrary: addr) (simp_all add: algebra_simps)

lemma lead_cells:
  "length xs + n \<le> 16 \<Longrightarrow> lead n (hex_of xs) (map char_cell xs) =
     Inr (hex_of (xs @ replicate n None), map char_cell (xs @ replicate n None))"
proof (induction n arbitrary: xs)
  case (Suc n)
  have "hex_write (hex_of xs) ''.. '' = Inr (hex_of (xs @ [None]))"
    using Suc.prems by (simp add: hex_write_def HEXDUMP_MAX_HEX_LENGTH_def) (simp add: hex_of_def hex_cell_def)
  moreover have "char_write (map char_cell xs) (CHR '' '') = Inr (map char_cell (xs @ [None]))"
    using Suc.prems by (simp add: char_write_def HEXDUMP_BYTES_PER_LINE_def char_cell_def)
  ultimately show ?case using Suc.IH [of "xs @ [None]"] Suc.prems by simp
qed simp

lemma dump_loop_cells:
  "length xs < 16 \<Longrightarrow> \<exists>ys css. dump_loop bs addr (hex_of xs) (map char_cell xs) rows =
       Inr (addr + 16 * of_nat (length css), hex_of ys, map char_cell ys, rows @ rows_of addr css)
     \<and> concat css @ ys = xs @ map Some bs \<and> (\<forall>cs \<in> set css. length cs = 16) \<and> length ys < 16"
proof (induction bs arbitrary: xs addr rows)
  case Nil
  then show ?case by (intro exI [of _ xs] exI [of _ "[]"]) simp
next
  case (Cons b bs)
  let ?xs = "xs @ [Some b]"
  have h: "hex_write (hex_of xs) (hex_byte b) = Inr (hex_of ?xs)"
    using Cons.prems by (simp add: hex_write_def HEXDUMP_MAX_HEX_LENGTH_def hex_byte_def) (simp add: hex_of_def hex_cell_def hex_byte_def)
  have c: "char_write (map char_cell xs) (dump_char b) = Inr (map char_cell ?xs)"
    using Cons.prems by (simp add: char_write_def HEXDUMP_BYTES_PER_LINE_def char_cell_def)
  show ?case
  proof (cases "length ?xs = 16")
    case True
    obtain ys css where "dump_loop bs (addr + 16) (hex_of []) (map char_cell []) (rows @ [(addr, hex_of ?xs, map char_cell ?xs)]) =
         Inr (addr + 16 + 16 * of_nat (length css), hex_of ys, map char_cell ys,
           (rows @ [(addr, hex_of ?xs, map char_cell ?xs)]) @ rows_of (addr + 16) css)"
        "concat css @ ys = [] @ map Some bs" "\<forall>cs \<in> set css. length cs = 16" "length ys < 16"
      using Cons.IH [of "[]" "addr + 16" "rows @ [(addr, hex_of ?xs, map char_cell ?xs)]"] by auto
    with True h c show ?thesis
      by (intro exI [of _ ys] exI [of _ "?xs # css"]) (simp add: HEXDUMP_BYTES_PER_LINE_def algebra_simps)
  next
    case False
    then have "length ?xs < 16" using Cons.prems by simp
    from Cons.IH [OF this, of addr rows] obtain ys css where
      "dump_loop bs addr (hex_of ?xs) (map char_cell ?xs) rows =
         Inr (addr + 16 * of_nat (length css), hex_of ys, map char_cell ys, rows @ rows_of addr css)"
      "concat css @ ys = ?xs @ map Some bs" "\<forall>cs \<in> set css. length cs = 16" "length ys < 16" by blast
    with \<open>length ?xs < 16\<close> h c show ?thesis
      by (intro exI [of _ ys] exI [of _ css]) (simp add: HEXDUMP_BYTES_PER_LINE_def)
  qed
qed

text \<open>Reading the hex text of a row back.\<close>

definition digit_val :: "char \<Rightarrow> nat" where
  "digit_val c = (if of_char c < (58 :: nat) then of_char c - 48 else of_char c - 55)"

fun unhex :: "string \<Rightarrow> byte list" where
  "unhex (a # b # c # rest) = (if a = CHR ''.'' then [] else [of_nat (16 * digit_val a + digit_val b)]) @ unhex rest"
| "unhex _ = []"

lemma digit_val_hex:
  assumes "d < 16"
  shows "digit_val (hex_digit d) = d" "hex_digit d \<noteq> CHR ''.''"
proof -
  have v: "of_char (hex_digit d) = (if d < 10 then 48 + d else 55 + d)"
    using assms by (auto simp: hex_digit_def of_char_of)
  then show "digit_val (hex_digit d) = d" by (simp add: digit_val_def)
  have "of_char (hex_digit d) \<noteq> (46 :: nat)" using v by auto
  then show "hex_digit d \<noteq> CHR ''.''" by (auto simp: of_char_def)
qed

lemma unhex_cell: "unhex (hex_cell c @ rest) = (case c of None \<Rightarrow> [] | Some b \<Rightarrow> [b]) @ unhex rest"
proof (cases c)
  case (Some b)
  have "unat b < 2 ^ LENGTH(8)" by (rule unsigned_less)
  then have "unat b div 16 < 16" "unat b mod 16 < 16" by simp_all
  moreover have "of_nat (16 * (unat b div 16) + unat b mod 16) = b" by simp
  ultimately show ?thesis using Some digit_val_hex by (simp add: hex_cell_def hex_byte_def)
qed (simp add: hex_cell_def)

lemma unhex_hex_of: "unhex (hex_of cs @ rest) = List.map_filter id cs @ unhex rest"
  by (induction cs) (auto simp: hex_of_def unhex_cell List.map_filter_simps split: option.splits)

lemma rows_of_facts:
  "map fst (rows_of addr css) = map (\<lambda>i. addr + 16 * of_nat i) [0..<length css]"
  "concat (map (\<lambda>(a, h, c). unhex h) (rows_of addr css)) = List.map_filter id (concat css)"
  "(\<forall>cs \<in> set css. length cs = 16) \<Longrightarrow> \<forall>(a, h, c) \<in> set (rows_of addr css). length h = 48 \<and> length c = 16"
proof (induction css arbitrary: addr)
  case (Cons cs css)
  case 1
  have "map (\<lambda>i. addr + 16 * of_nat i) [0..<length (cs # css)] = addr # map (\<lambda>i. addr + 16 + 16 * of_nat i) [0..<length css]"
    by (simp add: upt_conv_Cons map_Suc_upt [symmetric] algebra_simps del: upt_Suc)
  with Cons.IH(1) [of "addr + 16"] show ?case by simp
next
  case (Cons cs css)
  case 2
  show ?case using Cons.IH(2) [of "addr + 16"] unhex_hex_of [of cs "[]"] by (simp add: List.map_filter_def)
next
  case (Cons cs css)
  case 3
  then show ?case using Cons.IH(3) [of "addr + 16"] by auto
qed simp_all

text \<open>The rows of a dump that is made: the bytes in groups of 16 columns, from the column of the print address on.\<close>

lemma hexdump_run:
  assumes "pri \<le> loglevel"
  shows "\<exists>css. xlog_log_hexdump loglevel pri bytes print_address = Inr (rows_of (print_address AND NOT 15) css)
    \<and> List.map_filter id (concat css) = bytes \<and> (\<forall>cs \<in> set css. length cs = 16)
    \<and> length css = (unat (print_address mod 16) + length bytes + 15) div 16"
proof -
  let ?n = "unat (print_address mod 16)" and ?a = "print_address AND NOT 15"
  let ?xs = "replicate ?n None :: byte option list"
  have n: "?n < 16" by (simp add: unat_mod)
  have l: "lead ?n [] [] = Inr (hex_of ?xs, map char_cell ?xs)" using lead_cells [of "[]" ?n] n by simp
  obtain ys css where d: "dump_loop bytes ?a (hex_of ?xs) (map char_cell ?xs) [] =
        Inr (?a + 16 * of_nat (length css), hex_of ys, map char_cell ys, rows_of ?a css)"
      "concat css @ ys = ?xs @ map Some bytes" "\<forall>cs \<in> set css. length cs = 16" "length ys < 16"
    using dump_loop_cells [of ?xs bytes ?a "[]"] n by auto
  define css' where "css' = css @ (if ys = [] then [] else [ys @ replicate (16 - length ys) None])"
  have run: "xlog_log_hexdump loglevel pri bytes print_address = Inr (rows_of ?a css')"
    using assms l d(1) lead_cells [of ys "16 - length ys"] d(4)
    by (simp add: xlog_log_hexdump_def HEXDUMP_BYTES_PER_LINE_def css'_def rows_of_append)
  have "List.map_filter id (concat css') = List.map_filter id (concat css @ ys)"
    by (simp add: css'_def List.map_filter_def)
  also have "\<dots> = bytes" unfolding d(2) by (simp add: List.map_filter_def comp_def)
  finally have f: "List.map_filter id (concat css') = bytes" .
  have len: "\<forall>cs \<in> set css'. length cs = 16" using d(3,4) by (auto simp: css'_def)
  have "length (concat css) = 16 * length css" using d(3) by (induction css) auto
  then have tot: "16 * length css + length ys = ?n + length bytes" using arg_cong [OF d(2), of length] by simp
  have "(16 * c + y + 15) div 16 = (if y = 0 then c else Suc c)" if "y < 16" for c y :: nat using that by auto
  from this [OF d(4), of "length css"] have "length css' = (?n + length bytes + 15) div 16"
    unfolding tot by (simp add: css'_def)
  with run f len show ?thesis by blast
qed

lemma hexdump_returns: "\<exists>rows. xlog_log_hexdump loglevel pri bytes print_address = Inr rows"
  using hexdump_run [of pri loglevel bytes print_address] by (cases "pri \<le> loglevel") (auto simp: xlog_log_hexdump_def)

text \<open>
  C38: a hex dump shows the memory it is given. When the priority is logged, the dump is made without writing outside its row buffers; the hex columns,
  read back in order, are exactly the bytes given; every row has 48 hex characters and 16 characters, and the rows are at consecutive
  multiples of 16 that begin at the row of the print address, as many as the columns from there need. Otherwise nothing is printed.
\<close>

theorem hexdump_faithful:
  "(pri \<le> loglevel \<longrightarrow> (\<exists>rows. xlog_log_hexdump loglevel pri bytes print_address = Inr rows
     \<and> concat (map (\<lambda>(a, h, c). unhex h) rows) = bytes
     \<and> (\<forall>(a, h, c) \<in> set rows. length h = 48 \<and> length c = 16)
     \<and> map fst rows = map (\<lambda>i. (print_address AND NOT 15) + 16 * of_nat i) [0..<length rows]
     \<and> length rows = (unat (print_address mod 16) + length bytes + 15) div 16))
   \<and> (loglevel < pri \<longrightarrow> xlog_log_hexdump loglevel pri bytes print_address = Inr [])"
proof (intro conjI impI)
  let ?a = "print_address AND NOT 15"
  assume "pri \<le> loglevel"
  then obtain css where "xlog_log_hexdump loglevel pri bytes print_address = Inr (rows_of ?a css)"
      "List.map_filter id (concat css) = bytes" "\<forall>cs \<in> set css. length cs = 16"
      "length css = (unat (print_address mod 16) + length bytes + 15) div 16"
    using hexdump_run by blast
  moreover have "length (rows_of a c) = length c" for a c by (induction c arbitrary: a) simp_all
  ultimately show "\<exists>rows. xlog_log_hexdump loglevel pri bytes print_address = Inr rows
     \<and> concat (map (\<lambda>(a, h, c). unhex h) rows) = bytes
     \<and> (\<forall>(a, h, c) \<in> set rows. length h = 48 \<and> length c = 16)
     \<and> map fst rows = map (\<lambda>i. ?a + 16 * of_nat i) [0..<length rows]
     \<and> length rows = (unat (print_address mod 16) + length bytes + 15) div 16"
    using rows_of_facts [where addr = ?a and css = css] by (intro exI [of _ "rows_of ?a css"]) simp
qed (simp add: xlog_log_hexdump_def)

theorem hexdump_faithful_witness:
  "\<exists>rows. xlog_log_hexdump 7 7 [0xDE, 0x41] 0x1234 = Inr rows \<and> concat (map (\<lambda>(a, h, c). unhex h) rows) = [0xDE, 0x41]"
  using hexdump_faithful [of 7 7 "[0xDE, 0x41]" "0x1234"] by auto

end
