(* ===== verification/Legacy.thy ===== *)
theory Legacy
  imports Main_Program Logging
begin

text \<open>
  \<^verbatim>\<open>src/src/x6losim.c\<close>: the first simulator, one process that receives datagrams and relays each to the multicast group. The build does not
  include it any more, and it was written against an older interface header: the members \<^verbatim>\<open>psdu_len\<close>, \<^verbatim>\<open>rep_code\<close> and \<^verbatim>\<open>rssi\<close> that it
  reads in the header of 128 bytes are not in the repository's header, so where they are is a parameter, \<open>old_hdr\<close>. The operating
  system is the parameter \<open>old_kernel\<close>. The handlers are installed as in \<^verbatim>\<open>main.cpp\<close>. Signals are taken at the head of the receive loop: the handler only
  logs and sets \<^verbatim>\<open>quit\<close>, which is read there alone.
\<close>

section \<open>State and environment\<close>

definition NETSIM_PKT_HDR_SZ :: nat where "NETSIM_PKT_HDR_SZ = 128"

definition LOG_INFO :: int where "LOG_INFO = 6"
definition LOG_DEBUG :: int where "LOG_DEBUG = 7"

text \<open>What the program does to the outside world.\<close>

datatype old_event =
    Stdout string | Syslog int string | Stderr string | Sendto int "string \<times> int" "byte list" | CloseStd int | OpenLog string

text \<open>The members of the static structure \<^verbatim>\<open>sim\<close> that are read, and the log of the effects.\<close>

record x6lo =
  x_loglevel :: int
  rx_sockfd :: int
  rx_port :: int
  x_mcastsockfd :: int
  tx_servaddr :: "string \<times> int"
  pktbuf :: "byte list"
  x_debug :: bool
  x_running :: bool
  x_quit :: bool
  x_out :: "old_event list"

text \<open>\<open>oh_psdu_len\<close> and \<open>oh_rep_code\<close> read the header, \<open>oh_rssi_off\<close> is the offset of \<^verbatim>\<open>rssi\<close>.\<close>

record old_hdr =
  oh_psdu_len :: "byte list \<Rightarrow> int"
  oh_rep_code :: "byte list \<Rightarrow> int"
  oh_rssi_off :: nat

text \<open>\<open>lk_signals k t\<close> are the signals that arrive before round \<open>t\<close> of the loop, \<open>lk_peer k t\<close> is the text of the sender's address,
  \<open>lk_disposition k\<close> says what a signal does before the handlers are installed.\<close>

record old_kernel =
  lk_fork :: int
  lk_setsid :: int
  lk_rx_socket :: int
  lk_mcast_socket :: int
  lk_bind :: "int \<Rightarrow> int \<Rightarrow> int"
  lk_recvfrom :: "nat \<Rightarrow> recv_res"
  lk_peer :: "nat \<Rightarrow> string"
  lk_disposition :: "signum \<Rightarrow> disposition"
  lk_signals :: "nat \<Rightarrow> signum list"

section \<open>The program\<close>

definition put_out :: "old_event \<Rightarrow> x6lo \<Rightarrow> x6lo" where
  "put_out e sim = sim\<lparr>x_out := x_out sim @ [e]\<rparr>"

definition old_xlog :: "string \<Rightarrow> int \<Rightarrow> int \<Rightarrow> string \<Rightarrow> string \<Rightarrow> x6lo \<Rightarrow> x6lo" where
  "old_xlog func line level fmt text sim =
     put_out (if x_debug sim then Stdout (xlog_line False func line level fmt text) else Syslog level text) sim"

text \<open>\<^verbatim>\<open>0x%08X: %s  [%s]\<close> of a row; \<^verbatim>\<open>%X\<close> prints the low 32 bits of the address.\<close>

definition hex32 :: "u64 \<Rightarrow> string" where
  "hex32 a = map (\<lambda>i. hex_digit (unat (drop_bit (4 * i) a AND 15))) (rev [0..<8])"

definition row_text :: "u64 \<Rightarrow> string \<Rightarrow> string \<Rightarrow> string" where
  "row_text addr hex chars = ''0x'' @ hex32 addr @ '': '' @ hex @ ''  ['' @ chars @ '']'' @ [CHR 0x0A]"

text \<open>
  \<^verbatim>\<open>_xlog_log_hexdump\<close> fills its rows as the later one in \<^verbatim>\<open>log.cpp\<close>. \<open>mem\<close> is the object from \<^verbatim>\<open>start_addr\<close> to its end; the bytes are read only when the
  priority is logged.
\<close>

definition old_hexdump :: "string \<Rightarrow> int \<Rightarrow> int \<Rightarrow> byte list \<Rightarrow> nat \<Rightarrow> u64 \<Rightarrow> x6lo \<Rightarrow> x6lo res" where
  "old_hexdump func line pri mem dump_byte_len print_address sim =
     (if pri \<le> x_loglevel sim \<and> length mem < dump_byte_len then Inl (MemErr ''hexdump: read past the object'')
      else bindE (xlog_log_hexdump (x_loglevel sim) pri (take dump_byte_len mem) print_address) (\<lambda>rows.
           Inr (fold (\<lambda>(addr, hex, chars). old_xlog func line pri (''0x%08X: %s  [%s]'' @ [CHR 0x0A]) (row_text addr hex chars)) rows sim)))"

fun old_signal_handler :: "signum \<Rightarrow> x6lo \<Rightarrow> x6lo" where
  "old_signal_handler SIGINT sim =
     (old_xlog ''signal_handler'' 196 LOG_NOTICE ''x6losim quit detected, attempting to stop'' ''x6losim quit detected, attempting to stop'' sim)\<lparr>x_quit := True\<rparr>"
| "old_signal_handler SIGTERM sim =
     (old_xlog ''signal_handler'' 196 LOG_NOTICE ''x6losim quit detected, attempting to stop'' ''x6losim quit detected, attempting to stop'' sim)\<lparr>x_quit := True\<rparr>"
| "old_signal_handler SIGHUP sim = sim"

text \<open>A signal that arrives after the handlers have been installed; none has its default action then.\<close>

definition old_take_signal :: "old_kernel \<Rightarrow> signum \<Rightarrow> x6lo \<Rightarrow> x6lo" where
  "old_take_signal k sig sim =
     (if installed (lk_disposition k) sig = SIG_IGN then sim else old_signal_handler sig sim)"

text \<open>\<open>Inl\<close>: the process exits with this status.\<close>

definition daemonize :: "old_kernel \<Rightarrow> x6lo \<Rightarrow> int + x6lo" where
  "daemonize k sim =
     (if lk_fork k < 0 then Inl EXIT_FAILURE
      else if lk_fork k > 0 then Inl EXIT_SUCCESS
      else if lk_setsid k < 0 then Inl EXIT_FAILURE
      else Inr (put_out (CloseStd 2) (put_out (CloseStd 1) (put_out (CloseStd 0) sim))))"

definition x6losim_send :: "byte list \<Rightarrow> nat \<Rightarrow> x6lo \<Rightarrow> x6lo res" where
  "x6losim_send data len sim =
     (if length data < len then Inl (MemErr ''sendto: read past data'')
      else Inr (put_out (Sendto (x_mcastsockfd sim) (tx_servaddr sim) (take len data)) sim))"

text \<open>
  \<^verbatim>\<open>x6losim_recv\<close>: its first log line, and the rest. \<open>len\<close> is a \<^verbatim>\<open>uint16_t\<close>; so is the length passed to the hex dump. The header that is
  read is that of the whole buffer.
\<close>

definition log_rx :: "old_hdr \<Rightarrow> x6lo \<Rightarrow> x6lo" where
  "log_rx L sim =
     (let hdr = take NETSIM_PKT_HDR_SZ (pktbuf sim)
      in old_xlog ''x6losim_recv'' 250 LOG_INFO ''Rx Pkt: len:%d repcode:%d ''
           (''Rx Pkt: len:'' @ dec_int (oh_psdu_len L hdr) @ '' repcode:'' @ dec_int (oh_rep_code L hdr) @ '' '') sim)"

definition x6losim_recv :: "old_hdr \<Rightarrow> u16 \<Rightarrow> x6lo \<Rightarrow> x6lo res" where
  "x6losim_recv L len sim =
     (let hdr = take NETSIM_PKT_HDR_SZ (pktbuf sim)
      in bindE (old_hexdump ''x6losim_recv'' 251 LOG_INFO (drop NETSIM_PKT_HDR_SZ (pktbuf sim))
                  (nat (oh_psdu_len L hdr mod 2 ^ 16)) 0 (log_rx L sim)) (\<lambda>sim2.
         let sim3 = sim2\<lparr>pktbuf := (pktbuf sim2)[oh_rssi_off L := - 10]\<rparr>
         in x6losim_send (pktbuf sim3) (unat len) sim3))"

text \<open>
  One round of the loop in \<^verbatim>\<open>main\<close>, from \<^verbatim>\<open>recvfrom\<close> on; \<open>pkts_rx\<close> counts packets. An error other than \<^verbatim>\<open>EAGAIN\<close> goes on with \<^verbatim>\<open>n == -1\<close>, which
  is 65535 as a \<^verbatim>\<open>uint16_t\<close>.
\<close>

definition old_process :: "old_hdr \<Rightarrow> old_kernel \<Rightarrow> nat \<Rightarrow> int \<Rightarrow> int \<Rightarrow> x6lo \<Rightarrow> (int \<times> x6lo) res" where
  "old_process L k t n pkts_rx sim =
     bindE (x6losim_recv L (word_of_int n) sim) (\<lambda>sim1.
       Inr (pkts_rx + 1, old_xlog ''main'' 348 LOG_INFO ''%d: Received packet %d from %s''
         (dec_int n @ '': Received packet '' @ dec_int pkts_rx @ '' from '' @ lk_peer k t) sim1))"

definition old_round :: "old_hdr \<Rightarrow> old_kernel \<Rightarrow> nat \<Rightarrow> int \<Rightarrow> x6lo \<Rightarrow> (int \<times> x6lo) res" where
  "old_round L k t pkts_rx sim =
     (case lk_recvfrom k t of
        RecvErr e \<Rightarrow> if e = EAGAIN \<or> e = EWOULDBLOCK then Inr (pkts_rx, sim) else old_process L k t (- 1) pkts_rx sim
      | RecvData bs \<Rightarrow>
          if length (pktbuf sim) < length bs then Inl (MemErr ''recvfrom: write past pktbuf'')
          else let sim1 = sim\<lparr>pktbuf := put 0 bs (pktbuf sim)\<rparr>
               in if bs = [] then Inr (pkts_rx, sim1) else old_process L k t (int (length bs)) pkts_rx sim1)"

text \<open>\<open>None\<close>: the loop is still running after \<open>fuel\<close> rounds.\<close>

fun old_loop :: "nat \<Rightarrow> old_hdr \<Rightarrow> old_kernel \<Rightarrow> nat \<Rightarrow> int \<Rightarrow> x6lo \<Rightarrow> x6lo res option" where
  "old_loop 0 L k t pkts_rx sim = None"
| "old_loop (Suc fuel) L k t pkts_rx sim =
     (let sim0 = fold (old_take_signal k) (lk_signals k t) sim
      in if x_running sim0 \<and> \<not> x_quit sim0
         then (case old_round L k t pkts_rx sim0 of
                 Inl e \<Rightarrow> Some (Inl e)
               | Inr (pkts', sim1) \<Rightarrow> old_loop fuel L k (Suc t) pkts' sim1)
         else Some (Inr sim0))"

definition notice :: "int \<Rightarrow> string \<Rightarrow> string \<Rightarrow> x6lo \<Rightarrow> x6lo" where
  "notice line fmt text sim = old_xlog ''main'' line LOG_NOTICE fmt text sim"

definition log_started :: "x6lo \<Rightarrow> x6lo" where
  "log_started sim = notice 329 ''Port: %d'' (''Port: '' @ dec_int (rx_port sim)) (notice 328 ''UDP Server started'' ''UDP Server started'' sim)"

definition log_finished :: "x6lo \<Rightarrow> x6lo" where
  "log_finished sim = notice 354 ''x6losim has finished'' ''x6losim has finished''
     (notice 353 ''Hasta la vista ....  baby!!!'' ''Hasta la vista ....  baby!!!'' sim)"

text \<open>From the sockets on: \<^verbatim>\<open>perror\<close> prints a text of the system, of which only the prefix is kept. The multicast socket is not checked.
  When the process faults, the effects of the rounds before are not followed.\<close>

definition old_serve :: "nat \<Rightarrow> old_hdr \<Rightarrow> old_kernel \<Rightarrow> x6lo \<Rightarrow> main_result \<times> x6lo" where
  "old_serve fuel L k sim =
     (let sim1 = sim\<lparr>rx_sockfd := lk_rx_socket k\<rparr>
      in if rx_sockfd sim1 = - 1 then (Exit EXIT_FAILURE, put_out (Stderr ''Server socket creation failed'') sim1)
         else if lk_bind k (rx_sockfd sim1) (rx_port sim1) \<noteq> 0
         then (Exit EXIT_FAILURE, put_out (Stderr ''Bind failed for Netsim server socket'') sim1)
         else let sim2 = log_started (sim1\<lparr>x_mcastsockfd := lk_mcast_socket k,
                  tx_servaddr := (''224.1.1.1'', 22411), x_running := True\<rparr>)
              in case old_loop fuel L k 0 0 sim2 of
                   None \<Rightarrow> (Running, sim2)
                 | Some (Inl e) \<Rightarrow> (Abort e, sim2)
                 | Some (Inr sim3) \<Rightarrow> (Exit EXIT_SUCCESS, log_finished sim3))"

text \<open>The static structure is zero at the start.\<close>

definition x6lo_init :: x6lo where
  "x6lo_init = \<lparr> x_loglevel = 0, rx_sockfd = 0, rx_port = 0, x_mcastsockfd = 0, tx_servaddr = ([], 0), pktbuf = replicate 256 0,
     x_debug = False, x_running = False, x_quit = False, x_out = [] \<rparr>"

definition old_main :: "nat \<Rightarrow> old_hdr \<Rightarrow> old_kernel \<Rightarrow> string \<Rightarrow> string \<Rightarrow> main_result \<times> x6lo" where
  "old_main fuel L k argv0 opts =
     (let sim = x6lo_init\<lparr>rx_port := 11555, x_loglevel := LOG_DEBUG\<rparr>
      in case parse_options opts False of
           None \<Rightarrow> (Exit EXIT_FAILURE, put_out (Stderr (''Usage: '' @ argv0 @ '' [-x]'' @ [CHR 0x0A])) sim)
         | Some dbg \<Rightarrow>
             (let sim1 = sim\<lparr>x_debug := dbg\<rparr>
              in case (if x_debug sim1 then Inr sim1
                       else (case daemonize k sim1 of Inl rc \<Rightarrow> Inl rc | Inr sim2 \<Rightarrow> Inr (put_out (OpenLog ''x6losim'') sim2))) of
                   Inl rc \<Rightarrow> (Exit rc, sim1)
                 | Inr sim2 \<Rightarrow> old_serve fuel L k (notice 288 ''x6losim started v%s'' ''x6losim started v0.1.0'' sim2)))"

section \<open>Relaying\<close>

text \<open>A destination is a socket with an address and port.\<close>

type_synonym destination = "int \<times> string \<times> int"

definition dest :: "x6lo \<Rightarrow> destination" where
  "dest sim = (x_mcastsockfd sim, tx_servaddr sim)"

fun sent_of :: "old_event \<Rightarrow> (destination \<times> byte list) list" where
  "sent_of (Sendto fd addr m) = [((fd, addr), m)]"
| "sent_of _ = []"

definition sent :: "x6lo \<Rightarrow> (destination \<times> byte list) list" where
  "sent sim = concat (map sent_of (x_out sim))"

text \<open>\<open>sim'\<close> differs from \<open>sim\<close> in log output only.\<close>

definition logged :: "x6lo \<Rightarrow> x6lo \<Rightarrow> bool" where
  "logged sim sim' \<longleftrightarrow> (\<exists>es. sim' = sim\<lparr>x_out := x_out sim @ es\<rparr> \<and> concat (map sent_of es) = [])"

lemma logged_refl [simp]: "logged sim sim"
  unfolding logged_def by (rule exI [of _ "[]"]) simp

lemma logged_trans: "logged a b \<Longrightarrow> logged b c \<Longrightarrow> logged a c"
  unfolding logged_def by fastforce

lemma logged_facts:
  assumes "logged sim sim'"
  shows "sent sim' = sent sim" "pktbuf sim' = pktbuf sim" "dest sim' = dest sim" "x_quit sim' = x_quit sim"
    "x_running sim' = x_running sim" "x_loglevel sim' = x_loglevel sim"
  using assms by (auto simp: logged_def sent_def dest_def)

lemma old_xlog_logged [simp]: "logged sim (old_xlog func line level fmt text sim)"
  by (auto simp: logged_def old_xlog_def put_out_def)

lemma notices_logged: "logged sim (log_started sim)" "logged sim (log_finished sim)"
  unfolding log_started_def log_finished_def notice_def by (rule logged_trans [OF old_xlog_logged old_xlog_logged])+

lemma fold_logged: "(\<And>x s. logged s (f x s)) \<Longrightarrow> logged sim (fold f xs sim)"
  by (induction xs arbitrary: sim) (auto intro: logged_trans)

lemma old_hexdump_logged:
  assumes "n \<le> length mem"
  shows "\<exists>sim'. old_hexdump func line pri mem n addr sim = Inr sim' \<and> logged sim sim'"
proof -
  obtain rows where "xlog_log_hexdump (x_loglevel sim) pri (take n mem) addr = Inr rows"
    using hexdump_returns by blast
  then show ?thesis using assms by (auto simp: old_hexdump_def split_beta intro: fold_logged)
qed

lemma sent_put_out [simp]: "sent (put_out e sim) = sent sim @ sent_of e"
  by (simp add: sent_def put_out_def)

lemma x6losim_recv_relays:
  assumes "oh_psdu_len L (take 128 (pktbuf sim)) \<in> {0..128}" and "length (pktbuf sim) = 256" and "n \<le> 256"
  shows "\<exists>sim'. x6losim_recv L (of_nat n) sim = Inr sim' \<and> sent sim' = sent sim @ [(dest sim, take n ((pktbuf sim)[oh_rssi_off L := - 10]))]
    \<and> length (pktbuf sim') = 256 \<and> dest sim' = dest sim \<and> x_running sim' = x_running sim \<and> x_quit sim' = x_quit sim"
proof -
  let ?len = "oh_psdu_len L (take 128 (pktbuf sim))"
  have "nat (?len mod 2 ^ 16) \<le> length (drop 128 (pktbuf sim))" using assms(1,2) by auto
  from old_hexdump_logged [OF this] obtain sim2 where
    d: "old_hexdump ''x6losim_recv'' 251 LOG_INFO (drop 128 (pktbuf sim)) (nat (?len mod 2 ^ 16)) 0 (log_rx L sim) = Inr sim2"
      "logged (log_rx L sim) sim2"
    by blast
  have "logged sim sim2" using d(2) logged_trans [of sim "log_rx L sim"] by (simp add: log_rx_def Let_def)
  note f = logged_facts [OF this]
  have "unat (of_nat n :: u16) = n" using assms(3) by (simp add: unat_of_nat take_bit_nat_eq_self)
  moreover have "sent (sim2\<lparr>pktbuf := b\<rparr>) = sent sim2" for b by (simp add: sent_def)
  ultimately show ?thesis
    using d(1) f assms(2,3) by (simp add: x6losim_recv_def NETSIM_PKT_HDR_SZ_def x6losim_send_def dest_def) (simp add: put_out_def)
qed

text \<open>What \<^verbatim>\<open>recvfrom\<close> delivers in a round, and what the loop makes of it.\<close>

definition datagram :: "old_kernel \<Rightarrow> nat \<Rightarrow> byte list" where
  "datagram k t = (case lk_recvfrom k t of RecvData bs \<Rightarrow> bs | RecvErr e \<Rightarrow> [])"

definition relayed :: "old_hdr \<Rightarrow> old_kernel \<Rightarrow> nat list \<Rightarrow> byte list list" where
  "relayed L k ts = map (\<lambda>bs. bs[oh_rssi_off L := - 10]) (filter (\<lambda>bs. bs \<noteq> []) (map (datagram k) ts))"

text \<open>Rounds in which nothing arrives, or a datagram with a whole header that announces at most 128 bytes.\<close>

definition good_round :: "old_hdr \<Rightarrow> old_kernel \<Rightarrow> nat \<Rightarrow> bool" where
  "good_round L k t \<longleftrightarrow> (case lk_recvfrom k t of
       RecvErr e \<Rightarrow> e = EAGAIN
     | RecvData bs \<Rightarrow> bs = [] \<or> 128 \<le> length bs \<and> length bs \<le> 256 \<and> oh_psdu_len L (take 128 bs) \<in> {0..128})"

lemma old_round_relays:
  assumes "good_round L k t" and "length (pktbuf sim) = 256"
  shows "\<exists>pkts' sim'. old_round L k t pkts sim = Inr (pkts', sim') \<and> sent sim' = sent sim @ map (Pair (dest sim)) (relayed L k [t])
    \<and> length (pktbuf sim') = 256 \<and> dest sim' = dest sim \<and> x_running sim' = x_running sim \<and> x_quit sim' = x_quit sim"
proof (cases "lk_recvfrom k t")
  case (RecvErr e)
  then show ?thesis using assms by (simp add: old_round_def good_round_def relayed_def datagram_def)
next
  case (RecvData bs)
  let ?sim = "sim\<lparr>pktbuf := put 0 bs (pktbuf sim)\<rparr>"
  show ?thesis
  proof (cases "bs = []")
    case True
    then show ?thesis using assms(2) RecvData by (simp add: old_round_def relayed_def datagram_def put_def sent_def dest_def)
  next
    case False
    have l: "128 \<le> length bs" "length bs \<le> 256" "oh_psdu_len L (take 128 bs) \<in> {0..128}"
      using assms(1) RecvData False by (simp_all add: good_round_def)
    have p: "length (pktbuf ?sim) = 256" "oh_psdu_len L (take 128 (pktbuf ?sim)) \<in> {0..128}"
        "take (length bs) ((pktbuf ?sim)[i := x]) = bs[i := x]" for i x
      using assms(2) l by (simp_all add: put_def take_update_swap)
    have "sent ?sim = sent sim" "dest ?sim = dest sim" by (simp_all add: sent_def dest_def)
    with x6losim_recv_relays [OF p(2,1) l(2)] p(3) obtain sim1 where
      s: "x6losim_recv L (of_nat (length bs)) ?sim = Inr sim1" "sent sim1 = sent sim @ [(dest sim, bs[oh_rssi_off L := - 10])]"
        "length (pktbuf sim1) = 256" "dest sim1 = dest sim" "x_running sim1 = x_running sim" "x_quit sim1 = x_quit sim"
      by auto
    have w: "(word_of_int (int (length bs)) :: u16) = of_nat (length bs)" by simp
    define sim2 where "sim2 = old_xlog ''main'' 348 LOG_INFO ''%d: Received packet %d from %s''
         (dec_int (int (length bs)) @ '': Received packet '' @ dec_int pkts @ '' from '' @ lk_peer k t) sim1"
    have f: "logged sim1 sim2" by (simp add: sim2_def)
    have "old_round L k t pkts sim = Inr (pkts + 1, sim2)"
      using RecvData False s(1) assms(2) l(2) by (simp add: old_round_def old_process_def Let_def sim2_def)
    then show ?thesis using s logged_facts [OF f] RecvData False by (simp add: relayed_def datagram_def)
  qed
qed

text \<open>A signal that ends the loop: SIGINT or SIGTERM, unless it was ignored when the program was started.\<close>

definition quits :: "old_kernel \<Rightarrow> signum \<Rightarrow> bool" where
  "quits k sig \<longleftrightarrow> sig \<noteq> SIGHUP \<and> lk_disposition k sig \<noteq> SIG_IGN"

lemma old_signals:
  "list_all (\<lambda>x. \<not> quits k x) xs \<Longrightarrow> fold (old_take_signal k) xs sim = sim"
  "list_ex (quits k) xs \<or> x_quit sim \<Longrightarrow> x_quit (fold (old_take_signal k) xs sim)"
  "sent (fold (old_take_signal k) xs sim) = sent sim"
proof (induction xs arbitrary: sim)
  case (Cons x xs)
  have s: "sent (old_take_signal k x sim) = sent sim" "x_quit (old_take_signal k x sim) \<longleftrightarrow> x_quit sim \<or> quits k x"
      "\<not> quits k x \<Longrightarrow> old_take_signal k x sim = sim" for sim
    by (cases x; simp add: old_take_signal_def installed_eq quits_def old_xlog_def put_out_def sent_def)+
  {
    case 1
    then show ?case using Cons.IH(1) s(3) by simp
  next
    case 2
    then show ?case using Cons.IH(2) [of "old_take_signal k x sim"] s(2) by auto
  next
    case 3
    show ?case using Cons.IH(3) s(1) by simp
  }
qed simp_all

lemma old_loop_relays:
  assumes "\<forall>i < n. good_round L k (t + i) \<and> list_all (\<lambda>x. \<not> quits k x) (lk_signals k (t + i))"
    and "list_ex (quits k) (lk_signals k (t + n))"
    and "length (pktbuf sim) = 256" "x_running sim" "\<not> x_quit sim"
  shows "\<exists>sim'. old_loop (Suc n) L k t pkts sim = Some (Inr sim')
    \<and> sent sim' = sent sim @ map (Pair (dest sim)) (relayed L k [t..<t + n])"
  using assms
proof (induction n arbitrary: t pkts sim)
  case 0
  then show ?case using old_signals(2) [of k "lk_signals k t" sim] old_signals(3) by (simp add: relayed_def)
next
  case (Suc n)
  have g: "good_round L k t" "fold (old_take_signal k) (lk_signals k t) sim = sim"
    using Suc.prems(1) old_signals(1) by (metis add_0_right zero_less_Suc)+
  obtain pkts' sim1 where r: "old_round L k t pkts sim = Inr (pkts', sim1)"
      "sent sim1 = sent sim @ map (Pair (dest sim)) (relayed L k [t])" "length (pktbuf sim1) = 256"
      "dest sim1 = dest sim" "x_running sim1" "\<not> x_quit sim1"
    using old_round_relays [OF g(1) Suc.prems(3), of pkts] Suc.prems(4,5) by auto
  have "\<forall>i < n. good_round L k (Suc t + i) \<and> list_all (\<lambda>x. \<not> quits k x) (lk_signals k (Suc t + i))"
    using Suc.prems(1) by (metis Suc_less_eq add_Suc_shift)
  from Suc.IH [OF this _ r(3,5,6), of pkts'] Suc.prems(2) obtain sim' where
    s: "old_loop (Suc n) L k (Suc t) pkts' sim1 = Some (Inr sim')"
      "sent sim' = sent sim1 @ map (Pair (dest sim1)) (relayed L k [Suc t..<Suc t + n])" by auto
  have "relayed L k [t..<t + Suc n] = relayed L k [t] @ relayed L k [Suc t..<Suc t + n]"
    by (simp add: relayed_def upt_conv_Cons del: upt_Suc)
  with s r g(2) Suc.prems(4,5) show ?case by (simp del: old_loop.simps add: old_loop.simps(2) [of "Suc n"])
qed

lemma old_main_serves:
  assumes "set opts \<subseteq> {CHR ''x''}" and "opts = [] \<longrightarrow> lk_fork k = 0 \<and> 0 \<le> lk_setsid k"
  shows "\<exists>sim. old_main fuel L k argv0 opts = old_serve fuel L k sim \<and> sent sim = [] \<and> rx_port sim = 11555
    \<and> length (pktbuf sim) = 256 \<and> \<not> x_quit sim"
proof -
  note p = parse_options_x [OF assms(1)]
  let ?s = "x6lo_init\<lparr>rx_port := 11555, x_loglevel := LOG_DEBUG, x_debug := opts \<noteq> []\<rparr>"
  let ?t = "if opts = [] then put_out (OpenLog ''x6losim'') (put_out (CloseStd 2) (put_out (CloseStd 1) (put_out (CloseStd 0) ?s))) else ?s"
  show ?thesis
    using assms(2) unfolding old_main_def
    by (intro exI [of _ "notice 288 ''x6losim started v%s'' ''x6losim started v0.1.0'' ?t"])
      (auto simp: p daemonize_def Let_def sent_def notice_def old_xlog_def put_out_def x6lo_init_def)
qed

lemma x6losim_recv_overdump:
  assumes "length (drop 128 (pktbuf sim)) < nat (oh_psdu_len L (take 128 (pktbuf sim)) mod 2 ^ 16)" and "LOG_INFO \<le> x_loglevel sim"
  shows "x6losim_recv L len sim = Inl (MemErr ''hexdump: read past the object'')"
proof -
  have "x_loglevel (log_rx L sim) = x_loglevel sim" by (simp add: log_rx_def Let_def old_xlog_def put_out_def)
  then show ?thesis using assms by (simp add: x6losim_recv_def NETSIM_PKT_HDR_SZ_def old_hexdump_def)
qed

text \<open>
  C25: the relay. With valid options and a set-up that succeeds, the program relays what it receives until it is asked to quit: of the first \<open>n\<close> rounds,
  each of which brings nothing or a datagram with a whole header that announces at most 128 bytes, every datagram is sent once and in
  order to the multicast group, with RSSI set to -10; the 802.15.4 frames behind the headers go through unchanged. SIGINT or SIGTERM
  ends the loop at its next head and the program exits with success, unless the signal was ignored from the start; SIGHUP does nothing.
\<close>

theorem old_main_relays:
  assumes "set opts \<subseteq> {CHR ''x''}" and "opts = [] \<longrightarrow> lk_fork k = 0 \<and> 0 \<le> lk_setsid k"
    and "lk_rx_socket k \<noteq> - 1" "lk_bind k (lk_rx_socket k) 11555 = 0"
    and "\<forall>i < n. good_round L k i \<and> list_all (\<lambda>x. \<not> quits k x) (lk_signals k i)"
    and "list_ex (quits k) (lk_signals k n)" and "oh_rssi_off L < NETSIM_PKT_HDR_SZ"
  shows "\<exists>sim'. old_main (Suc n) L k argv0 opts = (Exit EXIT_SUCCESS, sim')
    \<and> sent sim' = map (Pair (lk_mcast_socket k, ''224.1.1.1'', 22411)) (relayed L k [0..<n])
    \<and> map (drop NETSIM_PKT_HDR_SZ) (relayed L k [0..<n]) =
        map (drop NETSIM_PKT_HDR_SZ) (filter (\<lambda>bs. bs \<noteq> []) (map (datagram k) [0..<n]))"
proof -
  obtain sim2 where s2: "old_main (Suc n) L k argv0 opts = old_serve (Suc n) L k sim2" "sent sim2 = []" "rx_port sim2 = 11555"
      "length (pktbuf sim2) = 256" "\<not> x_quit sim2"
    using old_main_serves [OF assms(1,2)] by blast
  let ?sim = "sim2\<lparr>rx_sockfd := lk_rx_socket k, x_mcastsockfd := lk_mcast_socket k,
    tx_servaddr := (''224.1.1.1'', 22411), x_running := True\<rparr>"
  note f = logged_facts [OF notices_logged(1) [of ?sim]]
  have "sent (log_started ?sim) = []" "dest (log_started ?sim) = (lk_mcast_socket k, ''224.1.1.1'', 22411)"
    using f(1,3) s2(2) by (simp_all add: sent_def dest_def)
  then obtain sim5 where l: "old_loop (Suc n) L k 0 0 (log_started ?sim) = Some (Inr sim5)"
      "sent sim5 = map (Pair (lk_mcast_socket k, ''224.1.1.1'', 22411)) (relayed L k [0..<n])"
    using old_loop_relays [of n L k 0 "log_started ?sim" 0] assms(5,6) f s2(4,5) by auto
  have "sent (log_finished sim5) = sent sim5" using notices_logged(2) by (rule logged_facts)
  moreover have "old_serve (Suc n) L k sim2 = (Exit EXIT_SUCCESS, log_finished sim5)"
    using assms(3,4) l(1) s2(3) by (simp add: old_serve_def Let_def del: old_loop.simps)
  moreover have "drop NETSIM_PKT_HDR_SZ (bs[oh_rssi_off L := - 10]) = drop NETSIM_PKT_HDR_SZ bs" for bs :: "byte list"
    using assms(7) by simp
  ultimately show ?thesis using s2(1) l(2) by (simp add: relayed_def comp_def)
qed

text \<open>A run that receives one datagram, with a layout that has the length in byte 2 and RSSI in byte 9.\<close>

definition demo_hdr :: old_hdr where
  "demo_hdr = \<lparr> oh_psdu_len = (\<lambda>h. uint (h ! 2)), oh_rep_code = (\<lambda>h. 0), oh_rssi_off = 9 \<rparr>"

definition demo_old_kernel :: old_kernel where
  "demo_old_kernel = \<lparr> lk_fork = 0, lk_setsid = 1, lk_rx_socket = 3, lk_mcast_socket = 4, lk_bind = (\<lambda>fd p. 0),
     lk_recvfrom = (\<lambda>t. if t = 1 then RecvData (replicate 130 1) else RecvErr EAGAIN), lk_peer = (\<lambda>t. ''10.0.0.1''),
     lk_disposition = (\<lambda>sig. if sig = SIGINT then SIG_IGN else SIG_DFL), lk_signals = (\<lambda>t. if t = 2 then [SIGTERM] else [SIGHUP, SIGINT]) \<rparr>"

lemma demo_old_rounds:
  "\<forall>i < 2. good_round demo_hdr demo_old_kernel i \<and> list_all (\<lambda>x. \<not> quits demo_old_kernel x) (lk_signals demo_old_kernel i)"
  "relayed demo_hdr demo_old_kernel [0..<2] = [(replicate 130 1)[9 := - 10]]"
  by (auto simp: good_round_def demo_hdr_def demo_old_kernel_def relayed_def datagram_def quits_def numeral_2_eq_2)

theorem old_main_relays_witness:
  "\<exists>sim'. old_main 3 demo_hdr demo_old_kernel ''x6losim'' [] = (Exit EXIT_SUCCESS, sim') \<and> sent sim' = [((4, ''224.1.1.1'', 22411), (replicate 130 1)[9 := - 10])]"
proof -
  have "lk_fork demo_old_kernel = 0" "0 \<le> lk_setsid demo_old_kernel" "lk_rx_socket demo_old_kernel \<noteq> - 1"
      "lk_bind demo_old_kernel (lk_rx_socket demo_old_kernel) 11555 = 0"
      "list_ex (quits demo_old_kernel) (lk_signals demo_old_kernel 2)" "oh_rssi_off demo_hdr < NETSIM_PKT_HDR_SZ"
    by (simp_all add: demo_old_kernel_def demo_hdr_def NETSIM_PKT_HDR_SZ_def quits_def)
  then have "\<exists>sim'. old_main (Suc 2) demo_hdr demo_old_kernel ''x6losim'' [] = (Exit EXIT_SUCCESS, sim')
      \<and> sent sim' = map (Pair (lk_mcast_socket demo_old_kernel, ''224.1.1.1'', 22411)) (relayed demo_hdr demo_old_kernel [0..<2])"
    using old_main_relays [OF _ _ _ _ demo_old_rounds(1), of "[]" "''x6losim''"] by auto
  then show ?thesis unfolding demo_old_rounds(2) by (simp add: demo_old_kernel_def)
qed

text \<open>
  C39: two faults of the relay. When \<^verbatim>\<open>recvfrom\<close> fails with an error other than \<^verbatim>\<open>EAGAIN\<close>, the round goes on with \<^verbatim>\<open>n == -1\<close> and asks for 65535 bytes
  of the buffer of 256; and a datagram whose header announces more than 128 bytes is dumped past the end of the buffer.
\<close>

theorem old_round_overreads:
  assumes "length (pktbuf sim) = 256" and "LOG_INFO \<le> x_loglevel sim"
  shows "(\<forall>e. lk_recvfrom k t = RecvErr e \<and> e \<noteq> EAGAIN \<longrightarrow> (\<exists>m. old_round L k t pkts sim = Inl (MemErr m)))
    \<and> (\<forall>bs. lk_recvfrom k t = RecvData bs \<and> bs \<noteq> [] \<and> 128 < oh_psdu_len L (take 128 (put 0 bs (pktbuf sim))) mod 2 ^ 16 \<longrightarrow>
         (\<exists>m. old_round L k t pkts sim = Inl (MemErr m)))"
proof (intro conjI allI impI)
  fix e
  assume e: "lk_recvfrom k t = RecvErr e \<and> e \<noteq> EAGAIN"
  have "(word_of_int (- 1) :: u16) = - 1" by simp
  moreover have "\<exists>m. x6losim_recv L (- 1) sim = Inl (MemErr m)"
  proof (cases "nat (oh_psdu_len L (take 128 (pktbuf sim)) mod 2 ^ 16) \<le> length (drop 128 (pktbuf sim))")
    case True
    from old_hexdump_logged [OF this, of "''x6losim_recv''" 251 LOG_INFO 0 "log_rx L sim"] obtain sim2 where
      d: "old_hexdump ''x6losim_recv'' 251 LOG_INFO (drop 128 (pktbuf sim))
        (nat (oh_psdu_len L (take 128 (pktbuf sim)) mod 2 ^ 16)) 0 (log_rx L sim) = Inr sim2" "logged (log_rx L sim) sim2" by blast
    have "length (pktbuf sim2) = 256"
      using logged_facts(2) [OF d(2)] assms(1) by (simp add: log_rx_def Let_def old_xlog_def put_out_def)
    then show ?thesis using d(1) by (simp add: x6losim_recv_def NETSIM_PKT_HDR_SZ_def x6losim_send_def unsigned_minus_1_eq_mask mask_eq_exp_minus_1)
  next
    case False
    then show ?thesis using assms(2) by (simp add: x6losim_recv_overdump)
  qed
  ultimately show "\<exists>m. old_round L k t pkts sim = Inl (MemErr m)"
    using e by (auto simp: old_round_def old_process_def EAGAIN_def EWOULDBLOCK_def)
next
  fix bs
  assume bs: "lk_recvfrom k t = RecvData bs \<and> bs \<noteq> [] \<and> 128 < oh_psdu_len L (take 128 (put 0 bs (pktbuf sim))) mod 2 ^ 16"
  show "\<exists>m. old_round L k t pkts sim = Inl (MemErr m)"
  proof (cases "length bs \<le> 256")
    case True
    let ?sim = "sim\<lparr>pktbuf := put 0 bs (pktbuf sim)\<rparr>"
    have "x6losim_recv L len ?sim = Inl (MemErr ''hexdump: read past the object'')" for len
      using bs assms True by (intro x6losim_recv_overdump) auto
    then show ?thesis using bs True assms(1) by (auto simp: old_round_def old_process_def Let_def)
  qed (use bs assms(1) in \<open>simp add: old_round_def\<close>)
qed

theorem old_round_overreads_witness:
  "\<exists>m. old_round demo_hdr (demo_old_kernel\<lparr>lk_recvfrom := \<lambda>t. RecvErr 4\<rparr>) 0 0 (x6lo_init\<lparr>x_loglevel := LOG_DEBUG\<rparr>) = Inl (MemErr m)"
  using old_round_overreads [of "x6lo_init\<lparr>x_loglevel := LOG_DEBUG\<rparr>" "demo_old_kernel\<lparr>lk_recvfrom := \<lambda>t. RecvErr 4\<rparr>" 0 demo_hdr 0]
  by (simp add: x6lo_init_def LOG_INFO_def LOG_DEBUG_def EAGAIN_def)

text \<open>
  The ways the start of the program ends it. An option other than \<^verbatim>\<open>-x\<close> prints the usage and exits with failure, as do a failed fork and a failed
  \<^verbatim>\<open>setsid\<close>; the parent of a successful fork exits with success; without a receiving socket, or when it cannot be bound to
  port 11555, the program exits with failure. In none of these cases is anything sent.
\<close>

theorem old_main_exits:
  "(\<not> set opts \<subseteq> {CHR ''x''} \<longrightarrow> fst (old_main fuel L k argv0 opts) = Exit EXIT_FAILURE)
   \<and> (opts = [] \<and> lk_fork k < 0 \<longrightarrow> fst (old_main fuel L k argv0 opts) = Exit EXIT_FAILURE)
   \<and> (opts = [] \<and> 0 < lk_fork k \<longrightarrow> fst (old_main fuel L k argv0 opts) = Exit EXIT_SUCCESS)
   \<and> (opts = [] \<and> lk_fork k = 0 \<and> lk_setsid k < 0 \<longrightarrow> fst (old_main fuel L k argv0 opts) = Exit EXIT_FAILURE)
   \<and> (set opts \<subseteq> {CHR ''x''} \<and> (opts = [] \<longrightarrow> lk_fork k = 0 \<and> 0 \<le> lk_setsid k)
       \<and> (lk_rx_socket k = - 1 \<or> lk_bind k (lk_rx_socket k) 11555 \<noteq> 0) \<longrightarrow>
       (\<exists>sim'. old_main fuel L k argv0 opts = (Exit EXIT_FAILURE, sim') \<and> sent sim' = []))"
proof (intro conjI impI)
  assume "\<not> set opts \<subseteq> {CHR ''x''}"
  then have "parse_options opts b = None" for b by (induction opts arbitrary: b) auto
  then show "fst (old_main fuel L k argv0 opts) = Exit EXIT_FAILURE" by (simp add: old_main_def Let_def)
next
  assume a: "set opts \<subseteq> {CHR ''x''} \<and> (opts = [] \<longrightarrow> lk_fork k = 0 \<and> 0 \<le> lk_setsid k)
       \<and> (lk_rx_socket k = - 1 \<or> lk_bind k (lk_rx_socket k) 11555 \<noteq> 0)"
  then obtain sim where s: "old_main fuel L k argv0 opts = old_serve fuel L k sim" "sent sim = []" "rx_port sim = 11555"
    using old_main_serves by blast
  then show "\<exists>sim'. old_main fuel L k argv0 opts = (Exit EXIT_FAILURE, sim') \<and> sent sim' = []"
    using a by (auto simp: old_serve_def Let_def sent_def put_out_def)
qed (simp_all add: old_main_def daemonize_def Let_def)

theorem old_main_exits_witness:
  "fst (old_main 1 demo_hdr demo_old_kernel ''x6losim'' ''y'') = Exit EXIT_FAILURE
   \<and> fst (old_main 1 demo_hdr (demo_old_kernel\<lparr>lk_fork := 77\<rparr>) ''x6losim'' []) = Exit EXIT_SUCCESS"
  using old_main_exits [of "''y''" 1 demo_hdr demo_old_kernel "''x6losim''"]
    old_main_exits [of "[]" 1 demo_hdr "demo_old_kernel\<lparr>lk_fork := 77\<rparr>" "''x6losim''"]
  by simp

end
