(* ===== verification/Spec2Isabelle.thy ===== *)
theory Spec2Isabelle
  imports Medium_Faults Medium_Collisions Process Node_Client Legacy
begin

text \<open>
  x6losim: a simulator of Hanadu powerline and 802.15.4 wireless networks. Simulated nodes (QEMU instances or the test client) connect
  over TCP, one connection per node. The simulator registers them, answers clear-channel requests, and
  multicasts the 802.15.4 frames they send unless they collide. The process has three threads: the main thread accepts
  connections and creates nodes; each of the two media has a thread that polls its nodes' sockets, expires registrations
  and runs the transmissions.

  \<^bold>\<open>Theories and sources.\<close>

  \<^item> \<^verbatim>\<open>X6_Prelude\<close>: machine types, faults (a failed assert, a thrown string, an access outside an object, a call that never
    returns) as the left of a sum, sequencing with \<^verbatim>\<open>bindE\<close>, little-endian words, buffer reads and writes.
  \<^item> \<^verbatim>\<open>Wire\<close>: \<^verbatim>\<open>src/src/x6losim_interface.h\<close>, the packed structures as records with their byte images.
  \<^item> \<^verbatim>\<open>Checksum\<close>, \<^verbatim>\<open>Packets\<close>: \<^verbatim>\<open>generate_checksum\<close>, the messages and \<^verbatim>\<open>NetSimPacket\<close> (\<^verbatim>\<open>DeviceNode.cpp\<close>, \<^verbatim>\<open>Simulator.hpp\<close>).
  \<^item> \<^verbatim>\<open>Time_Utils\<close>: \<^verbatim>\<open>src/src/utils/time.cpp\<close>, at the widths of C.
  \<^item> \<^verbatim>\<open>Kernel\<close>: the operating system, pcap and the allocator, which are not part of the repository, as a parameter.
  \<^item> \<^verbatim>\<open>Sockets\<close>: \<^verbatim>\<open>src/src/socket/Socket.cpp\<close> and \<^verbatim>\<open>Socket.hpp\<close>.
  \<^item> \<^verbatim>\<open>Device_Timer\<close>, \<^verbatim>\<open>Device_Nodes\<close>, \<^verbatim>\<open>Node_States\<close>: \<^verbatim>\<open>src/src/sim/DeviceNode.cpp\<close>, the node object, its timers, its state classes and
    \<^verbatim>\<open>readMsg\<close>; \<^verbatim>\<open>Device_Nodes\<close> also holds the medium's tables and lists, because nodes and media call each other.
  \<^item> \<^verbatim>\<open>Node_Table\<close>, \<^verbatim>\<open>Medium\<close>, \<^verbatim>\<open>Medium_Setup\<close>: \<^verbatim>\<open>src/src/sim/PhysicalMedium.cpp\<close>, the maps, the thread with both collision checks, and
    construction and destruction.
  \<^item> \<^verbatim>\<open>Simulator\<close>, \<^verbatim>\<open>Main_Program\<close>, \<^verbatim>\<open>Logging\<close>: \<^verbatim>\<open>src/src/sim/Simulator.cpp\<close>, \<^verbatim>\<open>src/src/main.cpp\<close>, \<^verbatim>\<open>src/src/log/log.cpp\<close>.
  \<^item> \<^verbatim>\<open>Process\<close>: the main thread of \<^verbatim>\<open>main.cpp\<close> and \<^verbatim>\<open>Simulator.cpp\<close> and the two threads of \<^verbatim>\<open>PhysicalMedium.cpp\<close> side by side.
  \<^item> \<^verbatim>\<open>Node_Client\<close>: the client of the protocol, \<^verbatim>\<open>src/test/nodesim/common.cpp\<close>, and the program \<^verbatim>\<open>TxOnePacket.cpp\<close>.
  \<^item> \<^verbatim>\<open>Legacy\<close>: \<^verbatim>\<open>src/src/x6losim.c\<close>, the single-threaded relay that came before, which the build no longer includes; the layout of the older header it
    reads is a parameter.

  \<^bold>\<open>State.\<close> The state \<^verbatim>\<open>sys\<close> of one medium has a heap of node objects by address, the two node maps as
  entry lists in iteration order, the two lists, the state of the thread, the statistics, and the outside world \<^verbatim>\<open>io\<close>: the number of calls
  made and the log of what was done. Every operation is one definition on this state, with one branch per
  assertion, exception and early return. A dangling pointer is an address that is not in the heap, and
  following it is a fault. Loops with \<^verbatim>\<open>erase\<close> are recursions over the entries still to visit.

  \<^bold>\<open>What is shown.\<close>

  \<^item> \<^verbatim>\<open>Medium_Inv\<close> defines the invariant \<^verbatim>\<open>wf\<close> of a medium; \<^verbatim>\<open>Medium_Ops\<close>, \<^verbatim>\<open>Node_Life\<close>, \<^verbatim>\<open>Medium_Tx\<close> and \<^verbatim>\<open>Medium_Expiry\<close> give the exact
    effect of each operation in a state that satisfies it and that it is kept; \<^verbatim>\<open>Node_Messages\<close> does so for \<^verbatim>\<open>readMsg\<close> by message.
  \<^item> \<^verbatim>\<open>Medium_Loop\<close>: the thread as a step relation with nodes joining and the stop in between; the invariant of all states reached by
    orderly rounds, progress without faults when no events arrive, the end of transmissions, and the end of the thread.
  \<^item> \<^verbatim>\<open>Medium_Thread\<close>: a relation between states that all operations of the thread respect is respected by its steps; \<^verbatim>\<open>Medium_Spec\<close> and \<^verbatim>\<open>Medium_Wire\<close> are
    two uses of it.
  \<^item> \<^verbatim>\<open>Medium_Spec\<close>: an abstract medium with no tables, timers or messages, whose steps are labelled with what happens (a node arrives, leaves, sends a
    given frame, a round ends the transmissions of given nodes), and the refinement of it by both media, with the collided frames, the frames passed on and
    both counters accounted for.
  \<^item> \<^verbatim>\<open>Medium_Collisions\<close>: the history of who has been on the air together with whom. In it a frame of the powerline medium is passed on exactly when it has
    met no other from the time it was sent, and frames that have met never are.
  \<^item> \<^verbatim>\<open>Medium_Wire\<close>: whatever well-formed or malformed messages the nodes send, a medium writes and multicasts only valid messages of the right types.
  \<^item> \<^verbatim>\<open>Main_Program\<close>: what signals and exceptions do to the whole program; \<^verbatim>\<open>Legacy\<close>: what the old program relays, and where it reads too far.
  \<^item> \<^verbatim>\<open>Process\<close>: every interleaving of the three threads and of signals. A run of the process is, for each medium, a run of that medium with joins and stops, so
    the invariant and the traffic of the media hold in the process; the main thread's steps are \<^verbatim>\<open>start\<close>; after a signal the process ends.
  \<^item> \<^verbatim>\<open>Medium_Faults\<close> and parts of \<^verbatim>\<open>Node_Messages\<close>, \<^verbatim>\<open>Packets\<close>, \<^verbatim>\<open>Sockets\<close> and \<^verbatim>\<open>Simulator\<close>: what the code does where it faults.
  \<^item> \<^verbatim>\<open>Node_Client\<close> and the end of this theory: both ends of the protocol run against each other, a frame through a round of the thread.

  \<^bold>\<open>Interfaces.\<close> The locales \<^verbatim>\<open>packet_layout\<close> (a packed structure with a header; interpreted on every structure), the locale \<^verbatim>\<open>node_table\<close>
  (the map interface; interpreted on the entry lists), \<^verbatim>\<open>collision_policy\<close> and \<^verbatim>\<open>air_policy\<close> (what the thread needs of the virtual
  \<^verbatim>\<open>txCollisionCheck\<close>; both interpreted on the checks of the two media), and \<^verbatim>\<open>thread_rel\<close> (the operations of the thread respect a relation; a consequence of
  \<^verbatim>\<open>air_policy\<close> for the abstract medium and of \<^verbatim>\<open>collision_policy\<close> for the traffic).

  \<^bold>\<open>Assumptions of the model.\<close> Assertions are enabled; the host is 64-bit and little-endian; logging has no effect on the state; the statistics
  counters do not overflow. \<^verbatim>\<open>getNodeId\<close> of a node is the address of its socket object, as in the source. A round of a loop is atomic
  with respect to the other threads, except where stated (\<^verbatim>\<open>addNode\<close> is two steps in \<^verbatim>\<open>Medium_Faults\<close>). Runs of a medium and of the process
  choose the kernel anew at every step, so that no fixed schedule of outcomes is built in. What theorems assume of
  the kernel (progress of \<^verbatim>\<open>send\<close>, working timers, fresh addresses from the allocator) is named in their hypotheses.

  The step relations \<^verbatim>\<open>reachable\<close> (one medium) and \<^verbatim>\<open>process_reachable\<close> (the process) take the restriction on runs as their first argument; with \<^verbatim>\<open>True\<close> every run
  is one. The theorems on reachable states are about runs restricted by \<^verbatim>\<open>listed_stay\<close> and \<^verbatim>\<open>act_ok\<close>: the polls report only nodes of the medium, new nodes get fresh addresses,
  and no node deregisters or disconnects while it is on the transmit list or the clear-channel list. The program does not ensure the last: a node that does leave then
  stays on the list as a dangling pointer, and the invariant is lost (theory \<^verbatim>\<open>Medium_Faults\<close>). Theorems on passes over the transmit list
  also assume \<^verbatim>\<open>frames_ok\<close>, that the announced frame length of every packet on the list fits its packet, which \<^verbatim>\<open>readMsg\<close> does not check; \<^verbatim>\<open>txPacket\<close> reads out of bounds otherwise.

  That logging has no effect on the state passes over one read: when \<^verbatim>\<open>send\<close> fails, \<^verbatim>\<open>sendMsg\<close> logs the message with \<^verbatim>\<open>%s\<close>, though messages are not terminated
  strings, and so may read beyond the message.

  \<^bold>\<open>Fuel and loops.\<close> \<^verbatim>\<open>sendMsg_loop\<close> and \<^verbatim>\<open>removeTx_loop\<close> are partial functions into options, with \<^verbatim>\<open>Diverge\<close> for a call that does not return;
  the first is proved to return, the second not to. \<^verbatim>\<open>run_steps\<close>, \<^verbatim>\<open>start_loop\<close>, \<^verbatim>\<open>sim_main\<close>, \<^verbatim>\<open>old_loop\<close> and \<^verbatim>\<open>old_main\<close> take the number of rounds as fuel, since the loops run until
  they are stopped; the theorems that they end name the number of rounds. \<^verbatim>\<open>run_process\<close> follows a given schedule of the threads. All other loops are structural.

  \<^bold>\<open>Not modelled.\<close> The format of log lines beyond \<^verbatim>\<open>_xlog\<close> and the hex dump; data races on the medium's state between the
  threads beyond the interleavings of \<^verbatim>\<open>Medium_Loop\<close>, \<^verbatim>\<open>Process\<close> and \<^verbatim>\<open>Medium_Faults\<close>;
  \<^verbatim>\<open>prctl\<close>, signal masks and file modes, which are process set-up; \<^verbatim>\<open>connect_no_reg_con.cpp\<close>, whose functions \<^verbatim>\<open>send_reg_confirm\<close> and \<^verbatim>\<open>send_dereg_req\<close> are not in the repository; the unit and
  system tests, which have no bodies.
\<close>

section \<open>A frame from one client to the others\<close>

text \<open>The packet object the simulator makes of a message it has read, and what the client's data indication carries.\<close>

definition stored_packet :: "byte list \<Rightarrow> nptr \<Rightarrow> NetSimPacket" where
  "stored_packet m p = \<lparr> pktBufferLen = length m, pktBuffer = clear_cksum m, fromNode = p, collision = False, txDoneResult = 0 \<rparr>"

lemma NetSimPacket_new_stored:
  assumes "well_sized m"
  shows "NetSimPacket_new (clear_cksum m) p = Inr (stored_packet m p)"
proof -
  have 18: "18 \<le> length m" using assms by (simp add: well_sized_def size_defs)
  have l: "length (clear_cksum m) = length m" using 18 by (simp add: clear_cksum_def size_defs)
  have "get 0 2 (clear_cksum m) = take 2 m" using 18 by (simp add: clear_cksum_def size_defs get_put_before) (simp add: get_def)
  then show ?thesis
    using 18 l well_sized_ntohs(1) [OF assms] by (simp add: NetSimPacket_new_def stored_packet_def)
qed

lemma clear_cksum_frame:
  assumes "34 \<le> length m"
  shows "psdu_len_of (clear_cksum m) = psdu_len_of m" "frame_of (clear_cksum m) = frame_of m" "sendable (clear_cksum m) = sendable m"
  using assms by (simp_all add: psdu_len_of_def frame_of_def sendable_def clear_cksum_def size_defs get_put_after)

lemma client_frame:
  "psdu_len_of (tx_data_ind_msg i x a n r t m) = unat n" "frame_of (tx_data_ind_msg i x a n r t m) = map of_nat [0..<unat n]"
  "sendable (tx_data_ind_msg i x a n r t m)"
proof -
  have "get 26 2 (mem_hdr h @ le_bytes 8 (a :: u64) @ le_bytes 2 (b :: u16) @ z) = le_bytes 2 b" for h a b z
    by (simp add: get_def)
  then show p: "psdu_len_of (tx_data_ind_msg i x a n r t m) = unat n"
    unfolding psdu_len_of_def tx_data_ind_msg_def data_ind.mem_seal by (simp add: size_defs)
  show "frame_of (tx_data_ind_msg i x a n r t m) = map of_nat [0..<unat n]"
    unfolding frame_of_def p unfolding tx_data_ind_msg_def data_ind.mem_seal by (simp add: size_defs get_def)
  show "sendable (tx_data_ind_msg i x a n r t m)" using p by (simp add: sendable_def client_msg_lengths size_defs)
qed

lemma client_image:
  assumes "unat n \<le> 221" and "m = tx_data_ind_msg i x a n r t cm"
  shows "frame_of (tx_image (clear_cksum m)) = map of_nat [0..<unat n]" "length (tx_image (clear_cksum m)) = 34 + unat n"
    "sendable (tx_image (clear_cksum m))" "valid_frame i MSG_TYPE_TX_DATA_IND (tx_image (clear_cksum m))"
proof -
  have m: "valid_frame i MSG_TYPE_TX_DATA_IND m" "length m = 34 + unat n" "frame_of m = map of_nat [0..<unat n]" "sendable m"
    using assms client_msgs_valid(4) client_msg_lengths(4) client_frame(2,3) by auto
  then show "frame_of (tx_image (clear_cksum m)) = map of_nat [0..<unat n]" "length (tx_image (clear_cksum m)) = 34 + unat n"
      "valid_frame i MSG_TYPE_TX_DATA_IND (tx_image (clear_cksum m))"
    using tx_image_valid [OF m(1,4)] by simp_all
  show "sendable (tx_image (clear_cksum m))" using tx_image_frame(4) clear_cksum_frame(3) m by simp
qed

lemma mcastRx_image:
  assumes "k_recv k (Suc (io_tick w)) (rxmcast_sockfd c) 256 = RecvData img" and "sendable img" and "length img \<le> 256"
  shows "mcastRxDataPacket k c w = Inr (frame_of img, tick (tick w))"
proof -
  have l: "34 \<le> length img" using assms(2) by (simp add: sendable_def size_defs)
  have "get off n (put 0 img b) = get off n img" if "off + n \<le> length img" for off n b
    using that by (simp add: put_def get_append_left)
  then show ?thesis
    using assms l by (auto simp: mcastRxDataPacket_def Let_def sendable_def frame_of_def psdu_len_of_def size_defs)
qed

text \<open>The first half of the journey: a data indication of the client that arrives puts its node on the air.\<close>

lemma client_frame_read:
  assumes "wf s" and "registered s p" and "heap s p = Some n" "idle_node n" and "txList s = []"
    and "m = tx_data_ind_msg (socket_ptr n) x a len r tp cm" and "unat len \<le> 221"
    and "delivers k (sio s) (sock_fd (dn_socket n)) m" and "timers_ok k"
  shows "\<exists>t w. readMsg k p s = Inr (set_node p (transmitting (stored_packet m p) t n) (s\<lparr>txList := [p], sio := w\<rparr>))
    \<and> wf (set_node p (transmitting (stored_packet m p) t n) (s\<lparr>txList := [p], sio := w\<rparr>)) \<and> io_out w = io_out (sio s)"
proof -
  let ?s0 = "s\<lparr>sio := tick (tick (tick (sio s)))\<rparr>" and ?pkt = "stored_packet m p"
  have v: "valid_frame (socket_ptr n) MSG_TYPE_TX_DATA_IND m" and l: "length m = 34 + unat len"
    using assms(6,7) client_msgs_valid(4) client_msg_lengths(4) by auto
  have "len_passes (length m)" using client_msgs_pass(4) assms(6,7) by simp
  then have "readMsg k p s = handleDataIndication k p (clear_cksum m) ?s0"
    using readMsg_delivered [OF assms(3,8) valid_well_sized [OF v]] v assms(3)
    by (simp add: on_message_def valid_frame_def dispatch_def)
  moreover have "NetSimPacket_new (clear_cksum m) p = Inr ?pkt" using valid_well_sized [OF v] by (rule NetSimPacket_new_stored)
  moreover have "0 < pktBufferLen ?pkt" using l by (simp add: stored_packet_def)
  ultimately obtain t where "readMsg k p s = Inr (set_node p (transmitting ?pkt t n) (?s0\<lparr>txList := [p], sio := tick (tick (sio ?s0))\<rparr>))"
      "wf (set_node p (transmitting ?pkt t n) (?s0\<lparr>txList := [p], sio := tick (tick (sio ?s0))\<rparr>))"
    using handleDataIndication_idle [of ?s0 p n "clear_cksum m" ?pkt k] assms(1-5,9) by auto
  then show ?thesis by (intro exI [of _ t] exI [of _ "tick (tick (sio ?s0))"]) simp
qed

text \<open>The second half: a pass over the transmit list with the node alone on it and its timer expired.\<close>

lemma client_frame_sent:
  assumes "wf s" and "txList s = [p]" and "heap s p = Some (transmitting (stored_packet m p) t n)"
    and "m = tx_data_ind_msg (socket_ptr n) x a len r tp cm" and "unat len \<le> 221"
    and "send_ok k" "timers_ok k" "\<And>t. expired_at k t"
  shows "\<exists>s'. processTxList k s = Inr s' \<and> wf s' \<and> txList s' = [] \<and> tx_outcome k s s' [p]
    \<and> mcasts (io_out (sio s')) = mcasts (io_out (sio s)) @ [tx_image (clear_cksum m)]
    \<and> (\<forall>fd. stream fd (io_out (sio s')) = stream fd (io_out (sio s))
         @ (if fd = sock_fd (dn_socket n) then tx_done_ind_msg (socket_ptr n) TX_DONE_OK else []))"
proof -
  have p: "pkt_of s p = stored_packet m p" "id_of s p = socket_ptr n" "fd_of s p = sock_fd (dn_socket n)"
    using assms(3) by (simp_all add: pkt_of_def id_of_def fd_of_def transmitting_def)
  have "sendable (clear_cksum m)"
    using clear_cksum_frame(3) [of m] client_frame(3) client_msg_lengths(4) by (simp add: assms(4))
  then have f: "frames_ok s" using p(1) assms(2) by (simp add: frames_ok_def stored_packet_def)
  obtain s' where s': "processTxList k s = Inr s'" "wf s'" "tx_outcome k s s' [p]" "txList s' = []"
    using processTx_loop_outcome [OF _ assms(7,1) _ f, of "[]" "[p]"] assms(2,6,8) by (auto simp: processTxList_def send_ok_def)
  moreover have "images s [p] = [tx_image (clear_cksum m)]"
      "done_msg s fd p = (if fd = sock_fd (dn_socket n) then tx_done_ind_msg (socket_ptr n) TX_DONE_OK else [])" for fd
    using p by (simp_all add: images_def done_msg_def stored_packet_def tx_result_def)
  ultimately show ?thesis using assms(6) by (intro exI [of _ s']) (simp add: tx_outcome_def)
qed


text \<open>A round of the thread whose only event is that the node's socket is readable.\<close>

definition readable :: "nptr \<Rightarrow> epoll_event" where
  "readable p = \<lparr> ev_rdhup = False, ev_in = True, ev_ptr = EpNode p \<rparr>"

lemma interval_readable:
  assumes "timers_ok k" and "k_epoll_wait k (Suc (io_tick (sio s))) = EpollEvents [readable p]"
  shows "interval k ms s = readMsg k p (s\<lparr>curTime := timespec_add_ms (curTime s) (ms mod 2 ^ 64), sio := tick (tick (sio s))\<rparr>)"
proof -
  have "bindE r Inr = r" for r :: "sys res" by (cases r) simp_all
  then show ?thesis
    using assms
    by (simp add: interval_def Let_def timers_ok_def processPollerEvents_def EPOLL_MAX_EVENTS_def processEvent_def readable_def bindE_assoc)
qed

lemma alone_no_collision:
  assumes "txList s = [p]" and "check \<in> {powerline_txCollisionCheck, wireless_txCollisionCheck}"
  shows "check s = Inr s"
  using assms by (auto simp: powerline_txCollisionCheck_def wireless_txCollisionCheck_def)

lemma processCcaList_none: "ccaList s = [] \<Longrightarrow> processCcaList k s = Inr s"
  by (simp add: processCcaList_def)

text \<open>The kernel of the witness: the socket of the only node becomes readable and delivers the message.\<close>

definition delivering_to :: "nptr \<Rightarrow> byte list \<Rightarrow> kernel" where
  "delivering_to p m = (delivering m)\<lparr>k_epoll_wait := \<lambda>t. EpollEvents [readable p]\<rparr>"

text \<open>
  C9: a frame from one client to the others, through the thread of either medium. Let the medium be idle and its only event be that the socket of a registered, idle
  node is readable, with the data indication that the client's \<^verbatim>\<open>sendTxDataInd\<close> builds. Then the round of \<^verbatim>\<open>run\<close> accepts it, puts the node on
  the air, alone, and writes nothing. The next pass of the inner loop, after the transmission timer has expired, takes the node off the air, reports success to
  that node, writes to no other, and multicasts exactly one message. That message is a valid data indication of the
  sender, and a client that receives it with \<^verbatim>\<open>mcastRxDataPacket\<close> finds the bytes that were sent.
  The bound on the frame is the largest for which the total stays below 256 bytes.
\<close>

theorem client_frame_travels:
  assumes "check \<in> {powerline_txCollisionCheck, wireless_txCollisionCheck}"
    and "wf s" "pm_state s = IDLE" "txList s = []" "ccaList s = []" and "registered s p" "heap s p = Some n" "idle_node n"
    and "m = tx_data_ind_msg (socket_ptr n) x a len r tp cm" "unat len \<le> 221" and "fd = sock_fd (dn_socket n)"
    and "k_epoll_wait k (Suc (io_tick (sio s))) = EpollEvents [readable p]" "delivers k (tick (tick (sio s))) fd m" "timers_ok k"
    and "send_ok k'" "quiet k'" "\<And>t. expired_at k' t"
  shows "\<exists>s1 s2 img. run_step check k (Outer, s) = Inr (Inner, s1) \<and> txList s1 = [p] \<and> pm_state s1 = TX_802514_FRAME
    \<and> io_out (sio s1) = io_out (sio s)
    \<and> run_step check k' (Inner, s1) = Inr (Inner, s2) \<and> wf s2 \<and> txList s2 = []
    \<and> mcasts (io_out (sio s2)) = mcasts (io_out (sio s)) @ [img]
    \<and> (\<forall>f. stream f (io_out (sio s2)) = stream f (io_out (sio s)) @ (if f = fd then tx_done_ind_msg (socket_ptr n) TX_DONE_OK else []))
    \<and> valid_frame (socket_ptr n) MSG_TYPE_TX_DATA_IND img
    \<and> (\<forall>kr c w. k_recv kr (Suc (io_tick w)) (rxmcast_sockfd c) 256 = RecvData img \<longrightarrow>
         mcastRxDataPacket kr c w = Inr (map of_nat [0..<unat len], tick (tick w)))"
proof -
  let ?s0 = "s\<lparr>curTime := timespec_add_ms (curTime s) (1000 mod 2 ^ 64), sio := tick (tick (sio s))\<rparr>" and ?img = "tx_image (clear_cksum m)"
  obtain t w where r: "readMsg k p ?s0 = Inr (set_node p (transmitting (stored_packet m p) t n) (?s0\<lparr>txList := [p], sio := w\<rparr>))"
      "wf (set_node p (transmitting (stored_packet m p) t n) (?s0\<lparr>txList := [p], sio := w\<rparr>))" "io_out w = io_out (sio s)"
    using client_frame_read [of ?s0 p n m x a len r tp cm k] assms(2,4,6-11,13,14) by (auto simp: registered_def)
  define s1 where "s1 = (set_node p (transmitting (stored_packet m p) t n) (?s0\<lparr>txList := [p], sio := w\<rparr>))\<lparr>pm_state := TX_802514_FRAME\<rparr>"
  have s1: "wf s1" "txList s1 = [p]" "pm_state s1 = TX_802514_FRAME" "ccaList s1 = []" "io_out (sio s1) = io_out (sio s)"
      "heap s1 p = Some (transmitting (stored_packet m p) t n)"
    using r(2,3) assms(5) by (simp_all add: s1_def)
  have step1: "run_step check k (Outer, s) = Inr (Inner, s1)"
    using interval_readable [OF assms(14,12), of 1000] r(1) assms(3,5) by (simp add: outer_step_def processCcaList_none s1_def)
  obtain t' w' where i: "interval k' 1 s1 = Inr (s1\<lparr>curTime := t', sio := w'\<rparr>)" "io_out w' = io_out (sio s1)"
    using interval_quiet [OF assms(16)] by blast
  let ?s1 = "s1\<lparr>curTime := t', sio := w'\<rparr>"
  obtain s2 where s2: "processTxList k' ?s1 = Inr s2" "wf s2" "txList s2 = []"
      "mcasts (io_out (sio s2)) = mcasts (io_out (sio s)) @ [?img]"
      "\<forall>f. stream f (io_out (sio s2)) = stream f (io_out (sio s)) @ (if f = fd then tx_done_ind_msg (socket_ptr n) TX_DONE_OK else [])"
    using client_frame_sent [of ?s1 p m t n x a len r tp cm k'] s1 i(2) assms(9-11,15-17) by (auto simp: quiet_def)
  have "run_step check k' (Inner, s1) = Inr (Inner, s2)"
    using i(1) s1 s2(1) alone_no_collision [of ?s1 p check] assms(1) by (simp add: inner_step_def processCcaList_none)
  then show ?thesis
    using step1 s1 s2 client_image [OF assms(10,9)] assms(10) mcastRx_image by (intro exI [of _ s1] exI [of _ s2] exI [of _ ?img]) simp
qed

theorem client_frame_travels_witness:
  "\<exists>m s1 s2 img. run_step powerline_txCollisionCheck (delivering_to 0x1000 m) (Outer, one_registered\<lparr>pm_state := IDLE\<rparr>) = Inr (Inner, s1)
    \<and> run_step powerline_txCollisionCheck ok_kernel (Inner, s1) = Inr (Inner, s2) \<and> txList s1 = [0x1000] \<and> txList s2 = []
    \<and> mcasts (io_out (sio s2)) = mcasts (io_out (sio one_registered)) @ [img] \<and> valid_frame 0x2000 MSG_TYPE_TX_DATA_IND img"
proof -
  let ?s = "one_registered\<lparr>pm_state := IDLE\<rparr>" and ?m = "tx_data_ind_msg 0x2000 0 7 3 0 0 0" and ?k = "delivering_to 0x1000 (tx_data_ind_msg 0x2000 0 7 3 0 0 0)"
  obtain n where n: "heap ?s 0x1000 = Some n" "socket_ptr n = 0x2000" "idle_node n"
    using one_joined_node one_registered_wf by (auto simp: one_registered_def confirmed_def)
  have d: "delivers ?k (tick (tick (sio ?s))) (sock_fd (dn_socket n)) ?m" "timers_ok ?k"
      "k_epoll_wait ?k (Suc (io_tick (sio ?s))) = EpollEvents [readable 0x1000]"
    by (simp_all add: client_msg_lengths delivering_to_def delivers_def delivering_def timers_ok_def ok_kernel_def)
  have k: "expired_at ok_kernel t" for t by (simp add: expired_at_def ok_kernel_def)
  have s: "wf ?s" "registered ?s 0x1000" "txList ?s = []" "ccaList ?s = []"
    using one_registered_wf one_registered_lists by (simp_all add: registered_def)
  have "unat (3 :: u16) \<le> 221" by simp
  with d k n s quiet_ok_kernel ok_kernel_send_ok show ?thesis
    using client_frame_travels [of powerline_txCollisionCheck ?s "0x1000" n ?m 0 7 3 0 0 0 "sock_fd (dn_socket n)" ?k ok_kernel]
    by (intro exI [of _ ?m]) auto
qed

section \<open>A session of the test client\<close>

lemma client_send_all:
  assumes "k_send k (io_tick w) (cl_sockfd c) m = int (length m)"
  shows "client_send k c m w = emit (SockData (cl_sockfd c) m) (tick w)"
  using assms by (simp add: client_send_def)

lemma NodeSim_connected:
  assumes "\<And>t fd v. 0 \<le> k_setsockopt k t fd v" "\<And>t fd p. 0 \<le> k_bind k t fd p" "\<And>t fd. 0 \<le> conn t fd" and "0 \<le> k_socket k (io_tick w + 5)"
  shows "\<exists>c0 w0 c w1. NodeSim_new k w = Inr (c0, w0) \<and> connectNetSim k conn c0 w0 = Inr (c, w1) \<and> cl_sockfd c = k_socket k (io_tick w + 5)
    \<and> rxmcast_sockfd c = k_socket k (Suc (io_tick w)) \<and> io_tick w1 = io_tick w + 7 \<and> io_out w1 = io_out w"
proof -
  have "\<not> k_setsockopt k t fd v < 0" "\<not> k_bind k t fd p < 0" "\<not> conn t fd < 0" for t fd v p
    using assms(1-3) by (simp_all add: not_less)
  then show ?thesis
    using assms(4) by (simp add: NodeSim_new_def mcastInit_def connectNetSim_def Let_def not_less eval_nat_numeral)
qed

text \<open>
  C10: a whole session of the program \<^verbatim>\<open>TxOnePacket\<close>. When the system calls succeed and the socket delivers a registration request, a clear-channel confirm and a done
  indication of the simulator, whatever the two answers say, the program sends the registration confirm, the clear-channel request and its data indication in this order,
  each with the node id it was told, a valid message and of a length that the simulator takes. When the multicast group delivers the
  image that the simulator makes of that data indication, the program prints the 32 bytes it sent.
\<close>

theorem tx_one_packet_session:
  assumes "t = io_tick w" and "mfd = k_socket k (Suc t)" and "fd = k_socket k (t + 5)" "0 \<le> fd"
    and "\<And>t fd v. 0 \<le> k_setsockopt k t fd v" "\<And>t fd p. 0 \<le> k_bind k t fd p" "\<And>t fd. 0 \<le> conn t fd"
    and "\<And>t m. k_send k t fd m = int (length m)"
    and "k_recv k (t + 7) fd 128 = RecvData (registration_req_msg i)" "k_recv k (t + 11) fd 128 = RecvData (cca_con_msg i clear)"
    and "k_recv k (t + 15) fd 128 = RecvData (tx_done_ind_msg i result)"
    and "m = tx_data_ind_msg i (of_le_bytes (get 28 2 (k_malloc k (t + 12) 66))) 0x0102030405060708 32 48 (- 10) 4"
    and "k_recv k (t + 17) mfd 256 = RecvData (tx_image (clear_cksum m))"
  shows "\<exists>w'. tx_one_packet k conn w = Inr (map of_nat [0..<32], w')
    \<and> stream fd (io_out w') = stream fd (io_out w) @ reg_con_msg i @ cca_req_msg i @ m
    \<and> valid_frame i MSG_TYPE_REG_CON (reg_con_msg i) \<and> valid_frame i MSG_TYPE_CCA_REQ (cca_req_msg i)
    \<and> valid_frame i MSG_TYPE_TX_DATA_IND m \<and> list_all len_passes (map length [reg_con_msg i, cca_req_msg i, m])"
proof -
  obtain c0 w0 c w1 where c: "NodeSim_new k w = Inr (c0, w0)" "connectNetSim k conn c0 w0 = Inr (c, w1)" "cl_sockfd c = fd"
      "rxmcast_sockfd c = mfd" "io_tick w1 = t + 7" "io_out w1 = io_out w"
    using NodeSim_connected [of k conn w] assms(1-7) by auto
  note v = client_readMsg_valid and send = client_send_all
  obtain b1 where r1: "client_readMsg k c w1 = Inr (c\<lparr>replyBuffer := b1, cl_nodeId := i\<rparr>, tick w1)"
    using v [OF _ sent_msgs_valid(1), of k w1 c i] c assms(9) by auto
  define c2 where "c2 = c\<lparr>replyBuffer := b1, cl_nodeId := i\<rparr>"
  define w4 where "w4 = sendCcaReq k c2 (tick (sendRegCon k c2 (tick w1)))"
  have c2: "cl_sockfd c2 = fd" "cl_nodeId c2 = i" "rxmcast_sockfd c2 = mfd" using c by (simp_all add: c2_def)
  have w4: "io_tick w4 = t + 11" "stream fd (io_out w4) = stream fd (io_out w) @ reg_con_msg i @ cca_req_msg i"
    using assms(8) c c2 by (simp_all add: w4_def sendCcaReq_def sendRegCon_def send)
  obtain b2 where r2: "client_readMsg k c2 w4 = Inr (c2\<lparr>replyBuffer := b2, cl_nodeId := i\<rparr>, tick w4)"
    using v [OF _ sent_msgs_valid(3), of k w4 c2 i clear] w4(1) c2 assms(10) by auto
  define c3 where "c3 = c2\<lparr>replyBuffer := b2, cl_nodeId := i\<rparr>"
  define w6 where "w6 = tick (sendTxDataInd k c3 0x0102030405060708 32 48 (- 10) 4 (tick w4))"
  have c3: "cl_sockfd c3 = fd" "cl_nodeId c3 = i" "rxmcast_sockfd c3 = mfd" using c2 by (simp_all add: c3_def)
  have w6: "io_tick w6 = t + 15" "stream fd (io_out w6) = stream fd (io_out w) @ reg_con_msg i @ cca_req_msg i @ m"
    using assms(8,12) c3 w4 by (simp_all add: w6_def sendTxDataInd_def send Let_def size_defs add.commute [of 12 t])
  obtain b3 where r3: "client_readMsg k c3 w6 = Inr (c3\<lparr>replyBuffer := b3, cl_nodeId := i\<rparr>, tick w6)"
    using v [OF _ sent_msgs_valid(4), of k w6 c3 i result] w6(1) c3 assms(11) by auto
  define c4 where "c4 = c3\<lparr>replyBuffer := b3, cl_nodeId := i\<rparr>"
  let ?img = "tx_image (clear_cksum m)"
  have img: "frame_of ?img = map of_nat [0..<32]" "length ?img = 66" "sendable ?img"
    using client_image [of 32] by (simp_all add: assms(12))
  have "mcastRxDataPacket k c4 (tick w6) = Inr (frame_of ?img, tick (tick (tick w6)))"
    using assms(13) w6(1) c3 img by (intro mcastRx_image) (simp_all add: c4_def eval_nat_numeral)
  then have "tx_one_packet k conn w = Inr (map of_nat [0..<32], tick (tick (tick w6)))"
    using c r1 r2 r3 img(1) by (simp add: tx_one_packet_def Let_def c2_def c3_def c4_def w4_def w6_def)
  then show ?thesis
    using w6(2) client_msgs_valid(1,3) client_msgs_valid(4) [of 32] client_msgs_pass(1,3) client_msgs_pass(4) [of 32] by (simp add: assms(12))
qed

text \<open>A kernel that plays the simulator for one session.\<close>

definition session_frame :: "byte list" where
  "session_frame = tx_data_ind_msg 0x2000 (of_le_bytes (get 28 2 (k_malloc ok_kernel 12 66))) 0x0102030405060708 32 48 (- 10) 4"

definition session_kernel :: kernel where
  "session_kernel = ok_kernel\<lparr>k_recv := \<lambda>t fd n. RecvData
     (if t = 7 then registration_req_msg 0x2000 else if t = 11 then cca_con_msg 0x2000 True
      else if t = 15 then tx_done_ind_msg 0x2000 0 else tx_image (clear_cksum session_frame))\<rparr>"

theorem tx_one_packet_session_witness:
  "\<exists>w'. tx_one_packet session_kernel (\<lambda>t fd. 0) \<lparr>io_tick = 0, io_out = []\<rparr> = Inr (map of_nat [0..<32], w')
    \<and> stream (k_socket ok_kernel 5) (io_out w') = reg_con_msg 0x2000 @ cca_req_msg 0x2000 @ session_frame"
proof -
  let ?w = "\<lparr>io_tick = 0, io_out = []\<rparr> :: io" and ?fd = "k_socket ok_kernel 5"
  have "\<exists>w'. tx_one_packet session_kernel (\<lambda>t fd. 0) ?w = Inr (map of_nat [0..<32], w')
      \<and> stream ?fd (io_out w') = stream ?fd (io_out ?w) @ reg_con_msg 0x2000 @ cca_req_msg 0x2000 @ session_frame
      \<and> valid_frame 0x2000 MSG_TYPE_REG_CON (reg_con_msg 0x2000) \<and> valid_frame 0x2000 MSG_TYPE_CCA_REQ (cca_req_msg 0x2000)
      \<and> valid_frame 0x2000 MSG_TYPE_TX_DATA_IND session_frame
      \<and> list_all len_passes (map length [reg_con_msg 0x2000, cca_req_msg 0x2000, session_frame])"
    by (rule tx_one_packet_session [where t = 0 and clear = True and result = 0])
      (simp_all add: session_kernel_def session_frame_def ok_kernel_def)
  then show ?thesis by auto
qed

end
